(* ===== verification/Prelude.thy ===== *)
theory Prelude
  imports Complex_Main "HOL-Library.Char_ord" "HOL-Library.List_Lexorder"
begin

text \<open>
  Shared vocabulary of the development: the sum type that models a Go function with result
  type \<open>(T, error)\<close>, the combinators that model its early returns, the option type that
  models a Go function with result type \<open>error\<close>, and generic facts on lists.

  \<^item> \<open>Inl e\<close> is a non-nil error, \<open>Inr x\<close> the value with a nil error.
  \<^item> \<open>bind_res r f\<close> is \<open>x, err := r; if err != nil \<close>\<open>return err\<close>\<open>; f(x)\<close>.
  \<^item> \<open>guard_res c k\<close> is \<open>if err := c; err != nil \<close>\<open>return err\<close>\<open>; k\<close>, where \<open>c\<close>
    is an error or nil.
  \<^item> \<open>first_err c d\<close> is the same sequence in a function that itself returns an error.
  \<^item> \<open>reject b e\<close> is \<open>if b \<close>\<open>return e\<close>\<open>\<close>.
  \<^item> \<open>err_loop f xs\<close> is a range loop that returns the first error of its body.
\<close>

named_theorems res_simps \<open>equations of the result combinators\<close>
named_theorems codec_simps \<open>round-trip equations of the text and byte encodings\<close>

type_synonym bytes = string

definition bind_res :: "'e + 'a \<Rightarrow> ('a \<Rightarrow> 'e + 'b) \<Rightarrow> 'e + 'b" where
  "bind_res r f = (case r of Inl e \<Rightarrow> Inl e | Inr x \<Rightarrow> f x)"

definition guard_res :: "'e option \<Rightarrow> 'e + 'a \<Rightarrow> 'e + 'a" where
  "guard_res c k = (case c of Some e \<Rightarrow> Inl e | None \<Rightarrow> k)"

definition first_err :: "'e option \<Rightarrow> 'e option \<Rightarrow> 'e option" where
  "first_err c d = (case c of Some e \<Rightarrow> Some e | None \<Rightarrow> d)"

definition reject :: "bool \<Rightarrow> 'e \<Rightarrow> 'e option" where
  "reject b e = (if b then Some e else None)"

definition err_of :: "'e + 'a \<Rightarrow> 'e option" where
  "err_of r = (case r of Inl e \<Rightarrow> Some e | Inr _ \<Rightarrow> None)"

primrec err_loop :: "('a \<Rightarrow> 'e option) \<Rightarrow> 'a list \<Rightarrow> 'e option" where
  "err_loop f [] = None"
| "err_loop f (x # xs) = first_err (f x) (err_loop f xs)"

lemma bind_res_simps [simp, res_simps]:
  "bind_res (Inl e) f = Inl e" "bind_res (Inr x) f = f x"
  by (simp_all add: bind_res_def)

lemma bind_res_Inr_iff [simp, res_simps]:
  "bind_res r f = Inr y \<longleftrightarrow> (\<exists>x. r = Inr x \<and> f x = Inr y)"
  by (auto simp: bind_res_def split: sum.splits)

lemma bind_res_Inl_iff [res_simps]:
  "bind_res r f = Inl e \<longleftrightarrow> r = Inl e \<or> (\<exists>x. r = Inr x \<and> f x = Inl e)"
  by (auto simp: bind_res_def split: sum.splits)

lemma guard_res_simps [simp, res_simps]:
  "guard_res None k = k" "guard_res (Some e) k = Inl e"
  by (simp_all add: guard_res_def)

lemma guard_res_pass [simp]: "c = None \<Longrightarrow> guard_res c k = k"
  by simp

lemma guard_res_Inr_iff [simp, res_simps]:
  "guard_res c k = Inr y \<longleftrightarrow> c = None \<and> k = Inr y"
  by (auto simp: guard_res_def split: option.splits)

lemma guard_res_Inl_iff [res_simps]:
  "guard_res c k = Inl e \<longleftrightarrow> c = Some e \<or> (c = None \<and> k = Inl e)"
  by (auto simp: guard_res_def split: option.splits)

lemma first_err_simps [simp, res_simps]:
  "first_err None d = d" "first_err (Some e) d = Some e"
  by (simp_all add: first_err_def)

lemma first_err_pass [simp]: "c = None \<Longrightarrow> first_err c d = d"
  by simp

lemma first_err_None_iff [simp, res_simps]:
  "first_err c d = None \<longleftrightarrow> c = None \<and> d = None"
  by (auto simp: first_err_def split: option.splits)

lemma reject_simps [simp, res_simps]:
  "reject True e = Some e" "reject False e = None"
  by (simp_all add: reject_def)

lemma reject_None_iff [simp, res_simps]: "reject b e = None \<longleftrightarrow> \<not> b"
  by (simp add: reject_def)

lemma reject_Some_iff [simp, res_simps]: "reject b e = Some e' \<longleftrightarrow> b \<and> e = e'"
  by (simp add: reject_def)

lemma err_of_simps [simp, res_simps]: "err_of (Inl e) = Some e" "err_of (Inr x) = None"
  by (simp_all add: err_of_def)

lemma err_of_None_iff [res_simps]: "err_of r = None \<longleftrightarrow> (\<exists>x. r = Inr x)"
  by (cases r) auto

lemma err_loop_None_iff [simp, res_simps]: "err_loop f xs = None \<longleftrightarrow> (\<forall>x\<in>set xs. f x = None)"
  by (induction xs) auto

lemma sum_not_Inl: "(\<And>e. r \<noteq> Inl e) \<Longrightarrow> \<exists>x. r = Inr x"
  by (cases r) auto

subsection \<open>Commands\<close>

text \<open>
  A component driven by commands: \<open>step s c\<close> is the state after an accepted command or the error of
  a refused one, which leaves the state as it was. The contract of a provider is that accepted
  commands keep the invariant; then so does every sequence of them.
\<close>

primrec run_cmds :: "('s \<Rightarrow> 'c \<Rightarrow> 'e + 's) \<Rightarrow> 's \<Rightarrow> 'c list \<Rightarrow> 'e + 's" where
  "run_cmds step s [] = Inr s"
| "run_cmds step s (c # cs) = bind_res (step s c) (\<lambda>s'. run_cmds step s' cs)"

locale command_system =
  fixes step :: "'s \<Rightarrow> 'c \<Rightarrow> 'e + 's" and inv :: "'s \<Rightarrow> bool"
  assumes step_keeps: "inv s \<Longrightarrow> step s c = Inr s' \<Longrightarrow> inv s'"
begin

lemma run_keeps: "inv s \<Longrightarrow> run_cmds step s cs = Inr s' \<Longrightarrow> inv s'"
  by (induction cs arbitrary: s) (auto dest: step_keeps)

end

subsection \<open>Lists\<close>

lemma append_eq_length_conv:
  "length xs = length us \<Longrightarrow> xs @ ys = us @ vs \<longleftrightarrow> xs = us \<and> ys = vs"
  by simp

lemma takeWhile_neq_append: "c \<notin> set xs \<Longrightarrow> takeWhile (\<lambda>x. x \<noteq> c) (xs @ c # ys) = xs"
  by (induction xs) auto

lemma dropWhile_neq_append: "c \<notin> set xs \<Longrightarrow> dropWhile (\<lambda>x. x \<noteq> c) (xs @ c # ys) = c # ys"
  by (induction xs) auto

lemma takeWhile_neq_all: "c \<notin> set xs \<Longrightarrow> takeWhile (\<lambda>x. x \<noteq> c) xs = xs"
  by (induction xs) auto

lemma dropWhile_neq_all: "c \<notin> set xs \<Longrightarrow> dropWhile (\<lambda>x. x \<noteq> c) xs = []"
  by (induction xs) auto

lemma takeWhile_drop_split:
  "c \<in> set xs \<Longrightarrow> takeWhile (\<lambda>x. x \<noteq> c) xs @ c # drop 1 (dropWhile (\<lambda>x. x \<noteq> c) xs) = xs"
  by (induction xs) auto

lemma take_prefix_append: "take (length p) (p @ s) = p"
  by simp

lemma ordered_pairs_Cons:
  "(\<exists>i j. i < j \<and> j < length (c # cs) \<and> P ((c # cs) ! i) ((c # cs) ! j))
   \<longleftrightarrow> (\<exists>d\<in>set cs. P c d) \<or> (\<exists>i j. i < j \<and> j < length cs \<and> P (cs ! i) (cs ! j))" (is "?A \<longleftrightarrow> ?B \<or> ?C")
proof
  assume ?A
  then obtain i j where ij: "i < j" "j < length (c # cs)" "P ((c # cs) ! i) ((c # cs) ! j)"
    by blast
  then obtain j' where j': "j = Suc j'" "j' < length cs"
    by (cases j) auto
  then show "?B \<or> ?C"
  proof (cases i)
    case 0
    then have "cs ! j' \<in> set cs" "P c (cs ! j')"
      using ij j' by simp_all
    then show ?thesis by blast
  next
    case (Suc i')
    then have "i' < j'" "P (cs ! i') (cs ! j')"
      using ij j' by simp_all
    then show ?thesis using j' by blast
  qed
next
  have "?A" if "j < length cs" "P c (cs ! j)" for j
    using that by (intro exI [of _ 0] exI [of _ "Suc j"]) simp
  moreover have "?A" if "i < j" "j < length cs" "P (cs ! i) (cs ! j)" for i j
    using that by (intro exI [of _ "Suc i"] exI [of _ "Suc j"]) simp
  moreover assume "?B \<or> ?C"
  ultimately show ?A
    by (metis in_set_conv_nth)
qed

end
