(* ===== verification/Go_Std.thy ===== *)
theory Go_Std
  imports Prelude
begin

text \<open>
  The pieces of the Go language and its standard library that the modelled packages use:
  integer conversions, the \<open>strings\<close> functions, decimal numerals (\<open>strconv\<close>,
  \<open>big.Int.String\<close>, \<open>fmt\<close> with a zero-padded width), the big-endian encodings of
  \<open>encoding/binary\<close> and \<open>big.Int.Bytes\<close>. A Go string or byte slice is a list of
  bytes, here a list of HOL characters (which are bytes). These definitions carry no entry
  in the source map: they describe the language, not the repository.
\<close>

subsection \<open>Integer conversions\<close>

definition go_int32 :: "int \<Rightarrow> int" where
  "go_int32 n = (n + 2 ^ 31) mod 2 ^ 32 - 2 ^ 31"

lemma go_int32_id: "- (2 ^ 31) \<le> n \<Longrightarrow> n < 2 ^ 31 \<Longrightarrow> go_int32 n = n"
  by (simp add: go_int32_def)

lemma go_int32_small [simp]: "0 \<le> n \<Longrightarrow> n < 2147483648 \<Longrightarrow> go_int32 n = n"
  by (simp add: go_int32_def)

definition go_int64 :: "int \<Rightarrow> int" where
  "go_int64 n = (n + 2 ^ 63) mod 2 ^ 64 - 2 ^ 63"

subsection \<open>strings\<close>

definition cut :: "char \<Rightarrow> string \<Rightarrow> string \<times> string \<times> bool" where
  "cut sep s = (takeWhile (\<lambda>c. c \<noteq> sep) s, drop 1 (dropWhile (\<lambda>c. c \<noteq> sep) s), sep \<in> set s)"

definition cut_prefix :: "string \<Rightarrow> string \<Rightarrow> string option" where
  "cut_prefix p s = (if take (length p) s = p then Some (drop (length p) s) else None)"

fun split :: "char \<Rightarrow> string \<Rightarrow> string list" where
  "split sep [] = [[]]"
| "split sep (c # cs) =
     (if c = sep then [] # split sep cs
      else (case split sep cs of [] \<Rightarrow> [[c]] | x # xs \<Rightarrow> (c # x) # xs))"

fun join :: "char \<Rightarrow> string list \<Rightarrow> string" where
  "join sep [] = []"
| "join sep [x] = x"
| "join sep (x # y # xs) = x @ sep # join sep (y # xs)"

lemma cut_append [codec_simps]: "sep \<notin> set a \<Longrightarrow> cut sep (a @ sep # b) = (a, b, True)"
  by (simp add: cut_def takeWhile_neq_append dropWhile_neq_append)

lemma cut_none [codec_simps]: "sep \<notin> set a \<Longrightarrow> cut sep a = (a, [], False)"
  by (simp add: cut_def takeWhile_neq_all dropWhile_neq_all)

lemma cut_found: "cut sep s = (a, b, True) \<Longrightarrow> s = a @ sep # b \<and> sep \<notin> set a"
proof -
  assume c: "cut sep s = (a, b, True)"
  then have "sep \<in> set s" and "a = takeWhile (\<lambda>c. c \<noteq> sep) s"
    and "b = drop 1 (dropWhile (\<lambda>c. c \<noteq> sep) s)" by (auto simp: cut_def)
  then show ?thesis using takeWhile_drop_split [of sep s] by (auto dest: set_takeWhileD)
qed

lemma cut_not_found: "cut sep s = (a, b, False) \<Longrightarrow> a = s \<and> b = [] \<and> sep \<notin> set s"
  by (auto simp: cut_def takeWhile_neq_all dropWhile_neq_all)

lemma cut_prefix_append [simp, codec_simps]: "cut_prefix p (p @ s) = Some s"
  by (simp add: cut_prefix_def)

lemma cut_prefix_Some_iff: "cut_prefix p s = Some b \<longleftrightarrow> s = p @ b"
  by (auto simp: cut_prefix_def) (metis append_take_drop_id)

lemma split_not_Nil [simp]: "split sep s \<noteq> []"
  by (induction s) (auto split: list.splits)

lemma split_no_sep: "sep \<notin> set s \<Longrightarrow> split sep s = [s]"
  by (induction s) auto

lemma split_append: "sep \<notin> set a \<Longrightarrow> split sep (a @ sep # b) = a # split sep b"
  by (induction a) auto

lemma split_join [codec_simps]:
  "xs \<noteq> [] \<Longrightarrow> (\<forall>x\<in>set xs. sep \<notin> set x) \<Longrightarrow> split sep (join sep xs) = xs"
  by (induction sep xs rule: join.induct) (auto simp: split_no_sep split_append)

lemma join_Cons: "xs \<noteq> [] \<Longrightarrow> join sep (x # xs) = x @ sep # join sep xs"
  by (cases xs) auto

lemma join_split: "join sep (split sep s) = s"
proof (induction s)
  case Nil
  then show ?case by simp
next
  case (Cons c cs)
  obtain x xs where sp: "split sep cs = x # xs" by (metis split_not_Nil list.exhaust)
  show ?case using Cons sp by (cases xs) (auto simp: join_Cons)
qed

lemma split_parts_no_sep: "x \<in> set (split sep s) \<Longrightarrow> sep \<notin> set x"
proof (induction s arbitrary: x)
  case Nil
  then show ?case by simp
next
  case (Cons c cs)
  obtain y ys where sp: "split sep cs = y # ys" by (metis split_not_Nil list.exhaust)
  with Cons show ?case by (auto split: if_splits)
qed

text \<open>
  \<open>strings.ToLower\<close>, as far as a comparison of its result with an ASCII word can tell: the
  only non-ASCII runes whose lower case is ASCII are U+0130 (to i) and U+212A (to k).
\<close>

definition ascii_lower :: "char \<Rightarrow> char" where
  "ascii_lower c = (if CHR ''A'' \<le> c \<and> c \<le> CHR ''Z'' then char_of (of_char c + (32 :: nat)) else c)"

fun go_to_lower :: "string \<Rightarrow> string" where
  "go_to_lower [] = []"
| "go_to_lower (c # cs) =
     (if c = CHR 0xC4 \<and> take 1 cs = [CHR 0xB0] then CHR ''i'' # go_to_lower (drop 1 cs)
      else if c = CHR 0xE2 \<and> take 2 cs = [CHR 0x84, CHR 0xAA] then CHR ''k'' # go_to_lower (drop 2 cs)
      else ascii_lower c # go_to_lower cs)"

subsection \<open>Decimal numerals\<close>

definition is_digit :: "char \<Rightarrow> bool" where
  "is_digit c \<longleftrightarrow> CHR ''0'' \<le> c \<and> c \<le> CHR ''9''"

definition is_upper :: "char \<Rightarrow> bool" where
  "is_upper c \<longleftrightarrow> CHR ''A'' \<le> c \<and> c \<le> CHR ''Z''"

definition is_lower :: "char \<Rightarrow> bool" where
  "is_lower c \<longleftrightarrow> CHR ''a'' \<le> c \<and> c \<le> CHR ''z''"

definition digit_char :: "nat \<Rightarrow> char" where
  "digit_char n = char_of (48 + n)"

definition digit_val :: "char \<Rightarrow> nat" where
  "digit_val c = of_char c - 48"

fun nat_digits :: "nat \<Rightarrow> string" where
  "nat_digits n = (if n < 10 then [digit_char n] else nat_digits (n div 10) @ [digit_char (n mod 10)])"

declare nat_digits.simps [simp del]

definition digits_val :: "string \<Rightarrow> nat" where
  "digits_val s = foldl (\<lambda>a c. 10 * a + digit_val c) 0 s"

definition pad :: "nat \<Rightarrow> nat \<Rightarrow> string" where
  "pad k n = replicate (k - length (nat_digits n)) CHR ''0'' @ nat_digits n"

lemma is_digit_iff: "is_digit c \<longleftrightarrow> 48 \<le> (of_char c :: nat) \<and> (of_char c :: nat) \<le> 57"
  by (simp add: is_digit_def less_eq_char_def)

lemma of_digit_char: "n < 10 \<Longrightarrow> of_char (digit_char n) = 48 + n"
  by (simp add: digit_char_def)

lemma digit_val_char [simp]: "n < 10 \<Longrightarrow> digit_val (digit_char n) = n"
  by (simp add: digit_val_def of_digit_char)

lemma is_digit_char [simp]: "n < 10 \<Longrightarrow> is_digit (digit_char n)"
  by (simp add: is_digit_iff of_digit_char)

lemma digit_val_less: "is_digit c \<Longrightarrow> digit_val c < 10"
  by (auto simp: is_digit_iff digit_val_def)

lemma digit_char_val [simp]: "is_digit c \<Longrightarrow> digit_char (digit_val c) = c"
  by (simp add: is_digit_iff digit_val_def digit_char_def)

lemma digit_char_0: "digit_char 0 = CHR ''0''"
  by (simp add: digit_char_def char_of_def bit_0)

lemma digit_val_0 [simp]: "digit_val CHR ''0'' = 0"
  by (simp add: digit_val_def)

lemma is_digit_0 [simp]: "is_digit CHR ''0''"
  by (simp add: is_digit_def)

lemma digits_val_Nil [simp]: "digits_val [] = 0"
  by (simp add: digits_val_def)

lemma digits_val_snoc [simp]: "digits_val (s @ [c]) = 10 * digits_val s + digit_val c"
  by (simp add: digits_val_def)

lemma digits_val_append: "digits_val (s @ t) = digits_val s * 10 ^ length t + digits_val t"
proof (induction t rule: rev_induct)
  case Nil
  then show ?case by simp
next
  case (snoc c t)
  have "digits_val (s @ t @ [c]) = 10 * digits_val (s @ t) + digit_val c"
    using digits_val_snoc [of "s @ t" c] by simp
  with snoc show ?case by (simp add: algebra_simps)
qed

lemma digits_val_replicate0 [simp]: "digits_val (replicate k CHR ''0'') = 0"
proof (induction k)
  case (Suc k)
  then show ?case using digits_val_append [of "[CHR ''0'']" "replicate k CHR ''0''"]
    by (simp add: digits_val_def)
qed simp

lemma digits_val_less: "\<forall>c\<in>set s. is_digit c \<Longrightarrow> digits_val s < 10 ^ length s"
proof (induction s rule: rev_induct)
  case (snoc c s)
  then have "digits_val s < 10 ^ length s" and "digit_val c < 10"
    by (auto simp: digit_val_less)
  then show ?case by simp
qed simp

lemma nat_digits_small: "n < 10 \<Longrightarrow> nat_digits n = [digit_char n]"
  by (subst nat_digits.simps) simp

lemma nat_digits_step: "10 \<le> n \<Longrightarrow> nat_digits n = nat_digits (n div 10) @ [digit_char (n mod 10)]"
  by (subst nat_digits.simps) simp

lemma nat_digits_not_Nil [simp]: "nat_digits n \<noteq> []"
  by (subst nat_digits.simps) simp

lemma nat_digits_are_digits: "c \<in> set (nat_digits n) \<Longrightarrow> is_digit c"
proof (induction n rule: nat_digits.induct)
  case (1 n)
  then show ?case
    by (cases "n < 10") (auto simp: nat_digits_small nat_digits_step)
qed

lemma digits_val_nat_digits [simp, codec_simps]: "digits_val (nat_digits n) = n"
proof (induction n rule: nat_digits.induct)
  case (1 n)
  show ?case
  proof (cases "n < 10")
    case True
    then show ?thesis using digits_val_snoc [of "[]"] by (simp add: nat_digits_small)
  next
    case False
    then have "digits_val (nat_digits n) = 10 * (n div 10) + n mod 10"
      using 1 by (simp add: nat_digits_step)
    then show ?thesis by presburger
  qed
qed

lemma length_nat_digits_le: "0 < k \<Longrightarrow> length (nat_digits n) \<le> k \<longleftrightarrow> n < 10 ^ k"
proof (induction n arbitrary: k rule: nat_digits.induct)
  case (1 n)
  show ?case
  proof (cases "n < 10")
    case True
    have "(10::nat) ^ 1 \<le> 10 ^ k" using "1.prems" by (intro power_increasing) auto
    with True "1.prems" show ?thesis by (auto simp: nat_digits_small)
  next
    case False
    then have len: "length (nat_digits n) = Suc (length (nat_digits (n div 10)))"
      by (simp add: nat_digits_step)
    show ?thesis
    proof (cases k)
      case 0
      with "1.prems" show ?thesis by simp
    next
      case (Suc j)
      show ?thesis
      proof (cases "j = 0")
        case True
        then show ?thesis using Suc len False by simp
      next
        case j: False
        with "1.IH" False have "length (nat_digits (n div 10)) \<le> j \<longleftrightarrow> n div 10 < 10 ^ j"
          by simp
        also have "\<dots> \<longleftrightarrow> n < 10 ^ Suc j" by (simp add: div_less_iff_less_mult mult.commute)
        finally show ?thesis using Suc len by simp
      qed
    qed
  qed
qed

lemma nat_digits_digits_val:
  "\<forall>c\<in>set s. is_digit c \<Longrightarrow> s \<noteq> [] \<Longrightarrow> length s = 1 \<or> hd s \<noteq> CHR ''0''
   \<Longrightarrow> nat_digits (digits_val s) = s"
proof (induction s rule: rev_induct)
  case Nil
  then show ?case by simp
next
  case (snoc c s)
  show ?case
  proof (cases "s = []")
    case True
    with snoc.prems show ?thesis
      using digits_val_snoc [of "[]" c] by (simp add: nat_digits_small digit_val_less)
  next
    case False
    with snoc.prems have ds: "\<forall>c\<in>set s. is_digit c" and h: "hd s \<noteq> CHR ''0''" by auto
    then have IH: "nat_digits (digits_val s) = s" using snoc.IH False by blast
    have "digits_val s \<noteq> 0"
    proof
      assume "digits_val s = 0"
      then have "s = [CHR ''0'']" using IH by (simp add: nat_digits_small digit_char_0)
      then show False using h by simp
    qed
    moreover have "digit_val c < 10" using snoc.prems by (simp add: digit_val_less)
    ultimately show ?thesis using IH snoc.prems by (simp add: nat_digits_step)
  qed
qed

lemma nat_digits_hd: "0 < n \<Longrightarrow> hd (nat_digits n) \<noteq> CHR ''0''"
proof (induction n rule: nat_digits.induct)
  case (1 n)
  show ?case
  proof (cases "n < 10")
    case True
    with "1.prems" show ?thesis
      using digit_val_char [of n] by (auto simp: nat_digits_small simp del: digit_val_char)
  next
    case False
    with 1 show ?thesis by (simp add: nat_digits_step)
  qed
qed

lemma digits_val_pad [simp, codec_simps]: "digits_val (pad k n) = n"
  by (simp add: pad_def digits_val_append)

lemma pad_are_digits: "c \<in> set (pad k n) \<Longrightarrow> is_digit c"
  by (auto simp: pad_def nat_digits_are_digits)

lemma length_pad: "0 < k \<Longrightarrow> n < 10 ^ k \<Longrightarrow> length (pad k n) = k"
  using length_nat_digits_le [of k n] by (simp add: pad_def)

lemma digits_val_inj:
  "length s = length t \<Longrightarrow> \<forall>c\<in>set s. is_digit c \<Longrightarrow> \<forall>c\<in>set t. is_digit c
   \<Longrightarrow> digits_val s = digits_val t \<Longrightarrow> s = t"
proof (induction s arbitrary: t rule: rev_induct)
  case Nil
  then show ?case by simp
next
  case (snoc c s)
  then obtain d u where t: "t = u @ [d]" by (metis length_0_conv rev_exhaust snoc_eq_iff_butlast)
  have "digit_val c < 10" "digit_val d < 10" using snoc.prems t by (auto simp: digit_val_less)
  moreover have "10 * digits_val s + digit_val c = 10 * digits_val u + digit_val d"
    using snoc.prems t by simp
  ultimately have "digits_val s = digits_val u" "digit_val c = digit_val d" by presburger+
  moreover have "c = d" using snoc.prems t calculation(2) digit_char_val by (metis in_set_conv_decomp)
  ultimately show ?case using snoc t by simp
qed

lemma pad_digits_val: "length s = k \<Longrightarrow> 0 < k \<Longrightarrow> \<forall>c\<in>set s. is_digit c \<Longrightarrow> pad k (digits_val s) = s"
proof -
  assume k: "length s = k" "0 < k" and d: "\<forall>c\<in>set s. is_digit c"
  have "digits_val s < 10 ^ k" using digits_val_less [OF d] k by simp
  then have "length (pad k (digits_val s)) = length s" using k by (simp add: length_pad)
  then show ?thesis using digits_val_inj [of "pad k (digits_val s)" s] d
    by (simp add: pad_are_digits)
qed

subsection \<open>Byte encodings\<close>

lemma char_of_small_inj:
  "m < 256 \<Longrightarrow> n < 256 \<Longrightarrow> char_of m = (char_of n :: char) \<Longrightarrow> m = (n :: nat)"
  by (metis mod_less of_char_of)

fun be_bytes :: "nat \<Rightarrow> nat \<Rightarrow> bytes" where
  "be_bytes 0 n = []"
| "be_bytes (Suc k) n = be_bytes k (n div 256) @ [char_of n]"

definition be32 :: "int \<Rightarrow> bytes" where
  "be32 x = be_bytes 4 (nat (x mod 2 ^ 32))"

definition be64 :: "int \<Rightarrow> bytes" where
  "be64 x = be_bytes 8 (nat (x mod 2 ^ 64))"

fun nat_bytes :: "nat \<Rightarrow> bytes" where
  "nat_bytes n = (if n = 0 then [] else nat_bytes (n div 256) @ [char_of n])"

declare nat_bytes.simps [simp del]

definition bytes_val :: "bytes \<Rightarrow> nat" where
  "bytes_val s = foldl (\<lambda>a c. 256 * a + of_char c) 0 s"

text \<open>For evaluation: the bytes of a 32-bit integer without unary numbers.\<close>

lemma char_of_nat_int: "0 \<le> z \<Longrightarrow> char_of (nat z) = (char_of z :: char)"
  by (simp add: char_of_def bit_nat_iff)

lemma be32_code [code]:
  "be32 x = [char_of (x div 2 ^ 24), char_of (x div 2 ^ 16), char_of (x div 2 ^ 8), char_of x]"
proof -
  have "char_of (nat (x mod 2 ^ 32) div 2 ^ k) = (char_of (x div 2 ^ k) :: char)" if "k \<le> 24" for k
  proof -
    have "nat (x mod 2 ^ 32) div 2 ^ k = nat (drop_bit k (take_bit 32 x))"
      by (simp add: take_bit_eq_mod drop_bit_eq_div nat_div_distrib nat_power_eq)
    then have "char_of (nat (x mod 2 ^ 32) div 2 ^ k) = (char_of (drop_bit k (take_bit 32 x)) :: char)"
      by (simp only: char_of_nat_int take_bit_nonnegative drop_bit_nonnegative_int_iff)
    also have "\<dots> = char_of (drop_bit k x)"
      using that by (simp add: char_of_def bit_drop_bit_eq bit_take_bit_iff)
    finally show ?thesis
      by (simp add: drop_bit_eq_div)
  qed
  note at = this [of 0] this [of 8] this [of 16] this [of 24]
  have "be_bytes (Suc (Suc (Suc (Suc 0)))) n
      = [char_of (n div 2 ^ 24), char_of (n div 2 ^ 16), char_of (n div 2 ^ 8), char_of n]" for n
    by (simp add: div_mult2_eq [symmetric])
  moreover have "4 = Suc (Suc (Suc (Suc 0)))"
    by simp
  ultimately have "be32 x = [char_of (nat (x mod 2 ^ 32) div 2 ^ 24), char_of (nat (x mod 2 ^ 32) div 2 ^ 16),
      char_of (nat (x mod 2 ^ 32) div 2 ^ 8), char_of (nat (x mod 2 ^ 32))]"
    unfolding be32_def by (simp only:)
  with at show ?thesis
    by simp
qed

lemma length_be_bytes [simp]: "length (be_bytes k n) = k"
  by (induction k arbitrary: n) auto

lemma length_be32 [simp]: "length (be32 x) = 4"
  by (simp add: be32_def)

lemma length_be64 [simp]: "length (be64 x) = 8"
  by (simp add: be64_def)

lemma bytes_val_snoc [simp]: "bytes_val (s @ [c]) = 256 * bytes_val s + of_char c"
  by (simp add: bytes_val_def)

lemma bytes_val_Nil [simp]: "bytes_val [] = 0"
  by (simp add: bytes_val_def)

lemma bytes_val_be_bytes: "n < 256 ^ k \<Longrightarrow> bytes_val (be_bytes k n) = n"
proof (induction k arbitrary: n)
  case (Suc k)
  then have "n div 256 < 256 ^ k" by (simp add: div_less_iff_less_mult mult.commute)
  with Suc.IH have "bytes_val (be_bytes k (n div 256)) = n div 256" by blast
  then show ?case by (simp add: of_char_of)
qed simp

lemma be_bytes_inj:
  assumes "m < 256 ^ k" and "n < 256 ^ k" and "be_bytes k m = be_bytes k n"
  shows "m = n"
  using assms bytes_val_be_bytes by metis

lemma be32_mod_inj: "be32 x = be32 y \<Longrightarrow> x mod 2 ^ 32 = y mod 2 ^ 32"
proof -
  assume "be32 x = be32 y"
  then have "be_bytes 4 (nat (x mod 2 ^ 32)) = be_bytes 4 (nat (y mod 2 ^ 32))"
    by (simp only: be32_def)
  moreover have "nat (z mod 2 ^ 32) < 256 ^ 4" for z :: int by (simp add: nat_less_iff)
  ultimately have "nat (x mod 2 ^ 32) = nat (y mod 2 ^ 32)" using be_bytes_inj by blast
  then show ?thesis by (simp add: eq_nat_nat_iff)
qed

lemma be64_mod_inj: "be64 x = be64 y \<Longrightarrow> x mod 2 ^ 64 = y mod 2 ^ 64"
proof -
  assume "be64 x = be64 y"
  then have "be_bytes 8 (nat (x mod 2 ^ 64)) = be_bytes 8 (nat (y mod 2 ^ 64))"
    by (simp only: be64_def)
  moreover have "nat (z mod 2 ^ 64) < 256 ^ 8" for z :: int by (simp add: nat_less_iff)
  ultimately have "nat (x mod 2 ^ 64) = nat (y mod 2 ^ 64)" using be_bytes_inj by blast
  then show ?thesis by (simp add: eq_nat_nat_iff)
qed

lemma be32_inj: "0 \<le> x \<Longrightarrow> x < 2 ^ 32 \<Longrightarrow> 0 \<le> y \<Longrightarrow> y < 2 ^ 32 \<Longrightarrow> be32 x = be32 y \<Longrightarrow> x = y"
  by (drule be32_mod_inj) simp

lemma bytes_val_nat_bytes [simp]: "bytes_val (nat_bytes n) = n"
proof (induction n rule: nat_bytes.induct)
  case (1 n)
  show ?case
  proof (cases "n = 0")
    case True
    then show ?thesis by (subst nat_bytes.simps) simp
  next
    case False
    then have "nat_bytes n = nat_bytes (n div 256) @ [char_of n]"
      by (subst nat_bytes.simps) simp
    then have "bytes_val (nat_bytes n) = 256 * (n div 256) + n mod 256"
      using 1 False by (simp add: of_char_of)
    then show ?thesis by presburger
  qed
qed

lemma nat_bytes_inj: "nat_bytes m = nat_bytes n \<Longrightarrow> m = n"
  by (metis bytes_val_nat_bytes)

lemma length_nat_bytes_le: "n < 256 ^ k \<Longrightarrow> length (nat_bytes n) \<le> k"
proof (induction k arbitrary: n)
  case 0
  then show ?case by (simp add: nat_bytes.simps)
next
  case (Suc k)
  then have "n div 256 < 256 ^ k" by (simp add: div_less_iff_less_mult mult.commute)
  with Suc.IH have "length (nat_bytes (n div 256)) \<le> k" by blast
  then show ?case by (subst nat_bytes.simps) simp
qed

definition len_prefixed :: "bytes \<Rightarrow> bytes" where
  "len_prefixed s = be32 (int (length s)) @ s"

lemma len_prefixed_append_inj:
  assumes "len_prefixed a @ x = len_prefixed b @ y"
    and "length a < 2 ^ 32" and "length b < 2 ^ 32"
  shows "a = b \<and> x = y"
proof -
  from assms(1) have h: "be32 (int (length a)) = be32 (int (length b))" and t: "a @ x = b @ y"
    by (simp_all add: len_prefixed_def)
  have "int (length a) = int (length b)" by (rule be32_inj) (use h assms in simp_all)
  then show ?thesis using t by simp
qed

end
