(* ===== verification/Values_Error.thy ===== *)
theory Values_Error
  imports Go_Std
begin

text \<open>
  The sentinel errors of package \<open>internal/kernel/values\<close>, one datatype per file and one
  constructor per exported \<open>Err\<close> variable. The source wraps a sentinel with a detail text,
  which the model drops. \<open>ErrInternal\<close> stands for the unnamed internal errors of
  \<open>decimal.go\<close>, \<open>ErrBackend\<close> for an error the decimal backend returns,
  \<open>ErrCodec\<close> and \<open>ErrResolver\<close> for errors a caller-supplied codec or resolver
  returns, and \<open>GoPanic\<close> for a run-time panic.
\<close>

datatype decimal_error =
    ErrDecimalUnset | ErrDecimalSyntax | ErrNotFinite | ErrNegativeZero | ErrExcessScale
  | ErrScaleRange | ErrPrecisionOverflow | ErrRoundingUnspecified | ErrRoundingMode | ErrInexact
  | ErrScaleMismatch | ErrDivideByZero | ErrInternal | ErrBackend

datatype money_error =
    ErrCurrencyCode | ErrCurrencyMismatch | ErrUnitCode | ErrUnitMismatch | ErrRateKind
  | ErrMoneyUnset | ErrQuantityUnset | ErrRateUnset | ErrPercentageUnset

datatype identity_error =
    ErrEmptyKind | ErrInvalidKind | ErrEmptyID | ErrInvalidID | ErrTenantRequired
  | ErrInvalidTenant | ErrEmptyResourceKey | ErrInvalidUTF8 | ErrNotNFC | ErrCanonicalFormat
  | ErrAmbiguousRevision | ErrRevisionStreamRequired | ErrRevisionStreamMismatch
  | ErrRevisionUnspecified | ErrRevisionNotOrdered

datatype presence_error =
    ErrPresenceUnspecified | ErrPresenceState | ErrPresenceReason | ErrPresenceWire
  | ErrPresenceNoValue | ErrCodec

datatype civil_error =
    ErrInstantUnset | ErrInstantFormat | ErrInstantRange | ErrInvalidLocalDate
  | ErrInvalidLocalTime | ErrLocalDateUnset | ErrLocalTimeUnset | ErrZoneRequired
  | ErrTzdbVersionRequired | ErrUnknownZone | ErrDisambiguationRequired | ErrDisambiguation
  | ErrDSTGap | ErrDSTAmbiguous | ErrOffsetNotValid

datatype interval_error =
    ErrCalendarRequired | ErrCalendarVersionRequired | ErrIntervalUnset | ErrIntervalInverted
  | ErrIntervalEmpty | ErrIntervalKindMismatch | ErrFutureKnowledge | ErrPayPeriodUnset
  | ErrPayPeriodOpenEnded | ErrBusinessDayUnset

datatype timer_error =
    ErrReferenceUpdatePolicyRequired | ErrReferenceUpdatePolicy | ErrDatasetVersionRequired
  | ErrResolverRequired | ErrResolver string

datatype verr =
    DecErr decimal_error | MonErr money_error | IdErr identity_error | PresErr presence_error
  | CivilErr civil_error | IvErr interval_error | TimerErr timer_error | GoPanic

type_synonym 'a res = "verr + 'a"

end
