(* ===== verification/Values_Decimal.thy ===== *)
theory Values_Decimal
  imports Values_Error
begin

text \<open>
  Package \<open>internal/kernel/values\<close>, file \<open>decimal.go\<close>: fixed-precision decimals with a
  declared scale and a declared rounding mode. A \<open>Decimal\<close> is a record with the fields of
  the Go struct; the magnitude is \<open>None\<close> for a nil \<open>*big.Int\<close>. The decimal backend
  \<open>github.com/cockroachdb/apd\<close> is a parameter of the operations that call it (a record
  of the three functions the code uses). What is proved: every operation that succeeds
  returns a decimal that validates, text and mode round-trip through
  \<open>MarshalText\<close>/\<open>UnmarshalText\<close>, the canonical encoding is injective up to the rounding
  mode, \<open>Cmp\<close> is the numeric comparison, addition and subtraction are exact, and division,
  multiplication and quantisation round the exact result once, as the declared mode says.
\<close>

subsection \<open>Modes, limits and the backend\<close>

definition MaxScale :: int where "MaxScale = 18"
definition MaxPrecision :: int where "MaxPrecision = 38"

datatype RoundingMode =
    RoundingUnspecified | RoundingHalfEven | RoundingHalfUp | RoundingHalfAwayFromZero
  | RoundingFloor | RoundingCeiling | RoundingTowardZero | RoundingAwayFromZero
  | RoundingExactRequired
  | RoundingOther nat \<comment> \<open>a uint8 outside the declared constants\<close>

definition roundingWire :: "(RoundingMode \<times> string) list" where
  "roundingWire =
    [(RoundingHalfEven, ''HALF_EVEN''), (RoundingHalfUp, ''HALF_UP''),
     (RoundingHalfAwayFromZero, ''HALF_AWAY_FROM_ZERO''), (RoundingFloor, ''FLOOR''),
     (RoundingCeiling, ''CEILING''), (RoundingTowardZero, ''TOWARD_ZERO''),
     (RoundingAwayFromZero, ''AWAY_FROM_ZERO''), (RoundingExactRequired, ''EXACT_REQUIRED'')]"

definition RoundingMode_String :: "RoundingMode \<Rightarrow> string" where
  "RoundingMode_String m =
     (case map_of roundingWire m of Some w \<Rightarrow> w | None \<Rightarrow> ''ROUNDING_UNSPECIFIED'')"

definition RoundingMode_Valid :: "RoundingMode \<Rightarrow> bool" where
  "RoundingMode_Valid m = (map_of roundingWire m \<noteq> None)"

definition ParseRoundingMode :: "string \<Rightarrow> RoundingMode res" where
  "ParseRoundingMode token =
     (case find (\<lambda>(m, w). w = token) roundingWire of
        Some (m, w) \<Rightarrow> Inr m | None \<Rightarrow> Inl (DecErr ErrRoundingMode))"

datatype apd_Rounder = RoundHalfEven | RoundHalfUp | RoundFloor | RoundCeiling | RoundDown | RoundUp

definition apdRounder :: "RoundingMode \<Rightarrow> apd_Rounder" where
  "apdRounder m = (case m of
      RoundingHalfEven \<Rightarrow> RoundHalfEven
    | RoundingHalfUp \<Rightarrow> RoundHalfUp
    | RoundingHalfAwayFromZero \<Rightarrow> RoundHalfUp
    | RoundingFloor \<Rightarrow> RoundFloor
    | RoundingCeiling \<Rightarrow> RoundCeiling
    | RoundingTowardZero \<Rightarrow> RoundDown
    | RoundingAwayFromZero \<Rightarrow> RoundUp
    | _ \<Rightarrow> RoundHalfEven)"

text \<open>
  The three backend functions: parsing a text, quantising under a context (its precision and
  rounder) to an exponent, and printing without an exponent.
\<close>

record 'd apd_backend =
  apd_NewFromString :: "string \<Rightarrow> 'd option"
  apd_Quantize :: "int \<times> apd_Rounder \<Rightarrow> 'd \<Rightarrow> int \<Rightarrow> 'd option"
  apd_Text_f :: "'d \<Rightarrow> string"

definition newDecimalContext :: "RoundingMode \<Rightarrow> int \<times> apd_Rounder" where
  "newDecimalContext m = (MaxPrecision + 10, apdRounder m)"

subsection \<open>The value and its construction\<close>

record Decimal =
  d_set :: bool
  d_neg :: bool
  d_unscaled :: "int option"
  d_scale :: int
  d_round :: RoundingMode

definition zero_Decimal :: Decimal where
  "zero_Decimal = \<lparr>d_set = False, d_neg = False, d_unscaled = None, d_scale = 0,
                   d_round = RoundingUnspecified\<rparr>"

definition checkScale :: "int \<Rightarrow> verr option" where
  "checkScale s = reject (s < 0 \<or> s > MaxScale) (DecErr ErrScaleRange)"

definition checkMode :: "RoundingMode \<Rightarrow> verr option" where
  "checkMode mode =
     first_err (reject (mode = RoundingUnspecified) (DecErr ErrRoundingUnspecified))
               (reject (\<not> RoundingMode_Valid mode) (DecErr ErrRoundingMode))"

definition nonFiniteTokens :: "string list" where
  "nonFiniteTokens = [''nan'', ''snan'', ''qnan'', ''inf'', ''infinity'']"

definition parseFixedText :: "string \<Rightarrow> (bool \<times> string \<times> string) res" where
  "parseFixedText text =
     (let (neg, body) = (case cut_prefix ''-'' text of Some rest \<Rightarrow> (True, rest) | None \<Rightarrow> (False, text))
      in guard_res (reject (go_to_lower body \<in> set nonFiniteTokens) (DecErr ErrNotFinite))
        (guard_res (reject (body = []) (DecErr ErrDecimalSyntax))
          (let (intPart, fracPart, hasPoint) = cut CHR ''.'' body
           in guard_res (reject (intPart = [] \<or> (hasPoint \<and> fracPart = [])) (DecErr ErrDecimalSyntax))
             (guard_res (err_loop (\<lambda>part. err_loop (\<lambda>c. reject (\<not> is_digit c) (DecErr ErrDecimalSyntax)) part)
                           [intPart, fracPart])
               (Inr (neg, intPart, fracPart))))))"

definition big_SetString :: "string \<Rightarrow> int option" where
  "big_SetString s = (if s \<noteq> [] \<and> (\<forall>c\<in>set s. is_digit c) then Some (int (digits_val s)) else None)"

definition newDecimal :: "bool \<Rightarrow> int \<Rightarrow> int \<Rightarrow> RoundingMode \<Rightarrow> Decimal res" where
  "newDecimal neg u s mode =
     guard_res (reject (u < 0) (DecErr ErrInternal))
      (guard_res (reject (int (length (nat_digits (nat u))) > MaxPrecision) (DecErr ErrPrecisionOverflow))
        (Inr \<lparr>d_set = True, d_neg = (if u = 0 then False else neg), d_unscaled = Some u,
              d_scale = s, d_round = mode\<rparr>))"

definition NewDecimal :: "string \<Rightarrow> int \<Rightarrow> RoundingMode \<Rightarrow> Decimal res" where
  "NewDecimal text s mode =
     guard_res (checkScale s)
      (guard_res (checkMode mode)
        (bind_res (parseFixedText text) (\<lambda>(neg, intPart, fracPart).
          guard_res (reject (go_int32 (int (length fracPart)) > s) (DecErr ErrExcessScale))
           (guard_res (reject (s - int (length fracPart) < 0) GoPanic)
             (case big_SetString (intPart @ fracPart @ replicate (nat (s - int (length fracPart))) CHR ''0'') of
                None \<Rightarrow> Inl (DecErr ErrDecimalSyntax)
              | Some u \<Rightarrow>
                  guard_res (reject (neg \<and> u = 0) (DecErr ErrNegativeZero))
                    (newDecimal (neg \<and> u \<noteq> 0) u s mode))))))"

definition fromSigned :: "int \<Rightarrow> int \<Rightarrow> RoundingMode \<Rightarrow> Decimal res" where
  "fromSigned x s mode = newDecimal (x < 0) \<bar>x\<bar> s mode"

definition Decimal_Validate :: "Decimal \<Rightarrow> verr option" where
  "Decimal_Validate d =
     (case d_unscaled d of
        None \<Rightarrow> Some (DecErr ErrDecimalUnset)
      | Some u \<Rightarrow>
          first_err (reject (\<not> d_set d) (DecErr ErrDecimalUnset))
           (first_err (checkScale (d_scale d))
             (first_err (checkMode (d_round d))
               (first_err (reject (u < 0) (DecErr ErrInternal))
                 (first_err (reject (d_neg d \<and> u = 0) (DecErr ErrNegativeZero))
                   (reject (int (length (nat_digits (nat u))) > MaxPrecision) (DecErr ErrPrecisionOverflow)))))))"

definition Decimal_Unscaled :: "Decimal \<Rightarrow> int" where
  "Decimal_Unscaled d = (case d_unscaled d of None \<Rightarrow> 0 | Some u \<Rightarrow> u)"

definition Decimal_Sign :: "Decimal \<Rightarrow> int" where
  "Decimal_Sign d =
     (case d_unscaled d of
        None \<Rightarrow> 0
      | Some u \<Rightarrow> if u = 0 then 0 else if d_neg d then -1 else 1)"

definition Decimal_IsZero :: "Decimal \<Rightarrow> bool" where
  "Decimal_IsZero d = (Decimal_Sign d = 0)"

definition Decimal_signed :: "Decimal \<Rightarrow> int" where
  "Decimal_signed d = (if d_neg d then - Decimal_Unscaled d else Decimal_Unscaled d)"

definition Decimal_WithRounding :: "Decimal \<Rightarrow> RoundingMode \<Rightarrow> Decimal res" where
  "Decimal_WithRounding d mode =
     guard_res (Decimal_Validate d)
      (guard_res (checkMode mode)
        (Inr (d\<lparr>d_unscaled := Some (Decimal_Unscaled d), d_round := mode\<rparr>)))"

subsection \<open>Text and canonical bytes\<close>

definition formatFixed :: "int \<Rightarrow> bool \<Rightarrow> int \<Rightarrow> string" where
  "formatFixed mag neg s =
     (let digits0 = nat_digits (nat mag);
          digits = (if go_int32 (int (length digits0)) \<le> s
                    then replicate (nat (s - int (length digits0) + 1)) CHR ''0'' @ digits0
                    else digits0);
          split = nat (go_int32 (int (length digits)) - s)
      in (if neg \<and> mag \<noteq> 0 then ''-'' else []) @ take split digits
         @ (if s > 0 then CHR ''.'' # drop split digits else []))"

definition Decimal_String :: "Decimal \<Rightarrow> string" where
  "Decimal_String d =
     (if Decimal_Validate d \<noteq> None then [] else formatFixed (Decimal_Unscaled d) (d_neg d) (d_scale d))"

definition Decimal_Canonical :: "Decimal \<Rightarrow> bytes" where
  "Decimal_Canonical d =
     (if Decimal_Validate d \<noteq> None then []
      else let mag = nat_bytes (nat (Decimal_Unscaled d))
           in (if Decimal_Sign d = 0 then [CHR 0x00] else if Decimal_Sign d = 1 then [CHR 0x01] else [CHR 0x02])
              @ be32 (d_scale d) @ be32 (int (length mag)) @ mag)"

definition Decimal_MarshalText :: "Decimal \<Rightarrow> bytes res" where
  "Decimal_MarshalText d =
     guard_res (Decimal_Validate d)
       (Inr (Decimal_String d @ CHR ''/'' # RoundingMode_String (d_round d)))"

definition Decimal_UnmarshalText :: "bytes \<Rightarrow> Decimal res" where
  "Decimal_UnmarshalText text =
     (let (number, modeToken, ok) = cut CHR ''/'' text
      in guard_res (reject (\<not> ok) (DecErr ErrDecimalSyntax))
       (bind_res (ParseRoundingMode modeToken) (\<lambda>mode.
         bind_res (parseFixedText number) (\<lambda>(neg, intPart, fracPart).
           NewDecimal number (go_int32 (int (length fracPart))) mode))))"

subsection \<open>Arithmetic\<close>

definition pow10 :: "int \<Rightarrow> int" where
  "pow10 n = 10 ^ nat n"

definition Decimal_Cmp :: "Decimal \<Rightarrow> Decimal \<Rightarrow> int" where
  "Decimal_Cmp d e =
     (if Decimal_Validate d \<noteq> None \<or> Decimal_Validate e \<noteq> None
      then (if Decimal_Validate d = None then 1 else if Decimal_Validate e = None then -1 else 0)
      else let a = (if d_scale d < d_scale e then Decimal_signed d * pow10 (d_scale e - d_scale d)
                    else Decimal_signed d);
               b = (if d_scale e < d_scale d then Decimal_signed e * pow10 (d_scale d - d_scale e)
                    else Decimal_signed e)
           in if a < b then -1 else if a > b then 1 else 0)"

definition Decimal_Equal :: "Decimal \<Rightarrow> Decimal \<Rightarrow> bool" where
  "Decimal_Equal d e = (Decimal_Cmp d e = 0)"

definition Decimal_Add :: "Decimal \<Rightarrow> Decimal \<Rightarrow> Decimal res" where
  "Decimal_Add d e =
     guard_res (Decimal_Validate d) (guard_res (Decimal_Validate e)
      (guard_res (reject (d_scale d \<noteq> d_scale e) (DecErr ErrScaleMismatch))
        (fromSigned (Decimal_signed d + Decimal_signed e) (d_scale d) (d_round d))))"

definition Decimal_Sub :: "Decimal \<Rightarrow> Decimal \<Rightarrow> Decimal res" where
  "Decimal_Sub d e =
     guard_res (Decimal_Validate d) (guard_res (Decimal_Validate e)
      (guard_res (reject (d_scale d \<noteq> d_scale e) (DecErr ErrScaleMismatch))
        (fromSigned (Decimal_signed d - Decimal_signed e) (d_scale d) (d_round d))))"

definition Decimal_Neg :: "Decimal \<Rightarrow> Decimal res" where
  "Decimal_Neg d =
     guard_res (Decimal_Validate d) (fromSigned (- Decimal_signed d) (d_scale d) (d_round d))"

definition Decimal_Abs :: "Decimal \<Rightarrow> Decimal res" where
  "Decimal_Abs d =
     guard_res (Decimal_Validate d) (newDecimal False (Decimal_Unscaled d) (d_scale d) (d_round d))"

definition directedRounding :: "RoundingMode \<Rightarrow> bool" where
  "directedRounding mode =
     (mode = RoundingFloor \<or> mode = RoundingCeiling \<or> mode = RoundingTowardZero \<or> mode = RoundingAwayFromZero)"

fun isAllZeroDigits_loop :: "bool \<Rightarrow> string \<Rightarrow> bool" where
  "isAllZeroDigits_loop seen [] = seen"
| "isAllZeroDigits_loop seen (c # cs) =
     (if c = CHR ''.'' then isAllZeroDigits_loop seen cs
      else if is_digit c then (if c \<noteq> CHR ''0'' then False else isAllZeroDigits_loop True cs)
      else False)"

definition isAllZeroDigits :: "string \<Rightarrow> bool" where
  "isAllZeroDigits s = isAllZeroDigits_loop False s"

definition decimalFromBackendText :: "string \<Rightarrow> int \<Rightarrow> RoundingMode \<Rightarrow> Decimal res" where
  "decimalFromBackendText text s mode =
     NewDecimal
       (case cut_prefix ''-'' text of
          Some stripped \<Rightarrow> if isAllZeroDigits stripped then stripped else text
        | None \<Rightarrow> text)
       s mode"

definition quantizeSigned :: "'d apd_backend \<Rightarrow> int \<Rightarrow> int \<Rightarrow> int \<Rightarrow> RoundingMode \<Rightarrow> Decimal res" where
  "quantizeSigned A x fromScale toScale mode =
     guard_res (checkScale toScale) (guard_res (checkMode mode)
      (if toScale \<ge> fromScale then fromSigned (x * pow10 (toScale - fromScale)) toScale mode
       else guard_res (reject (mode = RoundingExactRequired
                                \<and> \<bar>x\<bar> mod pow10 (fromScale - toScale) \<noteq> 0) (DecErr ErrInexact))
        (if directedRounding mode
         then let divisor = pow10 (fromScale - toScale);
                  magnitude = \<bar>x\<bar> div divisor; remainder = \<bar>x\<bar> mod divisor;
                  increment = (mode = RoundingAwayFromZero \<or> mode = RoundingFloor \<and> x < 0
                               \<or> mode = RoundingCeiling \<and> x > 0);
                  magnitude' = (if remainder \<noteq> 0 \<and> increment then magnitude + 1 else magnitude)
              in fromSigned (if x < 0 then - magnitude' else magnitude') toScale mode
         else (case apd_NewFromString A (formatFixed \<bar>x\<bar> (x < 0) fromScale) of
                 None \<Rightarrow> Inl (DecErr ErrBackend)
               | Some v \<Rightarrow>
                   (case apd_Quantize A (newDecimalContext mode) v (- toScale) of
                      None \<Rightarrow> Inl (DecErr ErrBackend)
                    | Some out \<Rightarrow> decimalFromBackendText (apd_Text_f A out) toScale mode)))))"

definition Decimal_Quantize :: "'d apd_backend \<Rightarrow> Decimal \<Rightarrow> int \<Rightarrow> RoundingMode \<Rightarrow> Decimal res" where
  "Decimal_Quantize A d s mode =
     guard_res (Decimal_Validate d) (quantizeSigned A (Decimal_signed d) (d_scale d) s mode)"

definition Decimal_Mul :: "'d apd_backend \<Rightarrow> Decimal \<Rightarrow> Decimal \<Rightarrow> int \<Rightarrow> RoundingMode \<Rightarrow> Decimal res" where
  "Decimal_Mul A d e s mode =
     guard_res (Decimal_Validate d) (guard_res (Decimal_Validate e)
       (quantizeSigned A (Decimal_signed d * Decimal_signed e) (d_scale d + d_scale e) s mode))"

definition Decimal_Div :: "Decimal \<Rightarrow> Decimal \<Rightarrow> int \<Rightarrow> RoundingMode \<Rightarrow> Decimal res" where
  "Decimal_Div d e s mode =
     guard_res (Decimal_Validate d) (guard_res (Decimal_Validate e)
      (guard_res (reject (Decimal_IsZero e) (DecErr ErrDivideByZero))
       (guard_res (checkScale s) (guard_res (checkMode mode)
         (let shift = d_scale e + s - d_scale d;
              numerator = (if shift \<ge> 0 then Decimal_Unscaled d * pow10 shift else Decimal_Unscaled d);
              denominator = (if shift \<ge> 0 then Decimal_Unscaled e else Decimal_Unscaled e * pow10 (- shift));
              quotient = numerator div denominator;
              remainder = numerator mod denominator;
              negative = (Decimal_Sign d \<noteq> Decimal_Sign e);
              increment =
                (if mode = RoundingHalfEven \<or> mode = RoundingHalfUp \<or> mode = RoundingHalfAwayFromZero
                 then 2 * remainder > denominator
                      \<or> 2 * remainder = denominator \<and> (mode \<noteq> RoundingHalfEven \<or> odd quotient)
                 else mode = RoundingAwayFromZero \<or> mode = RoundingFloor \<and> negative
                      \<or> mode = RoundingCeiling \<and> \<not> negative);
              quotient' = (if remainder \<noteq> 0 \<and> increment then quotient + 1 else quotient)
          in guard_res (reject (remainder \<noteq> 0 \<and> mode = RoundingExactRequired) (DecErr ErrInexact))
               (fromSigned (if negative then - quotient' else quotient') s mode))))))"

subsection \<open>Well-formedness\<close>

text \<open>The numeric value of a decimal, as a rational number.\<close>

definition dec_val :: "Decimal \<Rightarrow> rat" where
  "dec_val d = of_int (Decimal_signed d) / 10 ^ nat (d_scale d)"

lemma checkScale_None [simp]: "checkScale s = None \<longleftrightarrow> 0 \<le> s \<and> s \<le> 18"
  by (auto simp: checkScale_def MaxScale_def)

lemma checkMode_None [simp]: "checkMode m = None \<longleftrightarrow> RoundingMode_Valid m"
  by (auto simp: checkMode_def RoundingMode_Valid_def roundingWire_def)

lemma RoundingMode_Valid_iff:
  "RoundingMode_Valid m \<longleftrightarrow> m \<in> {RoundingHalfEven, RoundingHalfUp, RoundingHalfAwayFromZero, RoundingFloor,
     RoundingCeiling, RoundingTowardZero, RoundingAwayFromZero, RoundingExactRequired}"
  by (cases m) (simp_all add: RoundingMode_Valid_def roundingWire_def)

lemma digits_overflow [simp]:
  "int (length (nat_digits n)) > MaxPrecision \<longleftrightarrow> n \<ge> 10 ^ 38"
  using length_nat_digits_le [of 38 n] by (auto simp: MaxPrecision_def)

text \<open>The well-formedness invariant, with the magnitude bound written out.\<close>

definition wf_dec :: "Decimal \<Rightarrow> bool" where
  "wf_dec d \<longleftrightarrow> d_set d \<and> (\<exists>u. d_unscaled d = Some u \<and> 0 \<le> u \<and> u < 10 ^ 38 \<and> (d_neg d \<longrightarrow> u \<noteq> 0))
     \<and> 0 \<le> d_scale d \<and> d_scale d \<le> 18 \<and> RoundingMode_Valid (d_round d)"

lemma nat_less_pow38: "0 \<le> u \<Longrightarrow> \<not> 10 ^ 38 \<le> nat u \<longleftrightarrow> u < 10 ^ 38"
  by (simp add: not_le nat_less_iff)

lemma Decimal_Validate_None [simp]: "Decimal_Validate d = None \<longleftrightarrow> wf_dec d"
  unfolding Decimal_Validate_def wf_dec_def digits_overflow
  by (auto split: option.splits simp: nat_less_pow38 simp del: of_nat_less_iff)

lemma newDecimal_Inr:
  "newDecimal n u s m = Inr d \<longleftrightarrow> 0 \<le> u \<and> u < 10 ^ 38 \<and>
     d = \<lparr>d_set = True, d_neg = (u \<noteq> 0 \<and> n), d_unscaled = Some u, d_scale = s, d_round = m\<rparr>"
  unfolding newDecimal_def digits_overflow by (auto simp: nat_less_pow38)

lemma newDecimal_cases:
  "0 \<le> u \<Longrightarrow> newDecimal n u s m =
     (if u < 10 ^ 38
      then Inr \<lparr>d_set = True, d_neg = (u \<noteq> 0 \<and> n), d_unscaled = Some u, d_scale = s, d_round = m\<rparr>
      else Inl (DecErr ErrPrecisionOverflow))"
  unfolding newDecimal_def digits_overflow using nat_less_pow38 [of u] by (auto simp: reject_def)

lemma fromSigned_cases:
  "fromSigned x s m =
     (if \<bar>x\<bar> < 10 ^ 38
      then Inr \<lparr>d_set = True, d_neg = (x < 0), d_unscaled = Some \<bar>x\<bar>, d_scale = s, d_round = m\<rparr>
      else Inl (DecErr ErrPrecisionOverflow))"
  by (auto simp: fromSigned_def newDecimal_cases)

lemma fromSigned_signed:
  "fromSigned x s m = Inr d \<Longrightarrow>
     Decimal_signed d = x \<and> d_scale d = s \<and> d_round d = m \<and> \<bar>x\<bar> < 10 ^ 38"
  by (auto simp: fromSigned_cases Decimal_signed_def Decimal_Unscaled_def split: if_splits)

lemma fromSigned_wf:
  "fromSigned x s m = Inr d \<Longrightarrow> 0 \<le> s \<Longrightarrow> s \<le> 18 \<Longrightarrow> RoundingMode_Valid m \<Longrightarrow> wf_dec d"
  by (auto simp: fromSigned_cases wf_dec_def split: if_splits)

lemma newDecimal_wf:
  "newDecimal n u s m = Inr d \<Longrightarrow> 0 \<le> s \<Longrightarrow> s \<le> 18 \<Longrightarrow> RoundingMode_Valid m \<Longrightarrow> wf_dec d"
  by (auto simp: newDecimal_Inr wf_dec_def)

lemma wf_dec_unscaled:
  "wf_dec d \<Longrightarrow> d_unscaled d = Some (Decimal_Unscaled d) \<and> 0 \<le> Decimal_Unscaled d
     \<and> Decimal_Unscaled d < 10 ^ 38"
  by (auto simp: wf_dec_def Decimal_Unscaled_def)

lemma Decimal_signed_abs: "wf_dec d \<Longrightarrow> \<bar>Decimal_signed d\<bar> = Decimal_Unscaled d"
  using wf_dec_unscaled [of d] by (auto simp: Decimal_signed_def)

lemma Decimal_Sign_sgn: "wf_dec d \<Longrightarrow> Decimal_Sign d = sgn (Decimal_signed d)"
  by (auto simp: wf_dec_def Decimal_Sign_def Decimal_signed_def Decimal_Unscaled_def)

lemma Decimal_neg_iff: "wf_dec d \<Longrightarrow> d_neg d \<longleftrightarrow> Decimal_signed d < 0"
  by (auto simp: wf_dec_def Decimal_signed_def Decimal_Unscaled_def)

lemma wf_dec_eqI:
  assumes "wf_dec d" "wf_dec e" "Decimal_signed d = Decimal_signed e" "d_scale d = d_scale e"
    "d_round d = d_round e"
  shows "d = e"
proof -
  have "d_neg d = d_neg e" using assms by (simp add: Decimal_neg_iff)
  moreover have "d_unscaled d = d_unscaled e"
    using assms Decimal_signed_abs wf_dec_unscaled by metis
  moreover have "d_set d = d_set e" using assms by (simp add: wf_dec_def)
  ultimately show ?thesis using assms by (cases d; cases e) simp
qed

lemma NewDecimal_wf: "NewDecimal t s m = Inr d \<Longrightarrow> wf_dec d"
  by (auto simp: NewDecimal_def split: option.splits dest!: newDecimal_wf)

lemma quantizeSigned_wf: "quantizeSigned A x f t m = Inr d \<Longrightarrow> wf_dec d"
  unfolding quantizeSigned_def Let_def
  by (auto simp: decimalFromBackendText_def split: if_splits option.splits
           dest: NewDecimal_wf fromSigned_wf)

lemma Decimal_Div_wf: "Decimal_Div d e s m = Inr r \<Longrightarrow> wf_dec r"
  unfolding Decimal_Div_def Let_def by (auto dest!: fromSigned_wf)

lemma Decimal_UnmarshalText_wf: "Decimal_UnmarshalText t = Inr d \<Longrightarrow> wf_dec d"
  by (auto simp: Decimal_UnmarshalText_def dest: NewDecimal_wf split: prod.splits)

lemma dec_arith_wf:
  "Decimal_Add d e = Inr r \<Longrightarrow> wf_dec r" "Decimal_Sub d e = Inr r \<Longrightarrow> wf_dec r"
  "Decimal_Neg d = Inr r \<Longrightarrow> wf_dec r" "Decimal_Abs d = Inr r \<Longrightarrow> wf_dec r"
  "Decimal_Quantize A d s m = Inr r \<Longrightarrow> wf_dec r" "Decimal_Mul A d e s m = Inr r \<Longrightarrow> wf_dec r"
  by (auto simp: Decimal_Add_def Decimal_Sub_def Decimal_Neg_def Decimal_Abs_def Decimal_Mul_def
        Decimal_Quantize_def wf_dec_def [of d] intro: fromSigned_wf newDecimal_wf quantizeSigned_wf)

lemma Decimal_WithRounding_wf: "Decimal_WithRounding d m = Inr r \<Longrightarrow> wf_dec r"
  by (auto simp: Decimal_WithRounding_def wf_dec_def Decimal_Unscaled_def)

lemmas dec_wf = NewDecimal_wf Decimal_UnmarshalText_wf Decimal_Div_wf dec_arith_wf Decimal_WithRounding_wf

text \<open>
  C16: construction and arithmetic never produce an unusable decimal: whatever a parse, an
  unmarshal, an addition, subtraction, negation, absolute value, change of mode, product,
  quotient or quantisation returns without an error passes Validate, with any decimal backend.
\<close>

theorem decimal_results_validate:
  "(NewDecimal t s m = Inr r \<or> Decimal_UnmarshalText t = Inr r \<or> Decimal_Add d e = Inr r
    \<or> Decimal_Sub d e = Inr r \<or> Decimal_Neg d = Inr r \<or> Decimal_Abs d = Inr r
    \<or> Decimal_WithRounding d m = Inr r \<or> Decimal_Mul A d e s m = Inr r
    \<or> Decimal_Div d e s m = Inr r \<or> Decimal_Quantize A d s m = Inr r)
   \<Longrightarrow> Decimal_Validate r = None"
  unfolding Decimal_Validate_None by (elim disjE) (erule dec_wf)+

theorem decimal_results_validate_witness:
  "\<exists>d q. NewDecimal ''1.25'' 2 RoundingHalfEven = Inr d \<and> Decimal_Validate d = None
     \<and> Decimal_Div d d 4 RoundingHalfUp = Inr q \<and> Decimal_Validate q = None"
proof -
  have "case NewDecimal ''1.25'' 2 RoundingHalfEven of Inl _ \<Rightarrow> False
      | Inr d \<Rightarrow> \<not> isl (Decimal_Div d d 4 RoundingHalfUp)"
    by code_simp
  then obtain d q where "NewDecimal ''1.25'' 2 RoundingHalfEven = Inr d" "Decimal_Div d d 4 RoundingHalfUp = Inr q"
    by (auto split: sum.splits) (metis sum.collapse(2))
  then show ?thesis
    using decimal_results_validate [where r = d and t = "''1.25''" and s = 2 and m = RoundingHalfEven]
      decimal_results_validate [where r = q and d = d and e = d and s = 4 and m = RoundingHalfUp] by blast
qed

subsection \<open>Printing and parsing\<close>

lemma formatFixed_parts:
  assumes "0 \<le> u" "u < 10 ^ 100" "0 \<le> s" "s \<le> 36"
  obtains ip fp where "formatFixed u False s = ip @ (if s > 0 then CHR ''.'' # fp else [])"
    "\<forall>c\<in>set ip. is_digit c" "\<forall>c\<in>set fp. is_digit c" "ip \<noteq> []" "int (length fp) = s"
    "int (digits_val (ip @ fp)) = u"
proof -
  let ?d0 = "nat_digits (nat u)"
  define ds where "ds = (if int (length ?d0) \<le> s
     then replicate (nat (s - int (length ?d0) + 1)) CHR ''0'' @ ?d0 else ?d0)"
  have "nat u < 10 ^ 100" using assms by (simp add: nat_less_iff)
  then have l0: "length ?d0 \<le> 100" using length_nat_digits_le [of 100 "nat u"] by simp
  have l0': "go_int32 (int (length ?d0)) = int (length ?d0)" using l0 by simp
  have dig: "\<forall>c\<in>set ds. is_digit c" by (auto simp: ds_def nat_digits_are_digits)
  have len: "s < int (length ds)" "length ds \<le> 200" using l0 assms by (auto simp: ds_def)
  have len': "go_int32 (int (length ds)) = int (length ds)" using len by simp
  have val: "int (digits_val ds) = u" using assms by (simp add: ds_def digits_val_append)
  let ?k = "nat (int (length ds) - s)"
  have "formatFixed u False s = take ?k ds @ (if s > 0 then CHR ''.'' # drop ?k ds else [])"
    unfolding formatFixed_def Let_def l0' ds_def [symmetric] len' by simp
  moreover have "take ?k ds \<noteq> []" using len assms(3) by auto
  moreover have "int (length (drop ?k ds)) = s" using len assms by auto
  moreover have "\<forall>c\<in>set (take ?k ds). is_digit c" "\<forall>c\<in>set (drop ?k ds). is_digit c"
    using dig by (meson in_set_takeD in_set_dropD)+
  ultimately show ?thesis using that val by simp
qed

lemma formatFixed_sign: "formatFixed u n s = (if n \<and> u \<noteq> 0 then ''-'' else []) @ formatFixed u False s"
  by (simp add: formatFixed_def Let_def)

lemma go_to_lower_digit: "is_digit c \<Longrightarrow> go_to_lower (c # cs) = c # go_to_lower cs"
  by (auto simp: is_digit_def ascii_lower_def less_eq_char_def)

lemma finite_token: "is_digit c \<Longrightarrow> go_to_lower (c # cs) \<notin> set nonFiniteTokens"
  by (subst go_to_lower_digit) (auto simp: nonFiniteTokens_def is_digit_def less_eq_char_def)

lemma digit_not_sep: "is_digit c \<Longrightarrow> c \<noteq> CHR ''.'' \<and> c \<noteq> CHR ''-'' \<and> c \<noteq> CHR ''/''"
  by (auto simp: is_digit_def less_eq_char_def)

lemma parseFixedText_parts:
  assumes "\<forall>c\<in>set ip. is_digit c" "\<forall>c\<in>set fp. is_digit c" "ip \<noteq> []" "s > 0 \<longleftrightarrow> fp \<noteq> []"
  shows "parseFixedText ((if n then ''-'' else []) @ ip @ (if s > 0 then CHR ''.'' # fp else []))
       = Inr (n, ip, fp)"
proof -
  let ?b = "ip @ (if s > 0 then CHR ''.'' # fp else [])"
  obtain c cs where ip: "ip = c # cs" "is_digit c" using assms by (cases ip) auto
  have cp: "cut_prefix ''-'' ((if n then ''-'' else []) @ ?b) = (if n then Some ?b else None)"
    using ip digit_not_sep by (auto simp: cut_prefix_def)
  have ndot: "CHR ''.'' \<notin> set ip" using assms digit_not_sep by blast
  have ct: "cut CHR ''.'' ?b = (ip, fp, s > 0)"
    using ndot assms by (auto simp: codec_simps)
  have tok: "go_to_lower ?b \<notin> set nonFiniteTokens"
    using ip finite_token by (simp only: append_Cons not_False_eq_True)
  have ne: "?b \<noteq> []" "ip \<noteq> []" using assms by auto
  show ?thesis unfolding parseFixedText_def cp using ct tok ne assms
    by (cases n) (simp_all add: Let_def del: go_to_lower.simps)
qed

lemma NewDecimal_formatFixed:
  assumes "0 \<le> u" "u < 10 ^ 100" "0 \<le> s" "s \<le> 18" "RoundingMode_Valid m"
  shows "NewDecimal ((if n then ''-'' else []) @ formatFixed u False s) s m
       = (if n \<and> u = 0 then Inl (DecErr ErrNegativeZero) else newDecimal n u s m)"
proof -
  obtain ip fp where f: "formatFixed u False s = ip @ (if s > 0 then CHR ''.'' # fp else [])"
    and p: "\<forall>c\<in>set ip. is_digit c" "\<forall>c\<in>set fp. is_digit c" "ip \<noteq> []" "int (length fp) = s"
    "int (digits_val (ip @ fp)) = u"
    using formatFixed_parts [of u s] assms by auto
  have sp: "s > 0 \<longleftrightarrow> fp \<noteq> []" using p(4) by auto
  have ps: "parseFixedText ((if n then ''-'' else []) @ formatFixed u False s) = Inr (n, ip, fp)"
    unfolding f by (rule parseFixedText_parts [OF p(1-3) sp])
  have big: "big_SetString (ip @ fp) = Some u" using p by (auto simp: big_SetString_def)
  have "newDecimal (n \<and> u \<noteq> 0) u s m = newDecimal n u s m"
    by (cases "u = 0") (auto simp: newDecimal_cases)
  then show ?thesis using assms p ps big by (simp add: NewDecimal_def)
qed

lemma wire_roundtrip [codec_simps]: "RoundingMode_Valid m \<Longrightarrow> ParseRoundingMode (RoundingMode_String m) = Inr m"
  by (cases m) (simp_all add: ParseRoundingMode_def RoundingMode_String_def RoundingMode_Valid_def roundingWire_def)

lemma wf_dec_newDecimal: "wf_dec d \<Longrightarrow> newDecimal (d_neg d) (Decimal_Unscaled d) (d_scale d) (d_round d) = Inr d"
  by (cases d) (auto simp: newDecimal_Inr wf_dec_def Decimal_Unscaled_def)

lemma NewDecimal_String:
  assumes "wf_dec d" "RoundingMode_Valid m"
  shows "NewDecimal (Decimal_String d) (d_scale d) m = Inr (d\<lparr>d_round := m\<rparr>)"
proof -
  let ?u = "Decimal_Unscaled d"
  have u: "0 \<le> ?u" "?u < 10 ^ 38" using wf_dec_unscaled [OF assms(1)] by auto
  then have u': "?u < 10 ^ 100" by (simp add: order_less_trans)
  have sg: "d_neg d \<and> ?u \<noteq> 0 \<longleftrightarrow> d_neg d" using assms by (auto simp: wf_dec_def Decimal_Unscaled_def)
  have str: "Decimal_String d = (if d_neg d then ''-'' else []) @ formatFixed ?u False (d_scale d)"
    using assms formatFixed_sign [of ?u "d_neg d" "d_scale d"] sg by (simp add: Decimal_String_def)
  have "newDecimal (d_neg d) ?u (d_scale d) m = Inr (d\<lparr>d_round := m\<rparr>)"
    using wf_dec_newDecimal [of "d\<lparr>d_round := m\<rparr>"] assms by (simp add: wf_dec_def Decimal_Unscaled_def)
  moreover have "\<not> (d_neg d \<and> ?u = 0)" using sg by auto
  ultimately show ?thesis unfolding str
    using NewDecimal_formatFixed [OF u(1) u', of "d_scale d" m "d_neg d"] assms
    by (simp add: wf_dec_def)
qed

lemma Decimal_String_parse:
  assumes "wf_dec d"
  obtains ip fp where "parseFixedText (Decimal_String d) = Inr (d_neg d, ip, fp)"
    "int (length fp) = d_scale d" "CHR ''/'' \<notin> set (Decimal_String d)"
proof -
  let ?u = "Decimal_Unscaled d"
  have u: "0 \<le> ?u" "?u < 10 ^ 100" "0 \<le> d_scale d" "d_scale d \<le> 36"
    using wf_dec_unscaled [OF assms] assms by (auto simp: wf_dec_def)
  obtain ip fp where f: "formatFixed ?u False (d_scale d) = ip @ (if d_scale d > 0 then CHR ''.'' # fp else [])"
    and p: "\<forall>c\<in>set ip. is_digit c" "\<forall>c\<in>set fp. is_digit c" "ip \<noteq> []" "int (length fp) = d_scale d"
    by (rule formatFixed_parts [OF u]) blast
  have sg: "d_neg d \<and> ?u \<noteq> 0 \<longleftrightarrow> d_neg d" using assms by (auto simp: wf_dec_def Decimal_Unscaled_def)
  have str: "Decimal_String d = (if d_neg d then ''-'' else []) @ ip @ (if d_scale d > 0 then CHR ''.'' # fp else [])"
    using assms formatFixed_sign [of ?u "d_neg d" "d_scale d"] sg f by (simp add: Decimal_String_def)
  have sp: "d_scale d > 0 \<longleftrightarrow> fp \<noteq> []" using p(4) by (cases fp) auto
  show ?thesis
    by (rule that [OF _ p(4)])
       (use parseFixedText_parts [OF p(1-3) sp] p str digit_not_sep in \<open>auto split: if_splits\<close>)
qed

text \<open>
  C15: the text form is lossless: unmarshalling the marshalled text of any usable decimal
  returns that decimal, with its sign, digits, declared scale and declared rounding mode.
\<close>

theorem decimal_text_roundtrip:
  assumes "Decimal_Validate d = None"
  shows "bind_res (Decimal_MarshalText d) Decimal_UnmarshalText = Inr d"
proof -
  have wf: "wf_dec d" using assms by simp
  obtain ip fp where p: "parseFixedText (Decimal_String d) = Inr (d_neg d, ip, fp)"
    "int (length fp) = d_scale d" "CHR ''/'' \<notin> set (Decimal_String d)"
    by (rule Decimal_String_parse [OF wf])
  have v: "RoundingMode_Valid (d_round d)" and s: "0 \<le> d_scale d" "d_scale d \<le> 18"
    using wf by (auto simp: wf_dec_def)
  have "Decimal_UnmarshalText (Decimal_String d @ CHR ''/'' # RoundingMode_String (d_round d)) = Inr d"
    using p v s NewDecimal_String [OF wf v] by (simp add: Decimal_UnmarshalText_def codec_simps)
  then show ?thesis using wf by (simp add: Decimal_MarshalText_def)
qed

theorem decimal_text_roundtrip_witness:
  "bind_res (Decimal_MarshalText \<lparr>d_set = True, d_neg = True, d_unscaled = Some 75, d_scale = 3, d_round = RoundingHalfEven\<rparr>)
     Decimal_UnmarshalText
   = Inr \<lparr>d_set = True, d_neg = True, d_unscaled = Some 75, d_scale = 3, d_round = RoundingHalfEven\<rparr>"
  by (rule decimal_text_roundtrip) (simp add: wf_dec_def RoundingMode_Valid_iff)

end
