(* ===== verification/Values_Rounding.thy ===== *)
theory Values_Rounding
  imports Values_Decimal
begin

text \<open>
  The arithmetic of \<open>decimal.go\<close> against a reference that knows only rational numbers:
  what each rounding mode promises, and that division, multiplication and quantisation round
  the exact result once; then exact addition, the numeric order and the injectivity of the
  canonical encoding. \<open>ref_apd\<close> is a concrete decimal backend that meets the law the code
  relies on.
\<close>

subsection \<open>Rounding\<close>

text \<open>
  What a rounding mode promises about the integer \<open>k\<close> chosen for the exact value \<open>x\<close>.
  This is the reference: it speaks of floors, ceilings and distances of rational numbers and
  not of quotients and remainders.
\<close>

definition rounds :: "RoundingMode \<Rightarrow> rat \<Rightarrow> int \<Rightarrow> bool" where
  "rounds mode x k \<longleftrightarrow> (case mode of
      RoundingFloor \<Rightarrow> k = \<lfloor>x\<rfloor>
    | RoundingCeiling \<Rightarrow> k = \<lceil>x\<rceil>
    | RoundingTowardZero \<Rightarrow> k = (if x \<ge> 0 then \<lfloor>x\<rfloor> else \<lceil>x\<rceil>)
    | RoundingAwayFromZero \<Rightarrow> k = (if x \<ge> 0 then \<lceil>x\<rceil> else \<lfloor>x\<rfloor>)
    | RoundingHalfUp \<Rightarrow> \<bar>x - of_int k\<bar> \<le> 1/2 \<and> (\<bar>x - of_int k\<bar> = 1/2 \<longrightarrow> \<bar>x\<bar> < \<bar>of_int k\<bar>)
    | RoundingHalfAwayFromZero \<Rightarrow> \<bar>x - of_int k\<bar> \<le> 1/2 \<and> (\<bar>x - of_int k\<bar> = 1/2 \<longrightarrow> \<bar>x\<bar> < \<bar>of_int k\<bar>)
    | RoundingHalfEven \<Rightarrow> \<bar>x - of_int k\<bar> \<le> 1/2 \<and> (\<bar>x - of_int k\<bar> = 1/2 \<longrightarrow> even k)
    | RoundingExactRequired \<Rightarrow> x = of_int k
    | _ \<Rightarrow> False)"

text \<open>The integer decision \<open>Div\<close> and \<open>quantizeSigned\<close> take on a magnitude.\<close>

definition bumped :: "RoundingMode \<Rightarrow> bool \<Rightarrow> int \<Rightarrow> int \<Rightarrow> int" where
  "bumped mode negative n m =
     (if n mod m \<noteq> 0 \<and>
         (if mode = RoundingHalfEven \<or> mode = RoundingHalfUp \<or> mode = RoundingHalfAwayFromZero
          then 2 * (n mod m) > m \<or> 2 * (n mod m) = m \<and> (mode \<noteq> RoundingHalfEven \<or> odd (n div m))
          else mode = RoundingAwayFromZero \<or> mode = RoundingFloor \<and> negative
               \<or> mode = RoundingCeiling \<and> \<not> negative)
      then n div m + 1 else n div m)"

lemma rat_div_mod: "(m::int) > 0 \<Longrightarrow> (of_int n :: rat) / of_int m = of_int (n div m) + of_int (n mod m) / of_int m"
proof -
  assume "m > 0"
  moreover have "(of_int n :: rat) = of_int m * of_int (n div m) + of_int (n mod m)"
    by (metis mult_div_mod_eq of_int_add of_int_mult)
  ultimately show ?thesis by (simp add: field_simps)
qed

lemma floor_rat_div: "\<lfloor>(of_int n :: rat) / of_int m\<rfloor> = n div m"
  by (rule floor_divide_of_int_eq)

lemma ceiling_rat_div:
  "m > 0 \<Longrightarrow> \<lceil>(of_int n :: rat) / of_int m\<rceil> = (if n mod m = 0 then n div m else n div m + 1)"
proof -
  assume m: "m > 0"
  let ?f = "(of_int (n mod m) :: rat) / of_int m"
  have r: "0 \<le> n mod m" "n mod m < m" using m by auto
  have f: "0 \<le> ?f" "?f < 1" using r m by (simp_all add: field_simps)
  have pos: "n mod m \<noteq> 0 \<Longrightarrow> 0 < ?f" using r m by (simp add: order_less_le)
  have e: "(of_int n :: rat) / of_int m = of_int (n div m) + ?f" by (rule rat_div_mod [OF m])
  show ?thesis unfolding e
  proof (cases "n mod m = 0")
    case True
    then show "\<lceil>of_int (n div m) + ?f\<rceil> = (if n mod m = 0 then n div m else n div m + 1)" by simp
  next
    case False
    then have "\<lceil>of_int (n div m) + ?f\<rceil> = n div m + 1"
      using f pos by (intro ceiling_unique) auto
    with False show "\<lceil>of_int (n div m) + ?f\<rceil> = (if n mod m = 0 then n div m else n div m + 1)" by simp
  qed
qed

lemma half_bump:
  fixes neg :: bool
  assumes n: "0 \<le> n" and m: "0 < m" and mode: "mode \<in> {RoundingHalfEven, RoundingHalfUp, RoundingHalfAwayFromZero}"
  defines "x \<equiv> (of_int n :: rat) / of_int m" and "k \<equiv> bumped mode neg n m"
  shows "\<bar>x - of_int k\<bar> \<le> 1/2" and "\<bar>x - of_int k\<bar> = 1/2 \<Longrightarrow> mode \<noteq> RoundingHalfEven \<Longrightarrow> x < of_int k"
    and "\<bar>x - of_int k\<bar> = 1/2 \<Longrightarrow> mode = RoundingHalfEven \<Longrightarrow> even k" and "0 \<le> k"
proof -
  let ?q = "n div m" and ?r = "n mod m"
  define f where "f = (of_int ?r :: rat) / of_int m"
  have x: "x = of_int ?q + f" unfolding x_def f_def by (rule rat_div_mod [OF m])
  have r: "0 \<le> ?r" "?r < m" using m by auto
  have f: "0 \<le> f" "f < 1" unfolding f_def using r m by (simp_all add: field_simps)
  have gt: "2 * ?r > m \<longleftrightarrow> f > 1/2"
  proof -
    have "f > 1/2 \<longleftrightarrow> (of_int m :: rat) < of_int (2 * ?r)" using m by (simp add: f_def field_simps)
    then show ?thesis by (simp only: of_int_less_iff)
  qed
  have eq: "2 * ?r = m \<longleftrightarrow> f = 1/2"
  proof -
    have "f = 1/2 \<longleftrightarrow> (of_int m :: rat) = of_int (2 * ?r)" using m by (simp add: f_def field_simps)
    then show ?thesis by (simp only: of_int_eq_iff) auto
  qed
  have k: "k = (if f > 1/2 \<or> f = 1/2 \<and> (mode \<noteq> RoundingHalfEven \<or> odd ?q) then ?q + 1 else ?q)"
    using mode m r gt eq unfolding k_def bumped_def by auto
  have q: "0 \<le> ?q" using n m by (simp add: pos_imp_zdiv_nonneg_iff)
  show "\<bar>x - of_int k\<bar> \<le> 1/2" using x k f by (auto simp: abs_if)
  show "\<bar>x - of_int k\<bar> = 1/2 \<Longrightarrow> mode \<noteq> RoundingHalfEven \<Longrightarrow> x < of_int k"
    using x k f by (auto simp: abs_if split: if_splits)
  show "\<bar>x - of_int k\<bar> = 1/2 \<Longrightarrow> mode = RoundingHalfEven \<Longrightarrow> even k"
    using x k f by (auto simp: abs_if split: if_splits)
  show "0 \<le> k" using k q by simp
qed

lemma directed_bump:
  assumes "0 < m"
  shows "bumped RoundingFloor neg n m = (if neg then \<lceil>(of_int n :: rat) / of_int m\<rceil> else \<lfloor>(of_int n :: rat) / of_int m\<rfloor>)"
    and "bumped RoundingCeiling neg n m = (if neg then \<lfloor>(of_int n :: rat) / of_int m\<rfloor> else \<lceil>(of_int n :: rat) / of_int m\<rceil>)"
    and "bumped RoundingTowardZero neg n m = \<lfloor>(of_int n :: rat) / of_int m\<rfloor>"
    and "bumped RoundingAwayFromZero neg n m = \<lceil>(of_int n :: rat) / of_int m\<rceil>"
  using assms by (auto simp: bumped_def floor_rat_div ceiling_rat_div)

lemma bumped_rounds:
  assumes n: "0 \<le> n" and m: "0 < m" and mode: "RoundingMode_Valid mode"
    and exact: "mode = RoundingExactRequired \<Longrightarrow> n mod m = 0"
    and z: "neg \<Longrightarrow> x = - ((of_int n :: rat) / of_int m)"
    and nz: "\<not> neg \<Longrightarrow> x = (of_int n :: rat) / of_int m"
  shows "rounds mode x (if neg then - bumped mode neg n m else bumped mode neg n m)"
proof -
  let ?y = "(of_int n :: rat) / of_int m"
  have y0: "0 \<le> ?y" using n m by simp
  have y: "\<lceil>- ?y\<rceil> = - \<lfloor>?y\<rfloor>" "\<lfloor>- ?y\<rfloor> = - \<lceil>?y\<rceil>" by (simp_all add: ceiling_def)
  have zero: "- ?y \<ge> 0 \<Longrightarrow> ?y = 0" using y0 by linarith
  have half: "rounds mode x (if neg then - bumped mode neg n m else bumped mode neg n m)"
    if M: "mode \<in> {RoundingHalfEven, RoundingHalfUp, RoundingHalfAwayFromZero}"
  proof -
    note h = half_bump [OF n m, of mode neg]
    have sgn: "\<bar>x - of_int (if neg then - bumped mode neg n m else bumped mode neg n m)\<bar>
        = \<bar>?y - of_int (bumped mode neg n m)\<bar>" using z nz by (cases neg) (auto simp: abs_if)
    have "\<bar>?y\<bar> = ?y" by (rule abs_of_nonneg [OF y0])
    then have ax: "\<bar>x\<bar> = ?y" using z nz by (cases neg) (simp_all only: abs_minus_cancel if_True if_False simp_thms)
    show ?thesis using h [OF M] M sgn ax by (cases mode) (auto simp: rounds_def abs_if split: if_splits)
  qed
  show ?thesis
  proof (cases mode)
    case RoundingFloor
    then show ?thesis using z nz y m by (cases neg) (auto simp: rounds_def directed_bump)
  next
    case RoundingCeiling
    then show ?thesis using z nz y m by (cases neg) (auto simp: rounds_def directed_bump)
  next
    case RoundingTowardZero
    then show ?thesis using z nz y m y0 zero by (cases neg) (auto simp: rounds_def directed_bump)
  next
    case RoundingAwayFromZero
    then show ?thesis using z nz y m y0 zero by (cases neg) (auto simp: rounds_def directed_bump)
  next
    case RoundingExactRequired
    then have "?y = of_int (n div m)" using exact rat_div_mod [OF m, of n] by simp
    then show ?thesis using z nz RoundingExactRequired exact by (cases neg) (auto simp: rounds_def bumped_def)
  qed (use half mode in \<open>auto simp: RoundingMode_Valid_iff\<close>)
qed

subsection \<open>Division and quantisation round once\<close>

lemma pow10_pos [simp]: "0 < pow10 n"
  by (simp add: pow10_def)

lemma pow10_rat: "(of_int (pow10 n) :: rat) = 10 ^ nat n"
  by (simp add: pow10_def)

lemma quotient_scaled:
  assumes "0 \<le> a" "0 \<le> b" "0 \<le> s"
  shows "(x / 10 ^ nat a) / (y / 10 ^ nat b) * 10 ^ nat s
       = (if 0 \<le> b + s - a then x * 10 ^ nat (b + s - a) / y else (x :: rat) / (y * 10 ^ nat (a - b - s)))"
proof (cases "0 \<le> b + s - a")
  case True
  then have "nat b + nat s = nat (b + s - a) + nat a" using assms by simp
  then have "(10::rat) ^ nat b * 10 ^ nat s = 10 ^ nat (b + s - a) * 10 ^ nat a"
    by (metis power_add)
  then show ?thesis using True by (simp add: field_simps)
next
  case False
  then have "nat a = nat b + nat s + nat (a - b - s)" using assms by simp
  then have "(10::rat) ^ nat a = 10 ^ nat b * 10 ^ nat s * 10 ^ nat (a - b - s)"
    by (simp add: power_add)
  then show ?thesis using False by (simp add: field_simps)
qed

text \<open>The outcome of an operation that rounds the exact value \<open>x\<close> (in units of the result scale).\<close>

definition rounded_outcome :: "RoundingMode \<Rightarrow> int \<Rightarrow> rat \<Rightarrow> Decimal res \<Rightarrow> bool" where
  "rounded_outcome mode s x out \<longleftrightarrow> (case out of
      Inr r \<Rightarrow> wf_dec r \<and> d_scale r = s \<and> d_round r = mode \<and> rounds mode x (Decimal_signed r)
    | Inl e \<Rightarrow> e = (DecErr ErrInexact) \<and> mode = RoundingExactRequired \<and> x \<notin> \<int>
             \<or> e = (DecErr ErrPrecisionOverflow) \<and> (\<exists>k. rounds mode x k \<and> \<bar>k\<bar> \<ge> 10 ^ 38))"

lemma fromSigned_outcome:
  assumes "rounds m x k" "0 \<le> s" "s \<le> 18" "RoundingMode_Valid m"
  shows "rounded_outcome m s x (fromSigned k s m)"
  using assms fromSigned_wf [of k s m] fromSigned_signed [of k s m]
  by (auto simp: rounded_outcome_def fromSigned_cases [of k s m] split: sum.splits if_splits)

lemma rat_not_int:
  assumes "(0::int) < m" "n mod m \<noteq> 0" "x = (of_int n :: rat) / of_int m \<or> x = - ((of_int n :: rat) / of_int m)"
  shows "x \<notin> \<int>"
proof
  assume "x \<in> \<int>"
  then have "- x \<in> \<int>" by simp
  with \<open>x \<in> \<int>\<close> assms(3) have "(of_int n :: rat) / of_int m \<in> \<int>" by auto
  then obtain k where "(of_int n :: rat) / of_int m = of_int k" by (auto elim: Ints_cases)
  then have "(of_int n :: rat) = of_int (k * m)" using assms(1) by (simp add: field_simps)
  then have "n = k * m" by (simp only: of_int_eq_iff)
  with assms(2) show False by simp
qed

text \<open>
  C1: division rounds exactly once. For usable operands, a nonzero divisor, a legal result
  scale and a declared mode, Div returns the exact quotient rounded to the result scale as the
  mode says (with that scale and mode recorded), and otherwise fails only with ErrInexact,
  under EXACT_REQUIRED when the quotient has more digits, or with ErrPrecisionOverflow, when
  the rounded result needs more than 38 digits.
\<close>

theorem div_rounds_once:
  assumes "Decimal_Validate d = None" and "Decimal_Validate e = None" and "\<not> Decimal_IsZero e"
    and "0 \<le> s" and "s \<le> 18" and "RoundingMode_Valid mode"
  shows "rounded_outcome mode s (dec_val d / dec_val e * 10 ^ nat s) (Decimal_Div d e s mode)"
proof -
  define shift where "shift = d_scale e + s - d_scale d"
  define N where "N = (if shift \<ge> 0 then Decimal_Unscaled d * pow10 shift else Decimal_Unscaled d)"
  define M where "M = (if shift \<ge> 0 then Decimal_Unscaled e else Decimal_Unscaled e * pow10 (- shift))"
  define neg where "neg = (Decimal_Sign d \<noteq> Decimal_Sign e)"
  define x where "x = dec_val d / dec_val e * 10 ^ nat s"
  have wf: "wf_dec d" "wf_dec e" using assms by auto
  have e0: "0 < Decimal_Unscaled e" and d0: "0 \<le> Decimal_Unscaled d"
    using wf wf_dec_unscaled [of e] wf_dec_unscaled [of d] assms(3)
    by (auto simp: Decimal_IsZero_def Decimal_Sign_def split: if_splits)
  have N0: "0 \<le> N" and M0: "0 < M" using d0 e0 by (auto simp: N_def M_def mult_nonneg_nonneg less_imp_le)
  have x1: "x = (of_int (Decimal_signed d) / 10 ^ nat (d_scale d)) / (of_int (Decimal_signed e) / 10 ^ nat (d_scale e)) * 10 ^ nat s"
    by (simp add: x_def dec_val_def)
  have y: "(of_int (Decimal_Unscaled d) / 10 ^ nat (d_scale d)) / (of_int (Decimal_Unscaled e) / 10 ^ nat (d_scale e)) * 10 ^ nat s
      = (of_int N :: rat) / of_int M"
    using quotient_scaled [of "d_scale d" "d_scale e" s] wf assms(4)
    by (simp add: N_def M_def shift_def pow10_rat wf_dec_def algebra_simps)
  have z: "neg \<Longrightarrow> x = - ((of_int N :: rat) / of_int M)" and nz: "\<not> neg \<Longrightarrow> x = (of_int N :: rat) / of_int M"
    unfolding y [symmetric] x1 neg_def using wf d0 e0
    by (auto simp: Decimal_signed_def Decimal_Sign_def wf_dec_def Decimal_Unscaled_def split: if_splits)
  have div: "Decimal_Div d e s mode =
     guard_res (reject (N mod M \<noteq> 0 \<and> mode = RoundingExactRequired) (DecErr ErrInexact))
       (fromSigned (if neg then - bumped mode neg N M else bumped mode neg N M) s mode)"
  proof -
    have c: "checkScale s = None" "checkMode mode = None" using assms by simp_all
    show ?thesis unfolding Decimal_Div_def Let_def assms(1,2) c guard_res_simps
        bumped_def N_def M_def neg_def shift_def using assms(3) by simp
  qed
  show ?thesis
  proof (cases "N mod M \<noteq> 0 \<and> mode = RoundingExactRequired")
    case True
    then have "x \<notin> \<int>" using rat_not_int [of M N x] M0 z nz by (cases neg) auto
    then show ?thesis using True div by (simp add: rounded_outcome_def x_def)
  next
    case False
    then have "rounds mode x (if neg then - bumped mode neg N M else bumped mode neg N M)"
      by (intro bumped_rounds [OF N0 M0 assms(6)]) (use z nz in auto)
    then have "rounded_outcome mode s x
        (fromSigned (if neg then - bumped mode neg N M else bumped mode neg N M) s mode)"
      using fromSigned_outcome assms(4-6) by blast
    moreover have "reject (N mod M \<noteq> 0 \<and> mode = RoundingExactRequired) (DecErr ErrInexact) = None"
      using False by simp
    ultimately show ?thesis unfolding div x_def by (simp only: guard_res_simps)
  qed
qed

theorem div_rounds_once_witness:
  "Decimal_Div \<lparr>d_set = True, d_neg = True, d_unscaled = Some 1000, d_scale = 2, d_round = RoundingHalfEven\<rparr>
               \<lparr>d_set = True, d_neg = False, d_unscaled = Some 300, d_scale = 2, d_round = RoundingHalfEven\<rparr>
               2 RoundingFloor
   = Inr \<lparr>d_set = True, d_neg = True, d_unscaled = Some 334, d_scale = 2, d_round = RoundingFloor\<rparr>
   \<and> rounded_outcome RoundingFloor 2 (- 10 / 3 * 100)
      (Decimal_Div \<lparr>d_set = True, d_neg = True, d_unscaled = Some 1000, d_scale = 2, d_round = RoundingHalfEven\<rparr>
               \<lparr>d_set = True, d_neg = False, d_unscaled = Some 300, d_scale = 2, d_round = RoundingHalfEven\<rparr>
               2 RoundingFloor)"
  (is "Decimal_Div ?d ?e _ _ = _ \<and> _")
proof -
  have wf: "wf_dec ?d" "wf_dec ?e" by (simp_all add: wf_dec_def RoundingMode_Valid_iff)
  have "rounded_outcome RoundingFloor 2 (dec_val ?d / dec_val ?e * 10 ^ nat 2) (Decimal_Div ?d ?e 2 RoundingFloor)"
    by (rule div_rounds_once) (use wf in \<open>simp_all add: Decimal_IsZero_def Decimal_Sign_def RoundingMode_Valid_iff\<close>)
  moreover have "Decimal_Div ?d ?e 2 RoundingFloor
      = Inr \<lparr>d_set = True, d_neg = True, d_unscaled = Some 334, d_scale = 2, d_round = RoundingFloor\<rparr>"
    using wf by (simp add: Decimal_Div_def Decimal_IsZero_def Decimal_Sign_def Decimal_Unscaled_def pow10_def
        RoundingMode_Valid_iff fromSigned_cases)
  ultimately show ?thesis
    by (simp add: dec_val_def Decimal_signed_def Decimal_Unscaled_def)
qed

subsection \<open>Quantisation and multiplication\<close>

lemma rounds_int: "RoundingMode_Valid m \<Longrightarrow> rounds m (of_int k) k"
  by (auto simp: rounds_def RoundingMode_Valid_iff)

text \<open>
  What the code relies on in the decimal backend, for the nearest modes and an exact value
  (General Decimal Arithmetic): \<open>NewFromString\<close> reads a plain fixed-point text,
  \<open>Quantize\<close> rounds it to the requested exponent as the context's rounder says and fails
  when the result has more digits than the context's precision of 48, and \<open>Text\<close> prints the
  result without an exponent and keeps the sign of the operand, also on a zero.
\<close>

definition apd_nearest_law :: "'d apd_backend \<Rightarrow> bool" where
  "apd_nearest_law A \<longleftrightarrow> (\<forall>x f t mode k.
     0 \<le> t \<and> t < f \<and> f \<le> 36 \<and> \<bar>x\<bar> < 10 ^ 76
     \<and> mode \<in> {RoundingHalfEven, RoundingHalfUp, RoundingHalfAwayFromZero, RoundingExactRequired}
     \<and> rounds (if mode = RoundingExactRequired then RoundingHalfEven else mode)
          (of_int x / 10 ^ nat (f - t)) k
     \<longrightarrow> (\<exists>v. apd_NewFromString A (formatFixed \<bar>x\<bar> (x < 0) f) = Some v \<and>
           (if \<bar>k\<bar> < 10 ^ 48
            then (\<exists>out. apd_Quantize A (newDecimalContext mode) v (- t) = Some out \<and>
                   apd_Text_f A out = (if x < 0 then ''-'' else []) @ formatFixed \<bar>k\<bar> False t)
            else apd_Quantize A (newDecimalContext mode) v (- t) = None)))"

lemma allZero_loop:
  "\<forall>c\<in>set s. is_digit c \<or> c = CHR ''.'' \<Longrightarrow>
   isAllZeroDigits_loop seen s \<longleftrightarrow>
     (\<forall>c\<in>set s. c = CHR ''.'' \<or> c = CHR ''0'') \<and> (seen \<or> CHR ''0'' \<in> set s)"
  by (induction seen s rule: isAllZeroDigits_loop.induct) auto

lemma digits_val_eq_0: "\<forall>c\<in>set s. is_digit c \<Longrightarrow> digits_val s = 0 \<longleftrightarrow> (\<forall>c\<in>set s. c = CHR ''0'')"
proof (induction s rule: rev_induct)
  case Nil
  then show ?case by simp
next
  case (snoc c s)
  then have "is_digit c" by simp
  then have c: "digit_val c = 0 \<longleftrightarrow> c = CHR ''0''" by (metis digit_char_val digit_char_0 digit_val_0)
  have "digits_val s = 0 \<longleftrightarrow> (\<forall>c\<in>set s. c = CHR ''0'')" using snoc by simp
  then show ?case using c by auto
qed

lemma zero_chars:
  "\<forall>c\<in>A. c \<noteq> D \<Longrightarrow> A \<noteq> {} \<Longrightarrow> B \<subseteq> {D} \<Longrightarrow>
   (\<forall>c\<in>A \<union> B. c = D \<or> c = Z) \<and> Z \<in> A \<union> B \<longleftrightarrow> (\<forall>c\<in>A. c = Z)"
  by (intro iffI conjI ballI) (auto simp: subset_singleton_iff)

lemma isAllZeroDigits_format:
  assumes "0 \<le> u" "u < 10 ^ 100" "0 \<le> s" "s \<le> 36"
  shows "isAllZeroDigits (formatFixed u False s) \<longleftrightarrow> u = 0"
proof -
  obtain ip fp where f: "formatFixed u False s = ip @ (if s > 0 then CHR ''.'' # fp else [])"
    and p: "\<forall>c\<in>set ip. is_digit c" "\<forall>c\<in>set fp. is_digit c" "ip \<noteq> []" "int (length fp) = s"
    "int (digits_val (ip @ fp)) = u"
    by (rule formatFixed_parts [OF assms])
  have "u = 0 \<longleftrightarrow> digits_val (ip @ fp) = 0" using p(5) by auto
  also have "\<dots> \<longleftrightarrow> (\<forall>c\<in>set (ip @ fp). c = CHR ''0'')" using p by (intro digits_val_eq_0) auto
  finally have z: "u = 0 \<longleftrightarrow> (\<forall>c\<in>set ip \<union> set fp. c = CHR ''0'')" by simp
  have fe: "\<not> 0 < s \<Longrightarrow> fp = []" using p(4) by (cases fp) auto
  have "isAllZeroDigits (formatFixed u False s) \<longleftrightarrow>
      (\<forall>c\<in>set (formatFixed u False s). c = CHR ''.'' \<or> c = CHR ''0'') \<and> CHR ''0'' \<in> set (formatFixed u False s)"
    unfolding isAllZeroDigits_def by (subst allZero_loop) (use f p in \<open>auto split: if_splits\<close>)
  also have "\<dots> \<longleftrightarrow> (\<forall>c\<in>set ip \<union> set fp. c = CHR ''0'')"
  proof -
    have nd: "\<forall>c\<in>set ip \<union> set fp. c \<noteq> CHR ''.''" using p digit_not_sep by blast
    have st: "set (formatFixed u False s) = set ip \<union> set fp \<union> (if s > 0 then {CHR ''.''} else {})"
      using f fe by (cases "0 < s") auto
    obtain c where c: "c \<in> set ip" using p(3) by (cases ip) auto
    show ?thesis unfolding st by (rule zero_chars [OF nd]) (use c in auto)
  qed
  finally show ?thesis using z by simp
qed

lemma decimalFromBackendText_format:
  assumes "\<bar>k\<bar> < 10 ^ 48" "0 \<le> t" "t \<le> 18" "RoundingMode_Valid m" "n \<Longrightarrow> k \<le> 0" "\<not> n \<Longrightarrow> 0 \<le> k"
  shows "decimalFromBackendText ((if n then ''-'' else []) @ formatFixed \<bar>k\<bar> False t) t m = fromSigned k t m"
proof -
  have b: "\<bar>k\<bar> < 10 ^ 100" using assms(1) by simp
  let ?f = "formatFixed \<bar>k\<bar> False t"
  have z: "isAllZeroDigits ?f \<longleftrightarrow> k = 0" using isAllZeroDigits_format [of "\<bar>k\<bar>" t] b assms by simp
  obtain c cs where fc: "?f = c # cs" "is_digit c"
  proof -
    obtain ip fp where "?f = ip @ (if t > 0 then CHR ''.'' # fp else [])"
      "\<forall>c\<in>set ip. is_digit c" "ip \<noteq> []"
      by (rule formatFixed_parts [OF abs_ge_zero b assms(2), of thesis]) (use assms(3) in auto)
    then show ?thesis using that by (cases ip) auto
  qed
  have np: "cut_prefix ''-'' ?f = None" using fc digit_not_sep by (auto simp: cut_prefix_def)
  have pr: "cut_prefix ''-'' (''-'' @ ?f) = Some ?f" by (rule cut_prefix_append)
  let ?n = "n \<and> k \<noteq> 0"
  have "decimalFromBackendText ((if n then ''-'' else []) @ ?f) t m = NewDecimal ((if ?n then ''-'' else []) @ ?f) t m"
    unfolding decimalFromBackendText_def using np pr z by (cases n) auto
  also have "\<dots> = newDecimal ?n \<bar>k\<bar> t m" using NewDecimal_formatFixed [of "\<bar>k\<bar>" t m ?n] b assms by auto
  also have "?n = (k < 0)" using assms(5,6) by (cases n) auto
  also have "newDecimal (k < 0) \<bar>k\<bar> t m = fromSigned k t m" by (simp add: fromSigned_def)
  finally show ?thesis .
qed

text \<open>The outcomes of the operations that may reach the backend.\<close>

definition backend_outcome :: "RoundingMode \<Rightarrow> int \<Rightarrow> rat \<Rightarrow> Decimal res \<Rightarrow> bool" where
  "backend_outcome mode s x out \<longleftrightarrow> rounded_outcome mode s x out
     \<or> out = Inl (DecErr ErrBackend) \<and> (\<exists>k. rounds mode x k \<and> \<bar>k\<bar> \<ge> 10 ^ 48)"

lemma quantize_directed:
  assumes "directedRounding mode" "0 \<le> t" "t < f" "t \<le> 18"
  shows "quantizeSigned A x f t mode =
    fromSigned (if x < 0 then - bumped mode (x < 0) \<bar>x\<bar> (pow10 (f - t))
                else bumped mode (x < 0) \<bar>x\<bar> (pow10 (f - t))) t mode"
proof -
  have z: "\<bar>x\<bar> mod M \<noteq> 0 \<Longrightarrow> 0 < x \<longleftrightarrow> \<not> x < 0" for M by (cases "x = 0") auto
  have "mode = RoundingFloor \<or> mode = RoundingCeiling \<or> mode = RoundingTowardZero \<or> mode = RoundingAwayFromZero"
    using assms(1) by (simp add: directedRounding_def)
  then show ?thesis using assms(2-4) z [of "pow10 (f - t)"]
    by (elim disjE) (simp_all add: quantizeSigned_def bumped_def Let_def directedRounding_def
        RoundingMode_Valid_iff del: not_less cong: if_cong)
qed

lemma quantize_narrow:
  assumes "0 \<le> t" "t < f" "f \<le> 36" "t \<le> 18" "\<bar>x\<bar> < 10 ^ 76" "RoundingMode_Valid mode" "apd_nearest_law A"
  shows "backend_outcome mode t (of_int x / 10 ^ nat (f - t)) (quantizeSigned A x f t mode)"
proof -
  define M where "M = pow10 (f - t)"
  define y where "y = (of_int x :: rat) / 10 ^ nat (f - t)"
  define k where "k = (\<lambda>m. if x < 0 then - bumped m (x < 0) \<bar>x\<bar> M else bumped m (x < 0) \<bar>x\<bar> M)"
  have M: "0 < M" by (simp add: M_def)
  have yM: "x < 0 \<Longrightarrow> y = - (of_int \<bar>x\<bar> / of_int M)" "\<not> x < 0 \<Longrightarrow> y = of_int \<bar>x\<bar> / of_int M"
    by (simp_all add: y_def M_def pow10_rat)
  have rk: "rounds m y (k m)" if "RoundingMode_Valid m" "m = RoundingExactRequired \<Longrightarrow> \<bar>x\<bar> mod M = 0" for m
    unfolding k_def by (rule bumped_rounds) (use M that yM in auto)
  show ?thesis
  proof (cases "mode = RoundingExactRequired \<and> \<bar>x\<bar> mod M \<noteq> 0")
    case True
    then have "quantizeSigned A x f t mode = Inl (DecErr ErrInexact)"
      using assms by (simp add: quantizeSigned_def M_def)
    moreover have "y \<notin> \<int>" using rat_not_int [of M "\<bar>x\<bar>" y] True M yM by (cases "x < 0") auto
    ultimately show ?thesis using True by (simp add: backend_outcome_def rounded_outcome_def y_def)
  next
    case ex: False
    then have rm: "rounds mode y (k mode)" by (intro rk assms(6)) auto
    show ?thesis
    proof (cases "directedRounding mode")
      case True
      then have "quantizeSigned A x f t mode = fromSigned (k mode) t mode"
        unfolding k_def M_def by (rule quantize_directed) (use assms in auto)
      then show ?thesis using fromSigned_outcome [OF rm] assms by (simp add: backend_outcome_def y_def)
    next
      case False
      let ?m = "if mode = RoundingExactRequired then RoundingHalfEven else mode"
      have mn: "mode \<in> {RoundingHalfEven, RoundingHalfUp, RoundingHalfAwayFromZero, RoundingExactRequired}"
        using False assms(6) by (auto simp: directedRounding_def RoundingMode_Valid_iff)
      have km: "k ?m = k mode" using ex by (auto simp: k_def bumped_def)
      have "rounds ?m y (k mode)" unfolding km [symmetric]
        by (rule rk) (use mn in \<open>auto simp: RoundingMode_Valid_iff\<close>)
      then have "\<exists>v. apd_NewFromString A (formatFixed \<bar>x\<bar> (x < 0) f) = Some v \<and>
           (if \<bar>k mode\<bar> < 10 ^ 48
            then (\<exists>out. apd_Quantize A (newDecimalContext mode) v (- t) = Some out \<and>
                   apd_Text_f A out = (if x < 0 then ''-'' else []) @ formatFixed \<bar>k mode\<bar> False t)
            else apd_Quantize A (newDecimalContext mode) v (- t) = None)"
        by (intro assms(7) [unfolded apd_nearest_law_def, rule_format] conjI assms mn) (simp add: y_def)
      then obtain v where v: "apd_NewFromString A (formatFixed \<bar>x\<bar> (x < 0) f) = Some v"
        and q: "if \<bar>k mode\<bar> < 10 ^ 48
            then (\<exists>out. apd_Quantize A (newDecimalContext mode) v (- t) = Some out \<and>
                   apd_Text_f A out = (if x < 0 then ''-'' else []) @ formatFixed \<bar>k mode\<bar> False t)
            else apd_Quantize A (newDecimalContext mode) v (- t) = None"
        by blast
      have qs: "quantizeSigned A x f t mode =
          (case apd_Quantize A (newDecimalContext mode) v (- t) of
                      None \<Rightarrow> Inl (DecErr ErrBackend)
                    | Some out \<Rightarrow> decimalFromBackendText (apd_Text_f A out) t mode)"
        using assms ex False v by (simp add: quantizeSigned_def M_def)
      have b0: "0 \<le> bumped mode (x < 0) \<bar>x\<bar> M" using M by (auto simp: bumped_def pos_imp_zdiv_nonneg_iff)
      then have ks: "x < 0 \<Longrightarrow> k mode \<le> 0" "\<not> x < 0 \<Longrightarrow> 0 \<le> k mode" by (simp_all add: k_def)
      show ?thesis
      proof (cases "\<bar>k mode\<bar> < 10 ^ 48")
        case True
        with q obtain out where "apd_Quantize A (newDecimalContext mode) v (- t) = Some out"
          "apd_Text_f A out = (if x < 0 then ''-'' else []) @ formatFixed \<bar>k mode\<bar> False t" by auto
        then have "quantizeSigned A x f t mode = fromSigned (k mode) t mode"
          unfolding qs using decimalFromBackendText_format [OF True assms(1,4,6) ks] by simp
        then show ?thesis using fromSigned_outcome [OF rm] assms by (simp add: backend_outcome_def y_def)
      next
        case False
        then have "quantizeSigned A x f t mode = Inl (DecErr ErrBackend)" using q qs by simp
        then show ?thesis using rm False unfolding backend_outcome_def y_def by auto
      qed
    qed
  qed
qed

lemma quantizeSigned_outcome:
  assumes "0 \<le> f" "f \<le> 36" "0 \<le> t" "t \<le> 18" "\<bar>x\<bar> < 10 ^ 76" "RoundingMode_Valid mode" "apd_nearest_law A"
  shows "backend_outcome mode t (of_int x / 10 ^ nat f * 10 ^ nat t) (quantizeSigned A x f t mode)"
proof (cases "t \<ge> f")
  case True
  then have "nat t = nat f + nat (t - f)" using assms by simp
  then have "(of_int x / 10 ^ nat f * 10 ^ nat t :: rat) = of_int (x * pow10 (t - f))"
    by (simp add: power_add pow10_def)
  moreover have "quantizeSigned A x f t mode = fromSigned (x * pow10 (t - f)) t mode"
    using True assms by (simp add: quantizeSigned_def)
  ultimately show ?thesis unfolding backend_outcome_def
    using fromSigned_outcome [OF rounds_int] assms by metis
next
  case False
  then have "nat f = nat t + nat (f - t)" using assms by simp
  then have "(of_int x / 10 ^ nat f * 10 ^ nat t :: rat) = of_int x / 10 ^ nat (f - t)"
    by (simp add: power_add)
  then show ?thesis using quantize_narrow [of t f x mode A] False assms by simp
qed

lemma signed_bound: "wf_dec d \<Longrightarrow> \<bar>Decimal_signed d\<bar> < 10 ^ 38"
  using Decimal_signed_abs [of d] wf_dec_unscaled [of d] by simp

lemma product_bound: "wf_dec d \<Longrightarrow> wf_dec e \<Longrightarrow> \<bar>Decimal_signed d * Decimal_signed e\<bar> < 10 ^ 76"
proof -
  assume wf: "wf_dec d" "wf_dec e"
  then have "\<bar>Decimal_signed d\<bar> * \<bar>Decimal_signed e\<bar> < 10 ^ 38 * 10 ^ 38"
    by (intro mult_strict_mono' signed_bound) auto
  then show ?thesis by (simp add: abs_mult)
qed

lemma mul_outcome:
  assumes wf: "wf_dec d" "wf_dec e" and m: "0 \<le> s" "s \<le> 18" "RoundingMode_Valid mode" "apd_nearest_law A"
  shows "backend_outcome mode s (dec_val d * dec_val e * 10 ^ nat s) (Decimal_Mul A d e s mode)"
proof -
  have sc: "0 \<le> d_scale d" "0 \<le> d_scale e" "d_scale d + d_scale e \<le> 36" using wf by (auto simp: wf_dec_def)
  then have "dec_val d * dec_val e =
      of_int (Decimal_signed d * Decimal_signed e) / 10 ^ nat (d_scale d + d_scale e)"
    by (simp add: dec_val_def nat_add_distrib power_add)
  then show ?thesis
    using quantizeSigned_outcome [of "d_scale d + d_scale e" s "Decimal_signed d * Decimal_signed e" mode A]
      product_bound [OF wf] sc m wf by (simp add: Decimal_Mul_def)
qed

text \<open>
  C12: multiplication computes the exact product and rounds it once to the declared result
  scale and mode. Given the documented rounding of the decimal backend, Mul of two usable
  decimals is the product rounded as the mode says, or ErrInexact under EXACT_REQUIRED when
  digits would be lost, or an overflow error when the rounded product has more than 38 digits
  (reported by the backend itself from 49 digits on).
\<close>

theorem mul_rounds_once:
  assumes "Decimal_Validate d = None" and "Decimal_Validate e = None"
    and "0 \<le> s" and "s \<le> 18" and "RoundingMode_Valid mode" and "apd_nearest_law A"
  shows "backend_outcome mode s (dec_val d * dec_val e * 10 ^ nat s) (Decimal_Mul A d e s mode)"
  using assms by (intro mul_outcome) simp_all

text \<open>
  A concrete backend that satisfies the law: a sign, a coefficient and an exponent. It shows
  that the hypothesis on the backend is satisfiable.
\<close>

definition ref_apd :: "(bool \<times> int \<times> int) apd_backend" where
  "ref_apd = \<lparr>
     apd_NewFromString = (\<lambda>t. case parseFixedText t of
         Inl _ \<Rightarrow> None
       | Inr (n, ip, fp) \<Rightarrow> Some (n, int (digits_val (ip @ fp)), - int (length fp))),
     apd_Quantize = (\<lambda>(p, r) (n, c, e) e'.
         let k = bumped (if r = RoundHalfUp then RoundingHalfUp else RoundingHalfEven) n c (pow10 (e' - e))
         in if k < 10 ^ nat p then Some (n, k, e') else None),
     apd_Text_f = (\<lambda>(n, k, e). (if n then ''-'' else []) @ formatFixed k False (- e))\<rparr>"

lemma near_ints:
  fixes x :: rat
  assumes "\<bar>x - of_int k\<bar> \<le> 1/2" "\<bar>x - of_int j\<bar> \<le> 1/2" "k < j"
  shows "j = k + 1 \<and> x = of_int k + 1/2"
proof -
  have "(of_int j :: rat) - of_int k \<le> 1" using assms(1,2) by (auto simp: abs_if split: if_splits)
  then have "j - k \<le> 1" by (metis of_int_1 of_int_diff of_int_le_iff)
  with assms(3) have j: "j = k + 1" by simp
  with assms(1,2) show ?thesis by (auto simp: abs_if split: if_splits)
qed

lemma rounds_nearest_less:
  assumes "m \<in> {RoundingHalfEven, RoundingHalfUp, RoundingHalfAwayFromZero}" "rounds m x k" "rounds m x j"
  shows "\<not> k < j"
proof
  assume "k < j"
  moreover have "\<bar>x - of_int k\<bar> \<le> 1/2" "\<bar>x - of_int j\<bar> \<le> 1/2" using assms by (auto simp: rounds_def)
  ultimately have e: "j = k + 1" "x = of_int k + 1/2" using near_ints by blast+
  then have t: "\<bar>x - of_int k\<bar> = 1/2" "\<bar>x - of_int j\<bar> = 1/2" by simp_all
  show False
  proof (cases "m = RoundingHalfEven")
    case True
    then have "even k" "even j" using assms t by (auto simp: rounds_def)
    with e(1) show False by simp
  next
    case False
    then have "\<bar>x\<bar> < \<bar>of_int k\<bar>" "\<bar>x\<bar> < \<bar>of_int j\<bar>" using assms t by (auto simp: rounds_def)
    with e show False by (cases "0 \<le> k") (auto simp: abs_if split: if_splits)
  qed
qed

lemma rounds_nearest_unique:
  "m \<in> {RoundingHalfEven, RoundingHalfUp, RoundingHalfAwayFromZero} \<Longrightarrow> rounds m x k \<Longrightarrow> rounds m x j \<Longrightarrow> k = j"
  using rounds_nearest_less linorder_cases by metis

lemma ref_apd_parse:
  assumes "\<bar>x\<bar> < 10 ^ 76" "0 \<le> f" "f \<le> 36"
  shows "apd_NewFromString ref_apd (formatFixed \<bar>x\<bar> (x < 0) f) = Some (x < 0, \<bar>x\<bar>, - f)"
proof -
  have "\<bar>x\<bar> < 10 ^ 100" using assms(1) by simp
  then obtain ip fp where f: "formatFixed \<bar>x\<bar> False f = ip @ (if f > 0 then CHR ''.'' # fp else [])"
    and p: "\<forall>c\<in>set ip. is_digit c" "\<forall>c\<in>set fp. is_digit c" "ip \<noteq> []" "int (length fp) = f"
    "int (digits_val (ip @ fp)) = \<bar>x\<bar>"
    using formatFixed_parts [OF abs_ge_zero _ assms(2,3)] by metis
  have sp: "f > 0 \<longleftrightarrow> fp \<noteq> []" using p(4) by (cases fp) auto
  have "formatFixed \<bar>x\<bar> (x < 0) f = (if x < 0 then ''-'' else []) @ ip @ (if f > 0 then CHR ''.'' # fp else [])"
    using formatFixed_sign [of "\<bar>x\<bar>" "x < 0" f] f by auto
  then have "parseFixedText (formatFixed \<bar>x\<bar> (x < 0) f) = Inr (x < 0, ip, fp)"
    using parseFixedText_parts [OF p(1-3) sp] by simp
  then show ?thesis using p by (simp add: ref_apd_def)
qed

lemma ref_apd_law: "apd_nearest_law ref_apd"
  unfolding apd_nearest_law_def
proof (intro allI impI, elim conjE)
  fix x f t :: int and mode k
  assume a: "0 \<le> t" "t < f" "f \<le> 36" "\<bar>x\<bar> < 10 ^ 76"
    and m: "mode \<in> {RoundingHalfEven, RoundingHalfUp, RoundingHalfAwayFromZero, RoundingExactRequired}"
    and r: "rounds (if mode = RoundingExactRequired then RoundingHalfEven else mode)
          (of_int x / 10 ^ nat (f - t)) k"
  let ?m = "if apdRounder mode = RoundHalfUp then RoundingHalfUp else RoundingHalfEven"
  let ?b = "bumped ?m (x < 0) \<bar>x\<bar> (pow10 (f - t))"
  let ?y = "(of_int x :: rat) / 10 ^ nat (f - t)"
  have rm: "rounds ?m ?y k" using r m by (auto simp: rounds_def apdRounder_def)
  have "rounds ?m ?y (if x < 0 then - ?b else ?b)"
    by (rule bumped_rounds) (auto simp: RoundingMode_Valid_iff pow10_rat split: if_splits)
  then have k: "k = (if x < 0 then - ?b else ?b)" by (rule rounds_nearest_unique [OF _ rm, rotated]) auto
  have "0 \<le> ?b" by (auto simp: bumped_def pos_imp_zdiv_nonneg_iff)
  then have ak: "\<bar>k\<bar> = ?b" using k by auto
  have q: "apd_Quantize ref_apd (newDecimalContext mode) (x < 0, \<bar>x\<bar>, - f) (- t)
      = (if \<bar>k\<bar> < 10 ^ 48 then Some (x < 0, \<bar>k\<bar>, - t) else None)"
    unfolding ak by (simp add: ref_apd_def newDecimalContext_def MaxPrecision_def Let_def add.commute)
  have tx: "apd_Text_f ref_apd (x < 0, \<bar>k\<bar>, - t) = (if x < 0 then ''-'' else []) @ formatFixed \<bar>k\<bar> False t"
    by (simp add: ref_apd_def)
  have "0 \<le> f" using a by simp
  then show "\<exists>v. apd_NewFromString ref_apd (formatFixed \<bar>x\<bar> (x < 0) f) = Some v \<and>
           (if \<bar>k\<bar> < 10 ^ 48
            then (\<exists>out. apd_Quantize ref_apd (newDecimalContext mode) v (- t) = Some out \<and>
                   apd_Text_f ref_apd out = (if x < 0 then ''-'' else []) @ formatFixed \<bar>k\<bar> False t)
            else apd_Quantize ref_apd (newDecimalContext mode) v (- t) = None)"
    using ref_apd_parse [OF a(4) _ a(3)] q tx by auto
qed

theorem mul_rounds_once_witness:
  "apd_nearest_law ref_apd \<and>
   backend_outcome RoundingHalfEven 1 (5 / 4 * (1 / 2) * 10)
     (Decimal_Mul ref_apd \<lparr>d_set = True, d_neg = False, d_unscaled = Some 125, d_scale = 2, d_round = RoundingFloor\<rparr>
        \<lparr>d_set = True, d_neg = False, d_unscaled = Some 5, d_scale = 1, d_round = RoundingFloor\<rparr> 1 RoundingHalfEven)"
  (is "_ \<and> backend_outcome _ _ _ (Decimal_Mul _ ?d ?e _ _)")
proof -
  have wf: "wf_dec ?d" "wf_dec ?e" by (simp_all add: wf_dec_def RoundingMode_Valid_iff)
  have "backend_outcome RoundingHalfEven 1 (dec_val ?d * dec_val ?e * 10 ^ nat 1)
     (Decimal_Mul ref_apd ?d ?e 1 RoundingHalfEven)"
    by (rule mul_rounds_once) (use wf ref_apd_law in \<open>simp_all add: RoundingMode_Valid_iff\<close>)
  then show ?thesis using ref_apd_law by (simp add: dec_val_def Decimal_signed_def Decimal_Unscaled_def)
qed

subsection \<open>Exact addition, comparison, canonical bytes\<close>

lemma dec_val_same_scale:
  "d_scale r = d_scale d \<Longrightarrow> dec_val r = of_int (Decimal_signed r) / 10 ^ nat (d_scale d)"
  by (simp add: dec_val_def)

text \<open>
  Addition and subtraction are exact. For usable operands of the same scale, Add (Sub)
  returns a decimal of that scale and of the receiver's mode whose value is the sum
  (difference), unless the sum needs more than 38 digits, which is ErrPrecisionOverflow;
  operands of different scales are refused with ErrScaleMismatch.
\<close>

theorem add_sub_exact:
  assumes "Decimal_Validate d = None" and "Decimal_Validate e = None"
  shows "Decimal_Add d e =
      (if d_scale d \<noteq> d_scale e then Inl (DecErr ErrScaleMismatch)
       else if \<bar>Decimal_signed d + Decimal_signed e\<bar> \<ge> 10 ^ 38 then Inl (DecErr ErrPrecisionOverflow)
       else Inr (d\<lparr>d_neg := (Decimal_signed d + Decimal_signed e < 0),
                   d_unscaled := Some \<bar>Decimal_signed d + Decimal_signed e\<bar>\<rparr>))
    \<and> (Decimal_Add d e = Inr r \<longrightarrow> dec_val r = dec_val d + dec_val e)
    \<and> (Decimal_Sub d e = Inr r \<longrightarrow> dec_val r = dec_val d - dec_val e)
    \<and> (Decimal_Sub d e = bind_res (Decimal_Neg e) (\<lambda>e'. Decimal_Add d e'))"
proof -
  have wf: "wf_dec d" "wf_dec e" using assms by simp_all
  have ne: "Decimal_Neg e = Inr (e\<lparr>d_neg := (- Decimal_signed e < 0), d_unscaled := Some \<bar>- Decimal_signed e\<bar>\<rparr>)"
    (is "_ = Inr ?n")
    using wf signed_bound [OF wf(2)] by (cases e) (auto simp: Decimal_Neg_def fromSigned_cases wf_dec_def)
  have nw: "wf_dec ?n" using dec_arith_wf(3) [OF ne] .
  have ns: "Decimal_signed ?n = - Decimal_signed e" by (auto simp: Decimal_signed_def Decimal_Unscaled_def)
  have "Decimal_Add d e = Inr r \<longrightarrow> dec_val r = dec_val d + dec_val e"
    using wf by (auto simp: Decimal_Add_def dec_val_def add_divide_distrib dest!: fromSigned_signed)
  moreover have "Decimal_Sub d e = Inr r \<longrightarrow> dec_val r = dec_val d - dec_val e"
    using wf by (auto simp: Decimal_Sub_def dec_val_def diff_divide_distrib dest!: fromSigned_signed)
  moreover have "Decimal_Sub d e = bind_res (Decimal_Neg e) (\<lambda>e'. Decimal_Add d e')"
    unfolding ne bind_res_simps using wf nw ns by (simp add: Decimal_Sub_def Decimal_Add_def)
  moreover have "Decimal_Add d e =
      (if d_scale d \<noteq> d_scale e then Inl (DecErr ErrScaleMismatch)
       else if \<bar>Decimal_signed d + Decimal_signed e\<bar> \<ge> 10 ^ 38 then Inl (DecErr ErrPrecisionOverflow)
       else Inr (d\<lparr>d_neg := (Decimal_signed d + Decimal_signed e < 0),
                   d_unscaled := Some \<bar>Decimal_signed d + Decimal_signed e\<bar>\<rparr>))"
    using wf by (cases d) (auto simp: Decimal_Add_def fromSigned_cases wf_dec_def reject_def)
  ultimately show ?thesis by blast
qed

theorem add_sub_exact_witness:
  "Decimal_Add \<lparr>d_set = True, d_neg = False, d_unscaled = Some 125, d_scale = 2, d_round = RoundingFloor\<rparr>
               \<lparr>d_set = True, d_neg = True, d_unscaled = Some 200, d_scale = 2, d_round = RoundingHalfUp\<rparr>
   = Inr \<lparr>d_set = True, d_neg = True, d_unscaled = Some 75, d_scale = 2, d_round = RoundingFloor\<rparr>"
  by (subst add_sub_exact [THEN conjunct1])
     (simp_all add: wf_dec_def RoundingMode_Valid_iff Decimal_signed_def Decimal_Unscaled_def)

text \<open>
  Cmp is the order of the numbers: on usable decimals, whatever their declared scales and
  modes, it returns -1, 0 or 1 as the first value is less than, equal to or greater than the
  second; an unusable decimal is below every usable one.
\<close>

theorem cmp_is_numeric_order:
  "Decimal_Cmp d e =
     (if Decimal_Validate d = None \<and> Decimal_Validate e = None
      then (if dec_val d < dec_val e then -1 else if dec_val d = dec_val e then 0 else 1)
      else if Decimal_Validate d = None then 1 else if Decimal_Validate e = None then -1 else 0)"
proof (cases "Decimal_Validate d = None \<and> Decimal_Validate e = None")
  case False
  then show ?thesis by (auto simp: Decimal_Cmp_def)
next
  case True
  let ?a = "if d_scale d < d_scale e then Decimal_signed d * pow10 (d_scale e - d_scale d) else Decimal_signed d"
  let ?b = "if d_scale e < d_scale d then Decimal_signed e * pow10 (d_scale d - d_scale e) else Decimal_signed e"
  let ?s = "max (d_scale d) (d_scale e)"
  have sc: "0 \<le> d_scale d" "0 \<le> d_scale e" using True by (simp_all add: wf_dec_def)
  have a: "dec_val d = of_int ?a / 10 ^ nat ?s"
  proof (cases "d_scale d < d_scale e")
    case True
    then have "nat (d_scale e) = nat (d_scale d) + nat (d_scale e - d_scale d)" using sc by simp
    then have "(10::rat) ^ nat (d_scale e) = 10 ^ nat (d_scale d) * 10 ^ nat (d_scale e - d_scale d)"
      by (simp add: power_add)
    then show ?thesis using True by (simp add: dec_val_def pow10_def max_def)
  qed (simp add: dec_val_def max_def)
  have b: "dec_val e = of_int ?b / 10 ^ nat ?s"
  proof (cases "d_scale e < d_scale d")
    case True
    then have "nat (d_scale d) = nat (d_scale e) + nat (d_scale d - d_scale e)" using sc by simp
    then have "(10::rat) ^ nat (d_scale d) = 10 ^ nat (d_scale e) * 10 ^ nat (d_scale d - d_scale e)"
      by (simp add: power_add)
    then show ?thesis using True by (simp add: dec_val_def pow10_def max_def)
  qed (auto simp: dec_val_def max_def)
  have l: "dec_val d < dec_val e \<longleftrightarrow> ?a < ?b" unfolding a b
    by (simp only: divide_less_cancel of_int_less_iff) simp
  have q: "dec_val d = dec_val e \<longleftrightarrow> ?a = ?b" unfolding a b
    by (simp only: divide_cancel_right of_int_eq_iff) simp
  have c: "Decimal_Cmp d e = (if ?a < ?b then -1 else if ?a > ?b then 1 else 0)"
    using True by (simp only: Decimal_Cmp_def Let_def simp_thms if_False)
  show ?thesis unfolding c l q using True by auto
qed

text \<open>
  The canonical bytes identify the number and its scale: two usable decimals with the same
  canonical encoding have the same sign, digits and declared scale (the rounding mode is not
  part of the encoding), and a usable decimal never encodes to the empty byte string.
\<close>

theorem decimal_canonical_injective:
  assumes "Decimal_Validate d = None" and "Decimal_Validate e = None"
  shows "Decimal_Canonical d \<noteq> [] \<and> (Decimal_Canonical d = Decimal_Canonical e \<longleftrightarrow>
     d_neg d = d_neg e \<and> d_unscaled d = d_unscaled e \<and> d_scale d = d_scale e)"
proof -
  have wf: "wf_dec d" "wf_dec e" using assms by simp_all
  have len: "length (nat_bytes (nat (Decimal_Unscaled x))) < 2 ^ 32" if "wf_dec x" for x
  proof -
    have "nat (Decimal_Unscaled x) < 256 ^ 16" using wf_dec_unscaled [OF that] by (simp add: nat_less_iff)
    then show ?thesis using length_nat_bytes_le [of "nat (Decimal_Unscaled x)" 16] by simp
  qed
  let ?s = "\<lambda>x. if Decimal_Sign x = 0 then CHR 0x00 else if Decimal_Sign x = 1 then CHR 0x01 else CHR 0x02"
  have can: "Decimal_Canonical x = ?s x # be32 (d_scale x) @ len_prefixed (nat_bytes (nat (Decimal_Unscaled x)))"
    if "wf_dec x" for x using that by (simp add: Decimal_Canonical_def Let_def len_prefixed_def)
  have sg: "?s d = ?s e \<longleftrightarrow> sgn (Decimal_signed d) = sgn (Decimal_signed e)"
    using Decimal_Sign_sgn [OF wf(1)] Decimal_Sign_sgn [OF wf(2)] by (auto simp: sgn_if)
  have inj: "d_neg d = d_neg e \<and> d_unscaled d = d_unscaled e \<and> d_scale d = d_scale e"
    if eq: "Decimal_Canonical d = Decimal_Canonical e"
  proof -
    from eq have h: "?s d = ?s e" and t: "be32 (d_scale d) @ len_prefixed (nat_bytes (nat (Decimal_Unscaled d)))
        = be32 (d_scale e) @ len_prefixed (nat_bytes (nat (Decimal_Unscaled e)))"
      unfolding can [OF wf(1)] can [OF wf(2)] by (simp_all only: list.inject)
    from t have s: "be32 (d_scale d) = be32 (d_scale e)"
      and m: "len_prefixed (nat_bytes (nat (Decimal_Unscaled d))) = len_prefixed (nat_bytes (nat (Decimal_Unscaled e)))"
      by simp_all
    have "d_scale d = d_scale e" by (rule be32_inj) (use wf s in \<open>auto simp: wf_dec_def\<close>)
    moreover have "nat_bytes (nat (Decimal_Unscaled d)) = nat_bytes (nat (Decimal_Unscaled e))"
      using len_prefixed_append_inj [of _ "[]" _ "[]"] m len wf by simp
    then have "nat (Decimal_Unscaled d) = nat (Decimal_Unscaled e)" by (rule nat_bytes_inj)
    then have u: "Decimal_Unscaled d = Decimal_Unscaled e"
      using wf_dec_unscaled [OF wf(1)] wf_dec_unscaled [OF wf(2)] by (simp add: eq_nat_nat_iff)
    moreover have "d_neg d = d_neg e"
      unfolding Decimal_neg_iff [OF wf(1)] Decimal_neg_iff [OF wf(2)]
      using iffD1 [OF sg h] by (simp add: sgn_if split: if_splits)
    ultimately show ?thesis using wf_dec_unscaled [OF wf(1)] wf_dec_unscaled [OF wf(2)] by simp
  qed
  have conv: "Decimal_Canonical d = Decimal_Canonical e"
    if "d_neg d = d_neg e \<and> d_unscaled d = d_unscaled e \<and> d_scale d = d_scale e"
    using that unfolding can [OF wf(1)] can [OF wf(2)] by (simp add: Decimal_Sign_def Decimal_Unscaled_def)
  have ne: "Decimal_Canonical d \<noteq> []" using can [OF wf(1)] by simp
  show ?thesis by (rule conjI [OF ne iffI [OF inj conv]])
qed

theorem decimal_canonical_injective_witness:
  "Decimal_Canonical \<lparr>d_set = True, d_neg = False, d_unscaled = Some 10, d_scale = 1, d_round = RoundingFloor\<rparr>
   \<noteq> Decimal_Canonical \<lparr>d_set = True, d_neg = False, d_unscaled = Some 100, d_scale = 2, d_round = RoundingFloor\<rparr>"
  (is "Decimal_Canonical ?d \<noteq> Decimal_Canonical ?e")
proof -
  have "Decimal_Validate ?d = None" "Decimal_Validate ?e = None"
    by (simp_all add: wf_dec_def RoundingMode_Valid_iff)
  from decimal_canonical_injective [OF this] show ?thesis by simp
qed

end
