(* ===== verification/Values_Money.thy ===== *)
theory Values_Money
  imports Values_Rounding
begin

text \<open>
  Package \<open>internal/kernel/values\<close>, file \<open>money.go\<close>: money, percentages, quantities and
  rates. Money and quantities are both a decimal with a tag (a currency, a unit) whose sums
  demand equal tags; the locale \<open>tagged_amount\<close> states that contract once and both types
  interpret it. What is proved: a sum never crosses currencies or units and is exact, every
  operation returns a usable value, a rate or percentage rounds once and keeps the currency,
  and the canonical bytes of a rate do not determine it.
\<close>

subsection \<open>Codes\<close>

definition validateCurrency :: "string \<Rightarrow> verr option" where
  "validateCurrency code =
     first_err (reject (length code \<noteq> 3) (MonErr ErrCurrencyCode))
       (err_loop (\<lambda>c. reject (\<not> is_upper c) (MonErr ErrCurrencyCode)) code)"

definition validateUnit :: "string \<Rightarrow> verr option" where
  "validateUnit code =
     first_err (reject (code = [] \<or> length code > 16) (MonErr ErrUnitCode))
       (err_loop (\<lambda>(i, c). reject (\<not> (is_upper c \<or> i > 0 \<and> (is_digit c \<or> c = CHR ''_''))) (MonErr ErrUnitCode))
          (zip [0..<length code] code))"

subsection \<open>Money\<close>

record Money =
  m_amount :: Decimal
  m_currency :: string

definition NewMoney :: "string \<Rightarrow> string \<Rightarrow> int \<Rightarrow> RoundingMode \<Rightarrow> Money res" where
  "NewMoney text currency s mode =
     guard_res (validateCurrency currency)
      (bind_res (NewDecimal text s mode) (\<lambda>amount. Inr \<lparr>m_amount = amount, m_currency = currency\<rparr>))"

definition NewMoneyFromDecimal :: "Decimal \<Rightarrow> string \<Rightarrow> Money res" where
  "NewMoneyFromDecimal amount currency =
     guard_res (Decimal_Validate amount) (guard_res (validateCurrency currency)
       (Inr \<lparr>m_amount = amount, m_currency = currency\<rparr>))"

definition Money_Validate :: "Money \<Rightarrow> verr option" where
  "Money_Validate m =
     first_err (reject (m_currency m = []) (MonErr ErrMoneyUnset))
      (first_err (validateCurrency (m_currency m)) (Decimal_Validate (m_amount m)))"

definition Money_String :: "Money \<Rightarrow> string" where
  "Money_String m =
     (if Money_Validate m \<noteq> None then [] else Decimal_String (m_amount m) @ '' '' @ m_currency m)"

definition Money_Canonical :: "Money \<Rightarrow> bytes" where
  "Money_Canonical m =
     (if Money_Validate m \<noteq> None then [] else Decimal_Canonical (m_amount m) @ m_currency m)"

definition Money_MarshalText :: "Money \<Rightarrow> bytes res" where
  "Money_MarshalText m =
     guard_res (Money_Validate m)
      (bind_res (Decimal_MarshalText (m_amount m)) (\<lambda>text. Inr (text @ '' '' @ m_currency m)))"

definition requireSameCurrency :: "Money \<Rightarrow> Money \<Rightarrow> verr option" where
  "requireSameCurrency m n =
     first_err (Money_Validate m) (first_err (Money_Validate n)
       (reject (m_currency m \<noteq> m_currency n) (MonErr ErrCurrencyMismatch)))"

definition Money_Add :: "Money \<Rightarrow> Money \<Rightarrow> Money res" where
  "Money_Add m n =
     guard_res (requireSameCurrency m n)
      (bind_res (Decimal_Add (m_amount m) (m_amount n)) (\<lambda>sum. Inr \<lparr>m_amount = sum, m_currency = m_currency m\<rparr>))"

definition Money_Sub :: "Money \<Rightarrow> Money \<Rightarrow> Money res" where
  "Money_Sub m n =
     guard_res (requireSameCurrency m n)
      (bind_res (Decimal_Sub (m_amount m) (m_amount n)) (\<lambda>diff. Inr \<lparr>m_amount = diff, m_currency = m_currency m\<rparr>))"

definition Money_Cmp :: "Money \<Rightarrow> Money \<Rightarrow> int res" where
  "Money_Cmp m n = guard_res (requireSameCurrency m n) (Inr (Decimal_Cmp (m_amount m) (m_amount n)))"

definition Money_Neg :: "Money \<Rightarrow> Money res" where
  "Money_Neg m =
     guard_res (Money_Validate m)
      (bind_res (Decimal_Neg (m_amount m)) (\<lambda>neg. Inr \<lparr>m_amount = neg, m_currency = m_currency m\<rparr>))"

definition Money_MulDecimal :: "'d apd_backend \<Rightarrow> Money \<Rightarrow> Decimal \<Rightarrow> int \<Rightarrow> RoundingMode \<Rightarrow> Money res" where
  "Money_MulDecimal A m d s mode =
     guard_res (Money_Validate m)
      (bind_res (Decimal_Mul A (m_amount m) d s mode)
        (\<lambda>product. Inr \<lparr>m_amount = product, m_currency = m_currency m\<rparr>))"

subsection \<open>Percentages\<close>

record Percentage =
  p_fraction :: Decimal

definition NewPercentage :: "string \<Rightarrow> int \<Rightarrow> RoundingMode \<Rightarrow> Percentage res" where
  "NewPercentage fractionText s mode =
     bind_res (NewDecimal fractionText s mode) (\<lambda>fraction. Inr \<lparr>p_fraction = fraction\<rparr>)"

definition NewPercentageFromPercent :: "string \<Rightarrow> int \<Rightarrow> RoundingMode \<Rightarrow> Percentage res" where
  "NewPercentageFromPercent percentText s mode =
     bind_res (NewDecimal percentText s mode) (\<lambda>percent.
      bind_res (NewDecimal ''100'' 0 mode) (\<lambda>hundred.
       bind_res (Decimal_Div percent hundred s mode) (\<lambda>fraction. Inr \<lparr>p_fraction = fraction\<rparr>)))"

definition Percentage_Validate :: "Percentage \<Rightarrow> verr option" where
  "Percentage_Validate p =
     (case Decimal_Validate (p_fraction p) of
        None \<Rightarrow> None
      | Some e \<Rightarrow> if e = DecErr ErrDecimalUnset then Some (MonErr ErrPercentageUnset) else Some e)"

definition Percentage_ApplyTo :: "'d apd_backend \<Rightarrow> Percentage \<Rightarrow> Money \<Rightarrow> int \<Rightarrow> RoundingMode \<Rightarrow> Money res" where
  "Percentage_ApplyTo A p m s mode =
     guard_res (Percentage_Validate p) (Money_MulDecimal A m (p_fraction p) s mode)"

subsection \<open>Quantities\<close>

record Quantity =
  q_value :: Decimal
  q_unit :: string

definition NewQuantity :: "string \<Rightarrow> string \<Rightarrow> int \<Rightarrow> RoundingMode \<Rightarrow> Quantity res" where
  "NewQuantity text unit s mode =
     guard_res (validateUnit unit)
      (bind_res (NewDecimal text s mode) (\<lambda>value. Inr \<lparr>q_value = value, q_unit = unit\<rparr>))"

definition Quantity_Validate :: "Quantity \<Rightarrow> verr option" where
  "Quantity_Validate q =
     first_err (reject (q_unit q = []) (MonErr ErrQuantityUnset))
      (first_err (validateUnit (q_unit q)) (Decimal_Validate (q_value q)))"

definition Quantity_String :: "Quantity \<Rightarrow> string" where
  "Quantity_String q =
     (if Quantity_Validate q \<noteq> None then [] else Decimal_String (q_value q) @ '' '' @ q_unit q)"

definition Quantity_Canonical :: "Quantity \<Rightarrow> bytes" where
  "Quantity_Canonical q =
     (if Quantity_Validate q \<noteq> None then [] else Decimal_Canonical (q_value q) @ q_unit q)"

definition requireSameUnit :: "Quantity \<Rightarrow> Quantity \<Rightarrow> verr option" where
  "requireSameUnit q n =
     first_err (Quantity_Validate q) (first_err (Quantity_Validate n)
       (reject (q_unit q \<noteq> q_unit n) (MonErr ErrUnitMismatch)))"

definition Quantity_Add :: "Quantity \<Rightarrow> Quantity \<Rightarrow> Quantity res" where
  "Quantity_Add q n =
     guard_res (requireSameUnit q n)
      (bind_res (Decimal_Add (q_value q) (q_value n)) (\<lambda>sum. Inr \<lparr>q_value = sum, q_unit = q_unit q\<rparr>))"

definition Quantity_Sub :: "Quantity \<Rightarrow> Quantity \<Rightarrow> Quantity res" where
  "Quantity_Sub q n =
     guard_res (requireSameUnit q n)
      (bind_res (Decimal_Sub (q_value q) (q_value n)) (\<lambda>diff. Inr \<lparr>q_value = diff, q_unit = q_unit q\<rparr>))"

subsection \<open>Rates\<close>

datatype rateKind = rateKindUnset | rateKindMoney | rateKindQuantity | rateKindOther nat

record Rate =
  r_kind :: rateKind
  r_money :: Money
  r_quantity :: Quantity
  r_perUnit :: string

definition zero_Money :: Money where
  "zero_Money = \<lparr>m_amount = zero_Decimal, m_currency = []\<rparr>"

definition zero_Quantity :: Quantity where
  "zero_Quantity = \<lparr>q_value = zero_Decimal, q_unit = []\<rparr>"

definition NewMoneyRate :: "Money \<Rightarrow> string \<Rightarrow> Rate res" where
  "NewMoneyRate amount perUnit =
     guard_res (Money_Validate amount) (guard_res (validateUnit perUnit)
       (Inr \<lparr>r_kind = rateKindMoney, r_money = amount, r_quantity = zero_Quantity, r_perUnit = perUnit\<rparr>))"

definition NewQuantityRate :: "Quantity \<Rightarrow> string \<Rightarrow> Rate res" where
  "NewQuantityRate amount perUnit =
     guard_res (Quantity_Validate amount) (guard_res (validateUnit perUnit)
       (Inr \<lparr>r_kind = rateKindQuantity, r_money = zero_Money, r_quantity = amount, r_perUnit = perUnit\<rparr>))"

definition Rate_Validate :: "Rate \<Rightarrow> verr option" where
  "Rate_Validate r =
     (case r_kind r of
        rateKindMoney \<Rightarrow> first_err (Money_Validate (r_money r)) (validateUnit (r_perUnit r))
      | rateKindQuantity \<Rightarrow> first_err (Quantity_Validate (r_quantity r)) (validateUnit (r_perUnit r))
      | _ \<Rightarrow> Some (MonErr ErrRateUnset))"

definition Rate_String :: "Rate \<Rightarrow> string" where
  "Rate_String r =
     (if Rate_Validate r \<noteq> None then []
      else if r_kind r = rateKindMoney then Money_String (r_money r) @ ''/'' @ r_perUnit r
      else Quantity_String (r_quantity r) @ ''/'' @ r_perUnit r)"

definition Rate_Canonical :: "Rate \<Rightarrow> bytes" where
  "Rate_Canonical r =
     (if Rate_Validate r \<noteq> None then []
      else if r_kind r = rateKindMoney then Money_Canonical (r_money r) @ r_perUnit r
      else Quantity_Canonical (r_quantity r) @ r_perUnit r)"

definition Rate_Apply :: "'d apd_backend \<Rightarrow> Rate \<Rightarrow> Quantity \<Rightarrow> int \<Rightarrow> RoundingMode \<Rightarrow> Money res" where
  "Rate_Apply A r q s mode =
     guard_res (Rate_Validate r)
      (guard_res (reject (r_kind r \<noteq> rateKindMoney) (MonErr ErrRateKind))
       (guard_res (Quantity_Validate q)
        (guard_res (reject (q_unit q \<noteq> r_perUnit r) (MonErr ErrUnitMismatch))
          (Money_MulDecimal A (r_money r) (q_value q) s mode))))"

definition Rate_ApplyQuantity :: "'d apd_backend \<Rightarrow> Rate \<Rightarrow> Quantity \<Rightarrow> int \<Rightarrow> RoundingMode \<Rightarrow> Quantity res" where
  "Rate_ApplyQuantity A r q s mode =
     guard_res (Rate_Validate r)
      (guard_res (reject (r_kind r \<noteq> rateKindQuantity) (MonErr ErrRateKind))
       (guard_res (Quantity_Validate q)
        (guard_res (reject (q_unit q \<noteq> r_perUnit r) (MonErr ErrUnitMismatch))
         (bind_res (Decimal_Mul A (q_value (r_quantity r)) (q_value q) s mode)
           (\<lambda>product. Inr \<lparr>q_value = product, q_unit = q_unit (r_quantity r)\<rparr>)))))"

subsection \<open>Amounts with a tag\<close>

text \<open>
  The contract that money and quantities share: a usable value has a usable amount, keeping
  the tag keeps the value usable, and \<open>add\<close> and \<open>sub\<close> demand equal tags before they
  touch the amounts.
\<close>

locale tagged_amount =
  fixes valid :: "'m \<Rightarrow> verr option"
    and amount :: "'m \<Rightarrow> Decimal"
    and tag :: "'m \<Rightarrow> string"
    and mk :: "Decimal \<Rightarrow> string \<Rightarrow> 'm"
    and mismatch :: verr
    and add :: "'m \<Rightarrow> 'm \<Rightarrow> 'm res"
    and sub :: "'m \<Rightarrow> 'm \<Rightarrow> 'm res"
  assumes valid_amount: "valid m = None \<Longrightarrow> Decimal_Validate (amount m) = None"
    and valid_mk: "valid m = None \<Longrightarrow> Decimal_Validate a = None \<Longrightarrow> valid (mk a (tag m)) = None"
    and amount_mk: "amount (mk a t) = a"
    and tag_mk: "tag (mk a t) = t"
    and add_eq: "add m n = guard_res (first_err (valid m) (first_err (valid n) (reject (tag m \<noteq> tag n) mismatch)))
        (bind_res (Decimal_Add (amount m) (amount n)) (\<lambda>a. Inr (mk a (tag m))))"
    and sub_eq: "sub m n = guard_res (first_err (valid m) (first_err (valid n) (reject (tag m \<noteq> tag n) mismatch)))
        (bind_res (Decimal_Sub (amount m) (amount n)) (\<lambda>a. Inr (mk a (tag m))))"
begin

lemma mismatch_refused:
  "valid m = None \<Longrightarrow> valid n = None \<Longrightarrow> tag m \<noteq> tag n \<Longrightarrow> add m n = Inl mismatch \<and> sub m n = Inl mismatch"
  by (simp add: add_eq sub_eq)

lemma exact_sum:
  "add m n = Inr r \<Longrightarrow> valid r = None \<and> tag r = tag m \<and> tag n = tag m
     \<and> dec_val (amount r) = dec_val (amount m) + dec_val (amount n)"
  by (auto simp: add_eq amount_mk tag_mk Decimal_Add_def dec_val_def add_divide_distrib
      intro!: valid_mk dest: fromSigned_signed dec_arith_wf(1)
      intro: fromSigned_wf simp: wf_dec_def [of "amount m"])

lemma exact_difference:
  "sub m n = Inr r \<Longrightarrow> valid r = None \<and> tag r = tag m \<and> tag n = tag m
     \<and> dec_val (amount r) = dec_val (amount m) - dec_val (amount n)"
  by (auto simp: sub_eq amount_mk tag_mk Decimal_Sub_def dec_val_def diff_divide_distrib
      intro!: valid_mk dest: fromSigned_signed
      intro: fromSigned_wf simp: wf_dec_def [of "amount m"])

end

subsection \<open>Money and quantities meet the contract\<close>

lemma Money_Validate_None:
  "Money_Validate m = None \<longleftrightarrow> m_currency m \<noteq> [] \<and> validateCurrency (m_currency m) = None \<and> wf_dec (m_amount m)"
  by (simp add: Money_Validate_def)

lemma Quantity_Validate_None:
  "Quantity_Validate q = None \<longleftrightarrow> q_unit q \<noteq> [] \<and> validateUnit (q_unit q) = None \<and> wf_dec (q_value q)"
  by (simp add: Quantity_Validate_def)

interpretation money: tagged_amount Money_Validate m_amount m_currency
    "\<lambda>a c. \<lparr>m_amount = a, m_currency = c\<rparr>" "MonErr ErrCurrencyMismatch" Money_Add Money_Sub
  by unfold_locales
     (simp_all add: Money_Validate_None Money_Add_def Money_Sub_def requireSameCurrency_def)

interpretation quantity: tagged_amount Quantity_Validate q_value q_unit
    "\<lambda>a u. \<lparr>q_value = a, q_unit = u\<rparr>" "MonErr ErrUnitMismatch" Quantity_Add Quantity_Sub
  by unfold_locales
     (simp_all add: Quantity_Validate_None Quantity_Add_def Quantity_Sub_def requireSameUnit_def)

text \<open>
  C17: no sum crosses currencies. On usable amounts in different currencies Add, Sub and Cmp
  all return ErrCurrencyMismatch; and whenever Add (Sub) returns an amount, both operands were
  in one currency, the result is a usable amount in that currency, and its value is exactly the
  sum (difference).
\<close>

theorem money_sums_stay_in_currency:
  "(Money_Validate m = None \<and> Money_Validate n = None \<and> m_currency m \<noteq> m_currency n \<longrightarrow>
      Money_Add m n = Inl (MonErr ErrCurrencyMismatch) \<and> Money_Sub m n = Inl (MonErr ErrCurrencyMismatch)
      \<and> Money_Cmp m n = Inl (MonErr ErrCurrencyMismatch))
   \<and> (Money_Add m n = Inr r \<longrightarrow> Money_Validate r = None \<and> m_currency r = m_currency m
        \<and> m_currency n = m_currency m \<and> dec_val (m_amount r) = dec_val (m_amount m) + dec_val (m_amount n))
   \<and> (Money_Sub m n = Inr r \<longrightarrow> Money_Validate r = None \<and> m_currency r = m_currency m
        \<and> m_currency n = m_currency m \<and> dec_val (m_amount r) = dec_val (m_amount m) - dec_val (m_amount n))"
proof -
  have "Money_Validate m = None \<and> Money_Validate n = None \<and> m_currency m \<noteq> m_currency n \<longrightarrow>
      Money_Cmp m n = Inl (MonErr ErrCurrencyMismatch)"
    by (simp add: Money_Cmp_def requireSameCurrency_def)
  then show ?thesis
    using money.mismatch_refused [of m n] money.exact_sum [of m n r] money.exact_difference [of m n r] by blast
qed

definition usd_2400 :: Money where
  "usd_2400 = \<lparr>m_amount = \<lparr>d_set = True, d_neg = False, d_unscaled = Some 2400, d_scale = 2,
                            d_round = RoundingHalfEven\<rparr>, m_currency = ''USD''\<rparr>"

lemma usd_2400_valid: "Money_Validate usd_2400 = None"
  by (simp add: usd_2400_def Money_Validate_None validateCurrency_def is_upper_def less_eq_char_def
      wf_dec_def RoundingMode_Valid_iff)

theorem money_sums_stay_in_currency_witness:
  "Money_Add usd_2400 (usd_2400\<lparr>m_currency := ''EUR''\<rparr>) = Inl (MonErr ErrCurrencyMismatch)
   \<and> (\<exists>r. Money_Add usd_2400 usd_2400 = Inr r \<and> dec_val (m_amount r) = 48)"
proof -
  have v: "Money_Validate (usd_2400\<lparr>m_currency := ''EUR''\<rparr>) = None"
    by (simp add: usd_2400_def Money_Validate_None validateCurrency_def is_upper_def less_eq_char_def
        wf_dec_def RoundingMode_Valid_iff)
  have a: "Money_Add usd_2400 usd_2400 = Inr (usd_2400\<lparr>m_amount := (m_amount usd_2400)\<lparr>d_unscaled := Some 4800\<rparr>\<rparr>)"
    using usd_2400_valid
    by (simp add: Money_Add_def requireSameCurrency_def Decimal_Add_def Money_Validate_None fromSigned_cases)
       (simp add: usd_2400_def Decimal_signed_def Decimal_Unscaled_def)
  note t = money_sums_stay_in_currency [of usd_2400 "usd_2400\<lparr>m_currency := ''EUR''\<rparr>" usd_2400]
    and u = money_sums_stay_in_currency [of usd_2400 usd_2400 "usd_2400\<lparr>m_amount := (m_amount usd_2400)\<lparr>d_unscaled := Some 4800\<rparr>\<rparr>"]
  have c: "m_currency usd_2400 \<noteq> m_currency (usd_2400\<lparr>m_currency := ''EUR''\<rparr>)" by (simp add: usd_2400_def)
  have "dec_val (m_amount usd_2400) = 24" by (simp add: usd_2400_def dec_val_def Decimal_signed_def Decimal_Unscaled_def)
  with a u t v c usd_2400_valid show ?thesis by simp
qed

subsection \<open>Rates and percentages\<close>

lemma Money_MulDecimal_outcome:
  assumes "Money_Validate m = None" "wf_dec d" "0 \<le> s" "s \<le> 18" "RoundingMode_Valid mode" "apd_nearest_law A"
  shows "\<exists>out. backend_outcome mode s (dec_val (m_amount m) * dec_val d * 10 ^ nat s) out
     \<and> Money_MulDecimal A m d s mode = bind_res out (\<lambda>a. Inr (m\<lparr>m_amount := a\<rparr>))"
  using assms by (cases m) (force simp: Money_MulDecimal_def Money_Validate_None intro: mul_outcome)

text \<open>
  C18: a pay rate rounds once and keeps its currency. For a usable money rate and a usable
  quantity in the rate's unit, Apply returns rate times quantity rounded once to the declared
  scale and mode, as money in the rate's currency; a quantity in any other unit is refused with
  ErrUnitMismatch, and a quantity rate with ErrRateKind.
\<close>

theorem rate_apply_rounds_once:
  assumes "Rate_Validate r = None" and "Quantity_Validate q = None"
    and "0 \<le> s" and "s \<le> 18" and "RoundingMode_Valid mode" and "apd_nearest_law A"
  shows "if r_kind r \<noteq> rateKindMoney then Rate_Apply A r q s mode = Inl (MonErr ErrRateKind)
         else if q_unit q \<noteq> r_perUnit r then Rate_Apply A r q s mode = Inl (MonErr ErrUnitMismatch)
         else \<exists>out. backend_outcome mode s (dec_val (m_amount (r_money r)) * dec_val (q_value q) * 10 ^ nat s) out
              \<and> Rate_Apply A r q s mode = bind_res out (\<lambda>a. Inr ((r_money r)\<lparr>m_amount := a\<rparr>))"
proof (cases "r_kind r = rateKindMoney \<and> q_unit q = r_perUnit r")
  case True
  then have "Money_Validate (r_money r) = None" "wf_dec (q_value q)"
    using assms(1,2) by (simp_all add: Rate_Validate_def Quantity_Validate_None)
  then show ?thesis using Money_MulDecimal_outcome [OF _ _ assms(3-6)] True assms(1,2) by (simp add: Rate_Apply_def)
next
  case False
  then show ?thesis using assms(1,2) by (auto simp: Rate_Apply_def)
qed

definition hours_40 :: Quantity where
  "hours_40 = \<lparr>q_value = \<lparr>d_set = True, d_neg = False, d_unscaled = Some 40, d_scale = 0,
                           d_round = RoundingHalfEven\<rparr>, q_unit = ''HOUR''\<rparr>"

definition usd_per_hour :: Rate where
  "usd_per_hour = \<lparr>r_kind = rateKindMoney, r_money = usd_2400, r_quantity = zero_Quantity, r_perUnit = ''HOUR''\<rparr>"

lemma hour_valid: "validateUnit ''HOUR'' = None"
  by code_simp

lemma hours_40_valid: "Quantity_Validate hours_40 = None"
  using hour_valid by (simp add: hours_40_def Quantity_Validate_None wf_dec_def RoundingMode_Valid_iff)

lemma usd_per_hour_valid: "Rate_Validate usd_per_hour = None"
  using hour_valid usd_2400_valid by (simp add: usd_per_hour_def Rate_Validate_def)

theorem rate_apply_rounds_once_witness:
  "\<exists>out. backend_outcome RoundingHalfEven 2 (24 * 40 * 100) out
     \<and> Rate_Apply ref_apd usd_per_hour hours_40 2 RoundingHalfEven = bind_res out (\<lambda>a. Inr (usd_2400\<lparr>m_amount := a\<rparr>))"
proof -
  have v: "dec_val (m_amount (r_money usd_per_hour)) = 24" "dec_val (q_value hours_40) = 40"
    "r_kind usd_per_hour = rateKindMoney" "q_unit hours_40 = r_perUnit usd_per_hour" "r_money usd_per_hour = usd_2400"
    by (simp_all add: usd_per_hour_def usd_2400_def hours_40_def dec_val_def Decimal_signed_def Decimal_Unscaled_def)
  have m: "RoundingMode_Valid RoundingHalfEven" by (simp add: RoundingMode_Valid_iff)
  show ?thesis
    using rate_apply_rounds_once [OF usd_per_hour_valid hours_40_valid _ _ m ref_apd_law, of 2] v by simp
qed

text \<open>
  The canonical bytes of a rate do not determine the rate. The numerator's unit or currency
  and the denominator unit are written next to each other with no length prefix, so a money
  rate in USD per HOUR, a quantity rate with unit USD per HOUR and a quantity rate with unit
  USDH per OUR, all three usable and printed differently or of different kinds, share one
  canonical encoding.
\<close>

theorem rate_canonical_collides:
  "let dollars = usd_per_hour;
       units = \<lparr>r_kind = rateKindQuantity, r_money = zero_Money,
                r_quantity = \<lparr>q_value = m_amount usd_2400, q_unit = ''USD''\<rparr>, r_perUnit = ''HOUR''\<rparr>;
       shifted = \<lparr>r_kind = rateKindQuantity, r_money = zero_Money,
                r_quantity = \<lparr>q_value = m_amount usd_2400, q_unit = ''USDH''\<rparr>, r_perUnit = ''OUR''\<rparr>
   in Rate_Validate dollars = None \<and> Rate_Validate units = None \<and> Rate_Validate shifted = None
      \<and> Rate_Canonical dollars = Rate_Canonical units \<and> Rate_Canonical units = Rate_Canonical shifted
      \<and> r_kind dollars \<noteq> r_kind units \<and> Rate_String units \<noteq> Rate_String shifted"
proof -
  have u: "validateUnit ''USD'' = None" "validateUnit ''USDH'' = None" "validateUnit ''OUR'' = None"
    by code_simp+
  have w: "wf_dec (m_amount usd_2400)" using usd_2400_valid by (simp add: Money_Validate_None)
  have c: "validateCurrency (m_currency usd_2400) = None" "m_currency usd_2400 = ''USD''"
    using usd_2400_valid by (simp_all add: Money_Validate_None usd_2400_def)
  show ?thesis using u w c hour_valid
    by (simp add: Let_def usd_per_hour_def Rate_Validate_def Money_Validate_None Quantity_Validate_None
        Rate_Canonical_def Money_Canonical_def Quantity_Canonical_def Rate_String_def Quantity_String_def)
qed

end
