(* ===== verification/Go_Codec.thy ===== *)
theory Go_Codec
  imports Go_Std
begin

text \<open>
  Codecs of the Go standard library: well-formed UTF-8 (\<open>utf8.ValidString\<close>), unpadded base64url in strict
  mode (\<open>base64.RawURLEncoding.Strict()\<close>) with its round-trip laws, lower-case hexadecimal
  (\<open>hex.EncodeToString\<close>), and unsigned varints (\<open>binary.AppendUvarint\<close>), which are prefix-free. As in
  \<^theory_text>\<open>Go_Std\<close>, these definitions describe the language's library and carry no
  entry in the source map.
\<close>

subsection \<open>UTF-8\<close>

text \<open>
  \<open>utf8_first b\<close> gives, for a leading byte at or above 128, the number of continuation bytes
  and the range of the first of them.
\<close>

definition utf8_first :: "nat \<Rightarrow> (nat \<times> nat \<times> nat) option" where
  "utf8_first b =
     (if 194 \<le> b \<and> b \<le> 223 then Some (1, 128, 191)
      else if b = 224 then Some (2, 160, 191)
      else if b = 237 then Some (2, 128, 159)
      else if 225 \<le> b \<and> b \<le> 239 then Some (2, 128, 191)
      else if b = 240 then Some (3, 144, 191)
      else if 241 \<le> b \<and> b \<le> 243 then Some (3, 128, 191)
      else if b = 244 then Some (3, 128, 143)
      else None)"

definition byte_in :: "nat \<Rightarrow> nat \<Rightarrow> char \<Rightarrow> bool" where
  "byte_in lo hi c \<longleftrightarrow> lo \<le> (of_char c :: nat) \<and> (of_char c :: nat) \<le> hi"

fun utf8_valid :: "string \<Rightarrow> bool" where
  "utf8_valid [] = True"
| "utf8_valid (c # cs) =
     (if (of_char c :: nat) < 128 then utf8_valid cs
      else (case utf8_first (of_char c) of
              None \<Rightarrow> False
            | Some (k, lo, hi) \<Rightarrow>
                k \<le> length cs \<and> list_all (byte_in lo hi) (take 1 cs)
                \<and> list_all (byte_in 128 191) (take k cs) \<and> utf8_valid (drop k cs)))"

lemma utf8_valid_ascii: "\<forall>c\<in>set s. (of_char c :: nat) < 128 \<Longrightarrow> utf8_valid s"
  by (induction s) auto

subsection \<open>Unpadded base64url\<close>

definition b64_alphabet :: string where
  "b64_alphabet = ''ABCDEFGHIJKLMNOPQRSTUVWXYZabcdefghijklmnopqrstuvwxyz0123456789-_''"

definition b64_char :: "nat \<Rightarrow> char" where
  "b64_char n = b64_alphabet ! n"

definition is_b64 :: "char \<Rightarrow> bool" where
  "is_b64 c \<longleftrightarrow> c \<in> set b64_alphabet"

definition b64_val :: "char \<Rightarrow> nat" where
  "b64_val c = length (takeWhile (\<lambda>x. x \<noteq> c) b64_alphabet)"

fun b64_encode :: "nat list \<Rightarrow> nat list" where
  "b64_encode [] = []"
| "b64_encode [a] = [a div 4, a mod 4 * 16]"
| "b64_encode [a, b] = [a div 4, a mod 4 * 16 + b div 16, b mod 16 * 4]"
| "b64_encode (a # b # c # r) =
     [a div 4, a mod 4 * 16 + b div 16, b mod 16 * 4 + c div 64, c mod 64] @ b64_encode r"

fun b64_decode :: "nat list \<Rightarrow> nat list option" where
  "b64_decode [] = Some []"
| "b64_decode [w] = None"
| "b64_decode [w, x] = (if x mod 16 = 0 then Some [w * 4 + x div 16] else None)"
| "b64_decode [w, x, y] =
     (if y mod 4 = 0 then Some [w * 4 + x div 16, x mod 16 * 16 + y div 4] else None)"
| "b64_decode (w # x # y # z # r) =
     map_option (\<lambda>t. [w * 4 + x div 16, x mod 16 * 16 + y div 4, y mod 4 * 64 + z] @ t) (b64_decode r)"

definition EncodeToString :: "bytes \<Rightarrow> string" where
  "EncodeToString bs = map b64_char (b64_encode (map of_char bs))"

text \<open>The decoder skips carriage returns and line feeds before it reads a character.\<close>

definition DecodeString :: "string \<Rightarrow> bytes option" where
  "DecodeString s =
     (let t = filter (\<lambda>c. c \<noteq> CHR 10 \<and> c \<noteq> CHR 13) s in
      if list_all is_b64 t then map_option (map char_of) (b64_decode (map b64_val t)) else None)"

lemma b64_encode_bound: "\<forall>x\<in>set xs. x < 256 \<Longrightarrow> \<forall>y\<in>set (b64_encode xs). y < 64"
  by (induction xs rule: b64_encode.induct) auto

lemma b64_decode_bound: "\<forall>x\<in>set xs. x < 64 \<Longrightarrow> b64_decode xs = Some ys \<Longrightarrow> \<forall>y\<in>set ys. y < 256"
  by (induction xs arbitrary: ys rule: b64_decode.induct) (auto split: if_splits)

lemma pack_div: "y < k \<Longrightarrow> (x * k + y) div k = (x :: nat)"
  by simp

lemma pack_mod: "y < k \<Longrightarrow> (x * k + y) mod k = (y :: nat)"
  by simp

lemma b64_decode_encode: "\<forall>x\<in>set xs. x < 256 \<Longrightarrow> b64_decode (b64_encode xs) = Some xs"
proof (induction xs rule: b64_encode.induct)
  case (4 a b c r)
  then have "b div 16 < 16" "c div 64 < 4" and IH: "b64_decode (b64_encode r) = Some r" by auto
  then show ?case
    by (simp only: b64_encode.simps append.simps b64_decode.simps pack_div pack_mod
        div_mult_mod_eq mod_less_divisor IH option.map)
next
  case (3 a b)
  then have "b div 16 < 16" by auto
  then show ?case
    by (simp only: b64_encode.simps append.simps b64_decode.simps pack_div pack_mod
        div_mult_mod_eq) simp
qed auto

lemma b64_encode_decode:
  "\<forall>x\<in>set xs. x < 64 \<Longrightarrow> b64_decode xs = Some ys \<Longrightarrow> b64_encode ys = xs"
proof (induction xs arbitrary: ys rule: b64_decode.induct)
  case (5 w x y z r)
  then obtain t where t: "b64_decode r = Some t"
    and ys: "ys = [w * 4 + x div 16, x mod 16 * 16 + y div 4, y mod 4 * 64 + z] @ t" by auto
  have b: "x div 16 < 4" "y div 4 < 16" "z < 64" and IH: "b64_encode t = r" using 5 t by auto
  then show ?case unfolding ys
    by (simp only: append.simps b64_encode.simps pack_div pack_mod div_mult_mod_eq IH)
next
  case (3 w x)
  then have "x mod 16 = 0" "x div 16 < 4" and ys: "ys = [w * 4 + x div 16]" by (auto split: if_splits)
  moreover have "x div 16 * 16 = x" using div_mult_mod_eq [of x 16] calculation(1) by simp
  ultimately show ?case unfolding ys by (simp only: b64_encode.simps pack_div pack_mod)
next
  case (4 w x y)
  then have "y mod 4 = 0" "x div 16 < 4" "y div 4 < 16"
    and ys: "ys = [w * 4 + x div 16, x mod 16 * 16 + y div 4]" by (auto split: if_splits)
  moreover have "y div 4 * 4 = y" using div_mult_mod_eq [of y 4] calculation(1) by simp
  ultimately show ?case unfolding ys
    by (simp only: b64_encode.simps pack_div pack_mod div_mult_mod_eq)
qed auto

lemma length_alphabet: "length b64_alphabet = 64"
  by (simp add: b64_alphabet_def)

lemma distinct_alphabet: "distinct b64_alphabet"
  by (simp add: b64_alphabet_def)

lemma takeWhile_index_less: "c \<in> set xs \<Longrightarrow> length (takeWhile (\<lambda>x. x \<noteq> c) xs) < length xs"
  by (induction xs) auto

lemma takeWhile_nth_index: "distinct xs \<Longrightarrow> n < length xs \<Longrightarrow> length (takeWhile (\<lambda>x. x \<noteq> xs ! n) xs) = n"
  by (subst takeWhile_eq_take_P_nth [of n]) (auto simp: nth_eq_iff_index_eq)

lemma b64_char_facts:
  assumes "n < 64"
  shows "is_b64 (b64_char n)" "b64_val (b64_char n) = n"
  using assms takeWhile_nth_index [OF distinct_alphabet, of n]
  by (simp_all add: is_b64_def b64_char_def b64_val_def length_alphabet)

lemma b64_val_facts:
  assumes "is_b64 c"
  shows "b64_val c < 64" "b64_char (b64_val c) = c"
proof -
  have "b64_val c < length b64_alphabet" unfolding b64_val_def
    using assms takeWhile_index_less [of c b64_alphabet] by (simp add: is_b64_def)
  then show "b64_val c < 64" by (simp add: length_alphabet)
  show "b64_char (b64_val c) = c" unfolding b64_val_def b64_char_def
    using nth_length_takeWhile [of "\<lambda>x. x \<noteq> c" b64_alphabet] \<open>b64_val c < length b64_alphabet\<close>
    by (simp add: b64_val_def)
qed

lemma of_char_bound: "\<forall>x\<in>set (map of_char bs). (x :: nat) < 256"
  by simp

lemma is_b64_not: "\<not> is_b64 (CHR 10)" "\<not> is_b64 (CHR 13)" "\<not> is_b64 CHR '':''"
  by (simp_all add: is_b64_def b64_alphabet_def)

lemma skip_newlines: "\<forall>c\<in>set s. is_b64 c \<Longrightarrow> filter (\<lambda>c. c \<noteq> CHR 10 \<and> c \<noteq> CHR 13) s = s"
  using is_b64_not by (intro filter_True) metis

lemma EncodeToString_is_b64: "\<forall>c\<in>set (EncodeToString bs). is_b64 c"
  using b64_encode_bound [OF of_char_bound, of bs] b64_char_facts(1)
  by (simp add: EncodeToString_def)

lemma EncodeToString_no_colon: "CHR '':'' \<notin> set (EncodeToString bs)"
  using EncodeToString_is_b64 is_b64_not(3) by metis

lemma EncodeToString_Nil_iff [simp]: "EncodeToString bs = [] \<longleftrightarrow> bs = []"
  by (cases "map of_char bs :: nat list" rule: b64_encode.cases) (auto simp: EncodeToString_def)

lemma DecodeString_Encode [simp, codec_simps]: "DecodeString (EncodeToString bs) = Some bs"
proof -
  let ?e = "b64_encode (map of_char bs)"
  have bnd: "\<forall>y\<in>set ?e. y < 64" by (rule b64_encode_bound [OF of_char_bound])
  have "map b64_val (EncodeToString bs) = ?e"
    unfolding EncodeToString_def using bnd b64_char_facts(2) by (simp add: map_idI)
  moreover have "b64_decode ?e = Some (map of_char bs)"
    by (rule b64_decode_encode [OF of_char_bound])
  ultimately show ?thesis using EncodeToString_is_b64 [of bs]
    by (simp add: DecodeString_def skip_newlines list_all_iff comp_def)
qed

lemma Encode_DecodeString:
  assumes d: "DecodeString s = Some bs" and nl: "CHR 10 \<notin> set s" "CHR 13 \<notin> set s"
  shows "EncodeToString bs = s"
proof -
  have "filter (\<lambda>c. c \<noteq> CHR 10 \<and> c \<noteq> CHR 13) s = s" using nl by (intro filter_True) metis
  with d obtain ys where ys: "b64_decode (map b64_val s) = Some ys" and bs: "bs = map char_of ys"
    and a: "\<forall>c\<in>set s. is_b64 c" by (auto simp: DecodeString_def list_all_iff split: if_splits)
  have b: "\<forall>x\<in>set (map b64_val s). x < 64" using a b64_val_facts(1) by simp
  have "map of_char bs = ys" unfolding bs using b64_decode_bound [OF b ys]
    by (simp add: map_idI)
  then have "b64_encode (map of_char bs) = map b64_val s" using b64_encode_decode [OF b ys] by simp
  then show ?thesis unfolding EncodeToString_def
    using a b64_val_facts(2) by (simp add: map_idI)
qed

subsection \<open>Lower-case hexadecimal\<close>

definition hex_digit :: "nat \<Rightarrow> char" where
  "hex_digit n = ''0123456789abcdef'' ! n"

definition hex_encode :: "bytes \<Rightarrow> string" where
  "hex_encode b = concat (map (\<lambda>c. [hex_digit (of_char c div 16), hex_digit (of_char c mod 16)]) b)"

subsection \<open>Unsigned varints\<close>

text \<open>The bytes that \<open>binary.AppendUvarint\<close> appends.\<close>

fun uvarint :: "nat \<Rightarrow> bytes" where
  "uvarint n = (if n < 128 then [char_of n] else char_of (n mod 128 + 128) # uvarint (n div 128))"

declare uvarint.simps [simp del]

lemma char_of_inj: "a < 256 \<Longrightarrow> b < 256 \<Longrightarrow> (char_of a :: char) = char_of b \<longleftrightarrow> a = (b :: nat)"
  by (metis of_char_of mod_less)

lemma uvarint_small: "v < 128 \<Longrightarrow> uvarint v = [char_of v]"
  by (simp add: uvarint.simps)

lemma uvarint_large: "\<not> v < 128 \<Longrightarrow> uvarint v = char_of (v mod 128 + 128) # uvarint (v div 128)"
  by (simp add: uvarint.simps [of v])

lemma low_group_bound: "v mod 128 + 128 < (256 :: nat)"
  by (metis add_less_cancel_right mod_less_divisor numeral_Bit0 zero_less_numeral)

lemma uvarint_append_inj: "uvarint a @ xs = uvarint b @ ys \<Longrightarrow> a = b \<and> xs = ys"
proof (induction a arbitrary: b rule: uvarint.induct)
  case (1 a)
  note lo = low_group_bound [of a] low_group_bound [of b]
  consider "a < 128" "b < 128" | "a < 128" "\<not> b < 128" | "\<not> a < 128" "b < 128" | "\<not> a < 128" "\<not> b < 128" by blast
  then show ?case
  proof cases
    case 4
    then have "a mod 128 = b mod 128" "uvarint (a div 128) @ xs = uvarint (b div 128) @ ys"
      using "1.prems" lo by (simp_all add: uvarint_large char_of_inj)
    moreover from "1.IH" [OF 4(1) this(2)] have "a div 128 = b div 128" "xs = ys" by simp_all
    ultimately show ?thesis by (metis div_mult_mod_eq)
  qed (use "1.prems" lo in \<open>simp_all add: uvarint_small uvarint_large char_of_inj\<close>)
qed

end
