(* ===== verification/Values_Identity.thy ===== *)
theory Values_Identity
  imports Values_Error Go_Codec
begin

text \<open>
  Package \<open>internal/kernel/values\<close>, file \<open>identity.go\<close>: kinds, tenants, entity ids and
  references, resource keys, revision tokens and the percent-escaping of segments.

  Two packages from outside the repository are parameters, the fields of \<open>id_libs\<close>:
  \<open>github.com/google/uuid\<close> (\<open>Parse\<close> and \<open>String\<close>) and
  \<open>golang.org/x/text/unicode/norm\<close> (\<open>NFC.String\<close> and \<open>NFC.IsNormalString\<close>). What the
  proofs use of them is \<open>id_law\<close>: a printed UUID has no colon, and NFC is a normal form of
  valid, non-empty UTF-8 recognised by its test.

  What is proved: for each of the four identifier types the canonical text determines the
  value and the value determines the text (the locale \<open>canonical_text\<close>, interpreted four
  times), and sequence revisions are ordered only within one stream.
\<close>

subsection \<open>Libraries\<close>

record 'u id_libs =
  uuid_Parse :: "string \<Rightarrow> 'u option"
  uuid_String :: "'u \<Rightarrow> string"
  nfc_String :: "string \<Rightarrow> string"
  nfc_IsNormalString :: "string \<Rightarrow> bool"

definition nfc_law :: "'u id_libs \<Rightarrow> bool" where
  "nfc_law L \<longleftrightarrow>
     (\<forall>s. nfc_IsNormalString L s \<longleftrightarrow> nfc_String L s = s)
     \<and> (\<forall>s. nfc_String L (nfc_String L s) = nfc_String L s)
     \<and> (\<forall>s. utf8_valid s \<longrightarrow> utf8_valid (nfc_String L s))
     \<and> (\<forall>s. nfc_String L s = [] \<longleftrightarrow> s = [])"

definition id_law :: "'u id_libs \<Rightarrow> bool" where
  "id_law L \<longleftrightarrow> nfc_law L \<and> (\<forall>u. CHR '':'' \<notin> set (uuid_String L u))"

subsection \<open>Constants\<close>

definition canonicalVersionTag :: string where
  "canonicalVersionTag = ''v1''"

definition entityIDPrefix :: string where
  "entityIDPrefix = ''eid:'' @ canonicalVersionTag @ '':''"

definition entityRefPrefix :: string where
  "entityRefPrefix = ''eref:'' @ canonicalVersionTag @ '':''"

definition resourceKeyPrefix :: string where
  "resourceKeyPrefix = ''rkey:'' @ canonicalVersionTag @ '':''"

definition revisionTokenPrefix :: string where
  "revisionTokenPrefix = ''rev:'' @ canonicalVersionTag @ '':''"

definition revisionUnspecifiedTag :: string where
  "revisionUnspecifiedTag = ''unspecified''"

definition crockfordAlphabet :: string where
  "crockfordAlphabet = ''0123456789ABCDEFGHJKMNPQRSTVWXYZ''"

definition upperHex :: string where
  "upperHex = ''0123456789ABCDEF''"

subsection \<open>Kinds, tenants and opaque ids\<close>

definition Kind_Validate :: "string \<Rightarrow> verr option" where
  "Kind_Validate k =
     first_err (reject (k = []) (IdErr ErrEmptyKind))
      (first_err (reject (length k > 63) (IdErr ErrInvalidKind))
        (err_loop (\<lambda>i. let c = k ! i in
            if is_lower c then None
            else if i > 0 \<and> (is_digit c \<or> c = CHR ''_'') then None
            else Some (IdErr ErrInvalidKind))
          [0..<length k]))"

definition TenantId_Validate :: "string \<Rightarrow> verr option" where
  "TenantId_Validate t =
     first_err (reject (t = []) (IdErr ErrTenantRequired))
      (first_err (reject (length t < 2 \<or> length t > 64) (IdErr ErrInvalidTenant))
        (err_loop (\<lambda>i. let c = t ! i in
            if is_lower c \<or> is_digit c then None
            else if c = CHR ''-'' \<and> i > 0 \<and> i < length t - 1 \<and> t ! (i - 1) \<noteq> CHR ''-'' then None
            else Some (IdErr ErrInvalidTenant))
          [0..<length t]))"

definition validateOpaqueID :: "'u id_libs \<Rightarrow> string \<Rightarrow> verr option" where
  "validateOpaqueID L i =
     first_err (reject (i = []) (IdErr ErrEmptyID))
      (if length i = 36 then
         (case uuid_Parse L i of
            None \<Rightarrow> Some (IdErr ErrInvalidID)
          | Some u \<Rightarrow> reject (uuid_String L u \<noteq> i) (IdErr ErrInvalidID))
       else if length i = 26 then
         first_err (reject (hd i > CHR ''7'') (IdErr ErrInvalidID))
           (err_loop (\<lambda>c. reject (c \<notin> set crockfordAlphabet) (IdErr ErrInvalidID)) i)
       else Some (IdErr ErrInvalidID))"

subsection \<open>Entity ids and references\<close>

record EntityId =
  e_Kind :: string
  e_Id :: string

definition EntityId_Validate :: "'u id_libs \<Rightarrow> EntityId \<Rightarrow> verr option" where
  "EntityId_Validate L e = first_err (Kind_Validate (e_Kind e)) (validateOpaqueID L (e_Id e))"

definition EntityId_Canonical :: "'u id_libs \<Rightarrow> EntityId \<Rightarrow> bytes" where
  "EntityId_Canonical L e =
     (if EntityId_Validate L e \<noteq> None then []
      else entityIDPrefix @ e_Kind e @ '':'' @ e_Id e)"

definition EntityId_MarshalText :: "'u id_libs \<Rightarrow> EntityId \<Rightarrow> bytes res" where
  "EntityId_MarshalText L e = guard_res (EntityId_Validate L e) (Inr (EntityId_Canonical L e))"

definition EntityId_UnmarshalText :: "'u id_libs \<Rightarrow> bytes \<Rightarrow> EntityId res" where
  "EntityId_UnmarshalText L txt =
     (case cut_prefix entityIDPrefix txt of
        None \<Rightarrow> Inl (IdErr ErrCanonicalFormat)
      | Some body \<Rightarrow>
          (let (kind, i, ok) = cut CHR '':'' body in
           if \<not> ok \<or> CHR '':'' \<in> set i then Inl (IdErr ErrCanonicalFormat)
           else let candidate = \<lparr>e_Kind = kind, e_Id = i\<rparr> in
             guard_res (EntityId_Validate L candidate) (Inr candidate)))"

record EntityRef =
  er_Tenant :: string
  er_Kind :: string
  er_Id :: string

definition EntityRef_EntityId :: "EntityRef \<Rightarrow> EntityId" where
  "EntityRef_EntityId r = \<lparr>e_Kind = er_Kind r, e_Id = er_Id r\<rparr>"

definition EntityRef_Validate :: "'u id_libs \<Rightarrow> EntityRef \<Rightarrow> verr option" where
  "EntityRef_Validate L r =
     first_err (TenantId_Validate (er_Tenant r)) (EntityId_Validate L (EntityRef_EntityId r))"

definition EntityRef_Canonical :: "'u id_libs \<Rightarrow> EntityRef \<Rightarrow> bytes" where
  "EntityRef_Canonical L r =
     (if EntityRef_Validate L r \<noteq> None then []
      else entityRefPrefix @ er_Tenant r @ '':'' @ er_Kind r @ '':'' @ er_Id r)"

definition EntityRef_MarshalText :: "'u id_libs \<Rightarrow> EntityRef \<Rightarrow> bytes res" where
  "EntityRef_MarshalText L r = guard_res (EntityRef_Validate L r) (Inr (EntityRef_Canonical L r))"

definition EntityRef_UnmarshalText :: "'u id_libs \<Rightarrow> bytes \<Rightarrow> EntityRef res" where
  "EntityRef_UnmarshalText L txt =
     (case cut_prefix entityRefPrefix txt of
        None \<Rightarrow> Inl (IdErr ErrCanonicalFormat)
      | Some body \<Rightarrow>
          (let parts = split CHR '':'' body in
           if length parts \<noteq> 3 then Inl (IdErr ErrCanonicalFormat)
           else let candidate = \<lparr>er_Tenant = parts ! 0, er_Kind = parts ! 1, er_Id = parts ! 2\<rparr> in
             guard_res (EntityRef_Validate L candidate) (Inr candidate)))"

subsection \<open>Segment escaping\<close>

definition unreserved :: "char \<Rightarrow> bool" where
  "unreserved c \<longleftrightarrow>
     is_upper c \<or> is_lower c \<or> is_digit c
     \<or> c = CHR ''-'' \<or> c = CHR ''.'' \<or> c = CHR ''_'' \<or> c = CHR ''~''"

text \<open>
  The byte \<open>c>>4\<close> is \<open>of_char c div 16\<close>, \<open>c&0x0f\<close> is \<open>of_char c mod 16\<close>; both hex values of
  the decoder are below 16, so \<open>hi<<4 | lo\<close> is \<open>16 * hi + lo\<close>.
\<close>

definition escape_byte :: "char \<Rightarrow> string" where
  "escape_byte c =
     (if unreserved c then [c]
      else [CHR ''%'', upperHex ! (of_char c div 16), upperHex ! (of_char c mod 16)])"

definition escapeSegment :: "string \<Rightarrow> string" where
  "escapeSegment s =
     (let needs = \<not> list_all unreserved s in
      if \<not> needs then s else concat (map escape_byte s))"

definition upperHexValue :: "char \<Rightarrow> nat res" where
  "upperHexValue c =
     (if is_digit c then Inr (of_char c - of_char CHR ''0'')
      else if CHR ''A'' \<le> c \<and> c \<le> CHR ''F'' then Inr (of_char c - of_char CHR ''A'' + 10)
      else Inl (IdErr ErrCanonicalFormat))"

fun unescape_loop :: "string \<Rightarrow> string res" where
  "unescape_loop [] = Inr []"
| "unescape_loop (c # s) =
     (if c \<noteq> CHR ''%'' then
        if \<not> unreserved c then Inl (IdErr ErrCanonicalFormat)
        else bind_res (unescape_loop s) (\<lambda>b. Inr (c # b))
      else (case s of
          x # y # r \<Rightarrow>
            bind_res (upperHexValue x) (\<lambda>hi.
             bind_res (upperHexValue y) (\<lambda>lo.
              let decoded = char_of (16 * hi + lo) in
              if unreserved decoded then Inl (IdErr ErrCanonicalFormat)
              else bind_res (unescape_loop r) (\<lambda>b. Inr (decoded # b))))
        | _ \<Rightarrow> Inl (IdErr ErrCanonicalFormat)))"

definition unescapeSegment :: "'u id_libs \<Rightarrow> string \<Rightarrow> string res" where
  "unescapeSegment L s =
     (if s = [] then Inl (IdErr ErrEmptyResourceKey)
      else bind_res (unescape_loop s) (\<lambda>out.
        if \<not> utf8_valid out then Inl (IdErr ErrInvalidUTF8)
        else if \<not> nfc_IsNormalString L out then Inl (IdErr ErrNotNFC)
        else Inr out))"

subsection \<open>Resource keys\<close>

record ResourceKey =
  rk_Tenant :: string
  rk_ResourceType :: string
  rk_Segments :: "string list"

definition ResourceKey_Validate :: "'u id_libs \<Rightarrow> ResourceKey \<Rightarrow> verr option" where
  "ResourceKey_Validate L k =
     first_err (TenantId_Validate (rk_Tenant k))
      (first_err (Kind_Validate (rk_ResourceType k))
        (first_err (reject (rk_Segments k = []) (IdErr ErrEmptyResourceKey))
          (err_loop (\<lambda>s.
              first_err (reject (s = []) (IdErr ErrEmptyResourceKey))
               (first_err (reject (\<not> utf8_valid s) (IdErr ErrInvalidUTF8))
                 (reject (\<not> nfc_IsNormalString L s) (IdErr ErrNotNFC))))
            (rk_Segments k))))"

primrec normalize_segments :: "'u id_libs \<Rightarrow> string list \<Rightarrow> string list res" where
  "normalize_segments L [] = Inr []"
| "normalize_segments L (s # ss) =
     (if \<not> utf8_valid s then Inl (IdErr ErrInvalidUTF8)
      else bind_res (normalize_segments L ss) (\<lambda>r. Inr (nfc_String L s # r)))"

definition NewResourceKey :: "'u id_libs \<Rightarrow> string \<Rightarrow> string \<Rightarrow> string list \<Rightarrow> ResourceKey res" where
  "NewResourceKey L tenant resourceType segments =
     bind_res (normalize_segments L segments) (\<lambda>normalized.
      let key = \<lparr>rk_Tenant = tenant, rk_ResourceType = resourceType, rk_Segments = normalized\<rparr> in
      guard_res (ResourceKey_Validate L key) (Inr key))"

definition ResourceKey_Equal :: "ResourceKey \<Rightarrow> ResourceKey \<Rightarrow> bool" where
  "ResourceKey_Equal k l \<longleftrightarrow>
     rk_Tenant k = rk_Tenant l \<and> rk_ResourceType k = rk_ResourceType l
     \<and> rk_Segments k = rk_Segments l"

definition ResourceKey_Canonical :: "'u id_libs \<Rightarrow> ResourceKey \<Rightarrow> bytes" where
  "ResourceKey_Canonical L k =
     (if ResourceKey_Validate L k \<noteq> None then []
      else resourceKeyPrefix @ rk_Tenant k @ '':'' @ rk_ResourceType k @ '':''
           @ join CHR ''/'' (map escapeSegment (rk_Segments k)))"

definition ResourceKey_MarshalText :: "'u id_libs \<Rightarrow> ResourceKey \<Rightarrow> bytes res" where
  "ResourceKey_MarshalText L k =
     guard_res (ResourceKey_Validate L k) (Inr (ResourceKey_Canonical L k))"

primrec unescape_all :: "'u id_libs \<Rightarrow> string list \<Rightarrow> string list res" where
  "unescape_all L [] = Inr []"
| "unescape_all L (raw # raws) =
     bind_res (unescapeSegment L raw) (\<lambda>s. bind_res (unescape_all L raws) (\<lambda>ss. Inr (s # ss)))"

definition ResourceKey_UnmarshalText :: "'u id_libs \<Rightarrow> bytes \<Rightarrow> ResourceKey res" where
  "ResourceKey_UnmarshalText L txt =
     (case cut_prefix resourceKeyPrefix txt of
        None \<Rightarrow> Inl (IdErr ErrCanonicalFormat)
      | Some body \<Rightarrow>
          (let parts = split CHR '':'' body in
           if length parts \<noteq> 3 then Inl (IdErr ErrCanonicalFormat)
           else bind_res (unescape_all L (split CHR ''/'' (parts ! 2))) (\<lambda>segments.
             let candidate = \<lparr>rk_Tenant = parts ! 0, rk_ResourceType = parts ! 1,
                              rk_Segments = segments\<rparr> in
             guard_res (ResourceKey_Validate L candidate) (Inr candidate))))"

subsection \<open>Revision tokens\<close>

datatype revisionSelector =
    revisionSelectorNone | revisionSelectorSequence | revisionSelectorOpaque
  | revisionSelectorOther nat

record RevisionToken =
  rt_specified :: bool
  rt_selector :: revisionSelector
  rt_stream :: string
  rt_sequence :: nat
  rt_opaque :: string

definition UnspecifiedRevision :: RevisionToken where
  "UnspecifiedRevision =
     \<lparr>rt_specified = False, rt_selector = revisionSelectorNone, rt_stream = [],
      rt_sequence = 0, rt_opaque = []\<rparr>"

definition validateStream :: "'u id_libs \<Rightarrow> string \<Rightarrow> verr option" where
  "validateStream L stream =
     first_err (reject (stream = []) (IdErr ErrRevisionStreamRequired))
      (first_err (reject (\<not> utf8_valid stream) (IdErr ErrInvalidUTF8))
        (reject (nfc_String L stream = revisionUnspecifiedTag) (IdErr ErrRevisionStreamRequired)))"

definition NewSequenceRevision :: "'u id_libs \<Rightarrow> string \<Rightarrow> nat \<Rightarrow> RevisionToken res" where
  "NewSequenceRevision L stream sequence =
     guard_res (validateStream L stream)
      (Inr \<lparr>rt_specified = True, rt_selector = revisionSelectorSequence,
            rt_stream = nfc_String L stream, rt_sequence = sequence, rt_opaque = []\<rparr>)"

definition NewOpaqueRevision :: "'u id_libs \<Rightarrow> string \<Rightarrow> bytes \<Rightarrow> RevisionToken res" where
  "NewOpaqueRevision L stream cas =
     guard_res (validateStream L stream)
      (guard_res (reject (length cas = 0) (IdErr ErrAmbiguousRevision))
        (Inr \<lparr>rt_specified = True, rt_selector = revisionSelectorOpaque,
              rt_stream = nfc_String L stream, rt_sequence = 0,
              rt_opaque = EncodeToString cas\<rparr>))"

definition RevisionToken_Sequence :: "RevisionToken \<Rightarrow> nat \<times> bool" where
  "RevisionToken_Sequence r =
     (rt_sequence r, rt_specified r \<and> rt_selector r = revisionSelectorSequence)"

definition RevisionToken_Opaque :: "RevisionToken \<Rightarrow> bytes \<times> bool" where
  "RevisionToken_Opaque r =
     (if \<not> rt_specified r \<or> rt_selector r \<noteq> revisionSelectorOpaque then ([], False)
      else (case DecodeString (rt_opaque r) of None \<Rightarrow> ([], False) | Some b \<Rightarrow> (b, True)))"

definition CompareInStream :: "RevisionToken \<Rightarrow> RevisionToken \<Rightarrow> int res" where
  "CompareInStream r s =
     (if \<not> rt_specified r \<or> \<not> rt_specified s then Inl (IdErr ErrRevisionUnspecified)
      else if rt_stream r \<noteq> rt_stream s then Inl (IdErr ErrRevisionStreamMismatch)
      else if rt_selector r \<noteq> revisionSelectorSequence \<or> rt_selector s \<noteq> revisionSelectorSequence
        then Inl (IdErr ErrRevisionNotOrdered)
      else if rt_sequence r < rt_sequence s then Inr (- 1)
      else if rt_sequence r > rt_sequence s then Inr 1
      else Inr 0)"

definition RevisionToken_Validate :: "'u id_libs \<Rightarrow> RevisionToken \<Rightarrow> verr option" where
  "RevisionToken_Validate L r =
     (if \<not> rt_specified r then
        reject (rt_selector r \<noteq> revisionSelectorNone \<or> rt_stream r \<noteq> [] \<or> rt_sequence r \<noteq> 0
                \<or> rt_opaque r \<noteq> []) (IdErr ErrAmbiguousRevision)
      else first_err (validateStream L (rt_stream r))
        (case rt_selector r of
           revisionSelectorSequence \<Rightarrow> reject (rt_opaque r \<noteq> []) (IdErr ErrAmbiguousRevision)
         | revisionSelectorOpaque \<Rightarrow>
             first_err (reject (rt_sequence r \<noteq> 0) (IdErr ErrAmbiguousRevision))
               (reject (rt_opaque r = []) (IdErr ErrAmbiguousRevision))
         | _ \<Rightarrow> Some (IdErr ErrAmbiguousRevision)))"

definition RevisionToken_Canonical :: "'u id_libs \<Rightarrow> RevisionToken \<Rightarrow> bytes" where
  "RevisionToken_Canonical L r =
     (if RevisionToken_Validate L r \<noteq> None then []
      else if \<not> rt_specified r then revisionTokenPrefix @ revisionUnspecifiedTag
      else let body = revisionTokenPrefix @ escapeSegment (rt_stream r) @ '':'' in
        if rt_selector r = revisionSelectorSequence then body @ ''s'' @ nat_digits (rt_sequence r)
        else body @ ''o'' @ rt_opaque r)"

definition RevisionToken_MarshalText :: "'u id_libs \<Rightarrow> RevisionToken \<Rightarrow> bytes res" where
  "RevisionToken_MarshalText L r =
     guard_res (RevisionToken_Validate L r) (Inr (RevisionToken_Canonical L r))"

definition opaque_char :: "char \<Rightarrow> bool" where
  "opaque_char c \<longleftrightarrow> is_upper c \<or> is_lower c \<or> is_digit c \<or> c = CHR ''-'' \<or> c = CHR ''_''"

definition RevisionToken_UnmarshalText :: "'u id_libs \<Rightarrow> bytes \<Rightarrow> RevisionToken res" where
  "RevisionToken_UnmarshalText L txt =
     (case cut_prefix revisionTokenPrefix txt of
        None \<Rightarrow> Inl (IdErr ErrCanonicalFormat)
      | Some body \<Rightarrow>
         if body = revisionUnspecifiedTag then Inr UnspecifiedRevision
         else (let (rawStream, selector, ok) = cut CHR '':'' body in
           if \<not> ok \<or> CHR '':'' \<in> set selector then Inl (IdErr ErrCanonicalFormat)
           else bind_res (unescapeSegment L rawStream) (\<lambda>stream.
             if length selector < 2 then Inl (IdErr ErrAmbiguousRevision)
             else if hd selector = CHR ''s'' then
               (let digits = tl selector in
                if \<not> list_all is_digit digits then Inl (IdErr ErrCanonicalFormat)
                else if length digits > 1 \<and> hd digits = CHR ''0'' then Inl (IdErr ErrCanonicalFormat)
                else if digits_val digits \<ge> 2 ^ 64 then Inl (IdErr ErrCanonicalFormat)
                else NewSequenceRevision L stream (digits_val digits))
             else if hd selector = CHR ''o'' then
               (let encoded = tl selector in
                if \<not> list_all opaque_char encoded then Inl (IdErr ErrCanonicalFormat)
                else (case DecodeString encoded of
                    None \<Rightarrow> Inl (IdErr ErrCanonicalFormat)
                  | Some cas \<Rightarrow> NewOpaqueRevision L stream cas))
             else Inl (IdErr ErrAmbiguousRevision))))"

subsection \<open>Identifiers contain no separator\<close>

lemma lower_digit_not_colon [simp]: "\<not> is_lower CHR '':''" "\<not> is_digit CHR '':''" "\<not> is_upper CHR '':''"
  by (simp_all add: is_lower_def is_digit_def is_upper_def)

lemma Kind_no_colon: "Kind_Validate k = None \<Longrightarrow> CHR '':'' \<notin> set k"
proof
  assume v: "Kind_Validate k = None" and "CHR '':'' \<in> set k"
  then obtain i where "i < length k" "k ! i = CHR '':''" by (auto simp: in_set_conv_nth)
  with v show False by (auto simp: Kind_Validate_def Let_def split: if_splits dest!: bspec [of _ _ i])
qed

lemma Tenant_no_colon: "TenantId_Validate t = None \<Longrightarrow> CHR '':'' \<notin> set t"
proof
  assume v: "TenantId_Validate t = None" and "CHR '':'' \<in> set t"
  then obtain i where "i < length t" "t ! i = CHR '':''" by (auto simp: in_set_conv_nth)
  with v show False by (auto simp: TenantId_Validate_def Let_def split: if_splits dest!: bspec [of _ _ i])
qed

lemma crockford_no_colon: "CHR '':'' \<notin> set crockfordAlphabet"
  by (simp add: crockfordAlphabet_def)

lemma opaque_id_no_colon: "id_law L \<Longrightarrow> validateOpaqueID L i = None \<Longrightarrow> CHR '':'' \<notin> set i"
  using crockford_no_colon
  by (auto simp: validateOpaqueID_def id_law_def split: if_splits option.splits)

lemmas no_colon = Kind_no_colon Tenant_no_colon opaque_id_no_colon

subsection \<open>Escaping\<close>

lemma upperHex_value: "n < 16 \<Longrightarrow> upperHexValue (upperHex ! n) = Inr n"
proof -
  assume "n < 16"
  moreover have "list_all (\<lambda>n. upperHexValue (upperHex ! n) = Inr n) [0..<16]"
    by (simp add: upperHex_def upt_rec upperHexValue_def is_digit_def)
  ultimately show ?thesis by (simp add: list_all_iff)
qed

lemma upperHexValue_range:
  "upperHexValue c = Inr n \<Longrightarrow> n < 10 \<and> of_char c = 48 + n \<or> 10 \<le> n \<and> n < 16 \<and> of_char c = 55 + n"
  by (auto simp: upperHexValue_def is_digit_def less_eq_char_def split: if_splits)

lemma upperHexValue_Inr:
  assumes "upperHexValue c = Inr n" shows "n < 16 \<and> upperHex ! n = c"
proof -
  have n: "n < 16" using upperHexValue_range [OF assms] by auto
  have "(of_char (upperHex ! n) :: nat) = of_char c"
    using upperHexValue_range [OF assms] upperHexValue_range [OF upperHex_value [OF n]]
    by (elim disjE conjE) linarith+
  then show ?thesis using n by simp
qed

lemma unreserved_not: "\<not> unreserved CHR ''%''" "\<not> unreserved CHR '':''" "\<not> unreserved CHR ''/''"
  by (simp_all add: unreserved_def is_upper_def is_lower_def is_digit_def)

lemma escapeSegment_concat: "escapeSegment s = concat (map escape_byte s)"
proof -
  have "list_all unreserved s \<Longrightarrow> concat (map escape_byte s) = s"
    by (induction s) (auto simp: escape_byte_def)
  then show ?thesis by (auto simp: escapeSegment_def Let_def)
qed

lemma byte_halves: "char_of (16 * (of_char c div 16) + of_char c mod 16 :: nat) = c"
  by simp

lemma unescape_escape_byte:
  "unescape_loop (escape_byte c @ r) = bind_res (unescape_loop r) (\<lambda>b. Inr (c # b))"
proof (cases "unreserved c")
  case True
  then show ?thesis using unreserved_not by (auto simp: escape_byte_def)
next
  case False
  have "upperHexValue (upperHex ! (of_char c div 16)) = Inr (of_char c div 16)"
    by (rule upperHex_value) (simp add: div_less_iff_less_mult)
  moreover have "upperHexValue (upperHex ! (of_char c mod 16)) = Inr (of_char c mod 16)"
    by (rule upperHex_value) simp
  ultimately show ?thesis using False by (simp add: escape_byte_def Let_def byte_halves)
qed

lemma unescape_escape [codec_simps]: "unescape_loop (escapeSegment s) = Inr s"
  by (induction s) (simp_all add: escapeSegment_concat unescape_escape_byte)

lemma escape_unescape: "unescape_loop t = Inr s \<Longrightarrow> escapeSegment s = t"
proof (induction t arbitrary: s rule: unescape_loop.induct)
  case 1
  then show ?case by (simp add: escapeSegment_concat)
next
  case (2 c t)
  show ?case
  proof (cases "c = CHR ''%''")
    case False
    with 2 show ?thesis by (auto simp: escapeSegment_concat escape_byte_def split: if_splits)
  next
    case True
    then obtain x y r where t: "t = x # y # r" using "2.prems" by (auto split: list.splits)
    from "2.prems" True t obtain hi lo b where h: "upperHexValue x = Inr hi" "upperHexValue y = Inr lo"
      and nu: "\<not> unreserved (char_of (16 * hi + lo))" and b: "unescape_loop r = Inr b"
      and s: "s = char_of (16 * hi + lo) # b" by (auto simp: Let_def split: if_splits)
    have n: "hi < 16" "upperHex ! hi = x" "lo < 16" "upperHex ! lo = y"
      using upperHexValue_Inr h by blast+
    have "escapeSegment b = r" using "2.IH"(2) True t h nu b by simp
    moreover have "escape_byte (char_of (16 * hi + lo)) = [CHR ''%'', x, y]"
      using nu n by (simp add: escape_byte_def)
    ultimately show ?thesis using True t s by (simp add: escapeSegment_concat)
  qed
qed

lemma escape_no_sep: "CHR '':'' \<notin> set (escapeSegment s)" "CHR ''/'' \<notin> set (escapeSegment s)"
proof -
  have h: "n < 16 \<Longrightarrow> upperHex ! n \<noteq> CHR '':'' \<and> upperHex ! n \<noteq> CHR ''/''" for n
    using upperHex_value [of n] by (auto simp: upperHexValue_def is_digit_def split: if_splits)
  have "of_char c div 16 < (16::nat)" for c by (simp add: div_less_iff_less_mult)
  then have "CHR '':'' \<notin> set (escape_byte c) \<and> CHR ''/'' \<notin> set (escape_byte c)" for c
    using h [of "of_char c div 16"] h [of "of_char c mod 16"] unreserved_not by (auto simp: escape_byte_def)
  then show "CHR '':'' \<notin> set (escapeSegment s)" "CHR ''/'' \<notin> set (escapeSegment s)"
    by (auto simp: escapeSegment_concat)
qed

lemma escape_Nil_iff [simp]: "escapeSegment s = [] \<longleftrightarrow> s = []"
  by (cases s) (auto simp: escapeSegment_concat escape_byte_def)

lemma unescapeSegment_Inr_iff:
  "unescapeSegment L t = Inr s \<longleftrightarrow>
     t = escapeSegment s \<and> s \<noteq> [] \<and> utf8_valid s \<and> nfc_IsNormalString L s"
proof
  assume "unescapeSegment L t = Inr s"
  then show "t = escapeSegment s \<and> s \<noteq> [] \<and> utf8_valid s \<and> nfc_IsNormalString L s"
    using escape_unescape [of t s] by (auto simp: unescapeSegment_def split: if_splits)
next
  assume "t = escapeSegment s \<and> s \<noteq> [] \<and> utf8_valid s \<and> nfc_IsNormalString L s"
  then show "unescapeSegment L t = Inr s" by (simp add: unescapeSegment_def unescape_escape)
qed

lemma unescape_all_Inr_iff:
  "unescape_all L ts = Inr ss \<longleftrightarrow>
     ts = map escapeSegment ss \<and> (\<forall>s\<in>set ss. s \<noteq> [] \<and> utf8_valid s \<and> nfc_IsNormalString L s)"
proof (induction ts arbitrary: ss)
  case Nil
  then show ?case by auto
next
  case (Cons t ts)
  then show ?case by (cases ss) (auto simp: unescapeSegment_Inr_iff)
qed

subsection \<open>The contract of a canonical text encoding\<close>

text \<open>
  An encoding relative to the libraries \<open>L\<close> it is built on: every usable value has a text
  that decodes to it, and every text that decodes is the text of the usable value it decodes
  to. The consequences are that neither a value nor a text has a second partner.
\<close>

locale canonical_text =
  fixes lawful :: "'l \<Rightarrow> bool"
    and usable :: "'l \<Rightarrow> 'a \<Rightarrow> bool"
    and marshal :: "'l \<Rightarrow> 'a \<Rightarrow> bytes res"
    and unmarshal :: "'l \<Rightarrow> bytes \<Rightarrow> 'a res"
  assumes encode: "lawful L \<Longrightarrow> usable L x \<Longrightarrow> \<exists>t. marshal L x = Inr t \<and> unmarshal L t = Inr x"
    and decode: "lawful L \<Longrightarrow> unmarshal L t = Inr x \<Longrightarrow> usable L x \<and> marshal L x = Inr t"
begin

lemma unmarshal_iff: "lawful L \<Longrightarrow> unmarshal L t = Inr x \<longleftrightarrow> usable L x \<and> marshal L x = Inr t"
  using encode decode by (metis sum.inject(2))

lemma one_spelling:
  "lawful L \<Longrightarrow> unmarshal L s = Inr x \<Longrightarrow> unmarshal L t = Inr x \<Longrightarrow> s = t"
  by (simp add: unmarshal_iff)

lemma one_meaning:
  "lawful L \<Longrightarrow> usable L x \<Longrightarrow> usable L y \<Longrightarrow> marshal L x = marshal L y \<Longrightarrow> x = y"
  using encode by (metis sum.inject(2))

end

lemma colon_parts_iff:
  assumes "CHR '':'' \<notin> set a" "CHR '':'' \<notin> set b"
  shows "cut CHR '':'' (a @ '':'' @ b) = (a, b, True)"
    and "CHR '':'' \<notin> set c \<Longrightarrow> split CHR '':'' (a @ '':'' @ b @ '':'' @ c) = [a, b, c]"
  using assms by (simp_all add: cut_append split_append split_no_sep)

lemma three_parts:
  assumes "length (split CHR '':'' s) = 3"
  obtains a b c where "split CHR '':'' s = [a, b, c]" "s = a @ '':'' @ b @ '':'' @ c"
    "CHR '':'' \<notin> set c"
proof -
  from assms obtain a b c where p: "split CHR '':'' s = [a, b, c]"
    by (auto simp: length_Suc_conv numeral_3_eq_3)
  moreover have "s = a @ '':'' @ b @ '':'' @ c" using join_split [of "CHR '':''" s] p by simp
  moreover have "CHR '':'' \<notin> set c" by (rule split_parts_no_sep [of _ _ s]) (simp add: p)
  ultimately show ?thesis using that by blast
qed

lemma join_no_char: "c \<noteq> sep \<Longrightarrow> \<forall>x\<in>set xs. c \<notin> set x \<Longrightarrow> c \<notin> set (join sep xs)"
  by (induction sep xs rule: join.induct) auto

lemma id_eta:
  "\<lparr>e_Kind = e_Kind e, e_Id = e_Id e\<rparr> = e"
  "\<lparr>er_Tenant = er_Tenant r, er_Kind = er_Kind r, er_Id = er_Id r\<rparr> = r"
  "\<lparr>rk_Tenant = rk_Tenant k, rk_ResourceType = rk_ResourceType k, rk_Segments = rk_Segments k\<rparr> = k"
  by (cases e, simp) (cases r, simp, cases k, simp)

interpretation entity_id: canonical_text id_law "\<lambda>L e. EntityId_Validate L e = None"
  EntityId_MarshalText EntityId_UnmarshalText
proof unfold_locales
  fix L :: "'u id_libs" and e
  assume "id_law L" and v: "EntityId_Validate L e = None"
  then have "CHR '':'' \<notin> set (e_Kind e)" "CHR '':'' \<notin> set (e_Id e)"
    by (auto simp: EntityId_Validate_def no_colon)
  then show "\<exists>t. EntityId_MarshalText L e = Inr t \<and> EntityId_UnmarshalText L t = Inr e"
    using v by (simp add: EntityId_MarshalText_def EntityId_Canonical_def EntityId_UnmarshalText_def
        colon_parts_iff [simplified] Let_def id_eta)
next
  fix L :: "'u id_libs" and t e
  assume "EntityId_UnmarshalText L t = Inr e"
  then show "EntityId_Validate L e = None \<and> EntityId_MarshalText L e = Inr t"
    by (auto simp: EntityId_UnmarshalText_def EntityId_MarshalText_def EntityId_Canonical_def
        Let_def cut_prefix_Some_iff split: option.splits prod.splits if_splits dest!: cut_found)
qed

interpretation entity_ref: canonical_text id_law "\<lambda>L r. EntityRef_Validate L r = None"
  EntityRef_MarshalText EntityRef_UnmarshalText
proof unfold_locales
  fix L :: "'u id_libs" and r
  assume "id_law L" and v: "EntityRef_Validate L r = None"
  then have "CHR '':'' \<notin> set (er_Tenant r)" "CHR '':'' \<notin> set (er_Kind r)" "CHR '':'' \<notin> set (er_Id r)"
    by (auto simp: EntityRef_Validate_def EntityId_Validate_def EntityRef_EntityId_def no_colon)
  then show "\<exists>t. EntityRef_MarshalText L r = Inr t \<and> EntityRef_UnmarshalText L t = Inr r"
    using v by (simp add: EntityRef_MarshalText_def EntityRef_Canonical_def
        EntityRef_UnmarshalText_def colon_parts_iff [simplified] Let_def id_eta)
next
  fix L :: "'u id_libs" and t r
  assume "EntityRef_UnmarshalText L t = Inr r"
  then show "EntityRef_Validate L r = None \<and> EntityRef_MarshalText L r = Inr t"
    by (auto simp: EntityRef_UnmarshalText_def EntityRef_MarshalText_def EntityRef_Canonical_def
        Let_def cut_prefix_Some_iff split: option.splits if_splits elim!: three_parts)
qed

interpretation resource_key: canonical_text id_law "\<lambda>L k. ResourceKey_Validate L k = None"
  ResourceKey_MarshalText ResourceKey_UnmarshalText
proof unfold_locales
  fix L :: "'u id_libs" and k
  assume "id_law L" and v: "ResourceKey_Validate L k = None"
  let ?segs = "join CHR ''/'' (map escapeSegment (rk_Segments k))"
  have parts: "CHR '':'' \<notin> set (rk_Tenant k)" "CHR '':'' \<notin> set (rk_ResourceType k)"
    "rk_Segments k \<noteq> []"
    and segs: "\<forall>s\<in>set (rk_Segments k). s \<noteq> [] \<and> utf8_valid s \<and> nfc_IsNormalString L s"
    using v by (auto simp: ResourceKey_Validate_def no_colon)
  have "CHR '':'' \<notin> set ?segs" by (rule join_no_char) (simp_all add: escape_no_sep)
  moreover have "split CHR ''/'' ?segs = map escapeSegment (rk_Segments k)"
    using parts by (simp add: split_join escape_no_sep)
  moreover have "unescape_all L (map escapeSegment (rk_Segments k)) = Inr (rk_Segments k)"
    using segs by (simp add: unescape_all_Inr_iff)
  ultimately show "\<exists>t. ResourceKey_MarshalText L k = Inr t \<and> ResourceKey_UnmarshalText L t = Inr k"
    using v parts by (simp add: ResourceKey_MarshalText_def ResourceKey_Canonical_def
        ResourceKey_UnmarshalText_def colon_parts_iff [simplified] Let_def id_eta)
next
  fix L :: "'u id_libs" and t k
  assume "ResourceKey_UnmarshalText L t = Inr k"
  then obtain body parts where t: "t = resourceKeyPrefix @ body" and p: "parts = split CHR '':'' body"
    and l: "length parts = 3"
    and u: "unescape_all L (split CHR ''/'' (parts ! 2)) = Inr (rk_Segments k)"
    and k: "rk_Tenant k = parts ! 0" "rk_ResourceType k = parts ! 1"
    and v: "ResourceKey_Validate L k = None"
    by (auto simp: ResourceKey_UnmarshalText_def Let_def cut_prefix_Some_iff
        split: option.splits if_splits)
  obtain a b c where abc: "parts = [a, b, c]" "body = a @ '':'' @ b @ '':'' @ c"
    using three_parts l p by metis
  have "split CHR ''/'' c = map escapeSegment (rk_Segments k)"
    using u abc by (simp add: unescape_all_Inr_iff)
  then have "join CHR ''/'' (map escapeSegment (rk_Segments k)) = c"
    using join_split [of "CHR ''/''" c] by simp
  then show "ResourceKey_Validate L k = None \<and> ResourceKey_MarshalText L k = Inr t"
    using v t abc k by (simp add: ResourceKey_MarshalText_def ResourceKey_Canonical_def)
qed

subsection \<open>Revision tokens\<close>

text \<open>
  The tokens that the constructors build: the zero value, or a specified token with a
  normalised stream whose sequence fits 64 bits or whose bytes are a base64url spelling.
\<close>

definition wf_token :: "'u id_libs \<Rightarrow> RevisionToken \<Rightarrow> bool" where
  "wf_token L r \<longleftrightarrow>
     RevisionToken_Validate L r = None \<and> nfc_IsNormalString L (rt_stream r)
     \<and> rt_sequence r < 2 ^ 64
     \<and> (\<exists>cas. rt_opaque r = EncodeToString cas)"

lemma nfc_lawD:
  assumes "id_law L"
  shows "nfc_IsNormalString L s \<longleftrightarrow> nfc_String L s = s"
    and "nfc_String L (nfc_String L s) = nfc_String L s"
    and "utf8_valid s \<Longrightarrow> utf8_valid (nfc_String L s)"
    and "nfc_String L s = [] \<longleftrightarrow> s = []"
  using assms by (auto simp: id_law_def nfc_law_def)

lemma validateStream_nfc:
  "id_law L \<Longrightarrow> validateStream L s = None \<Longrightarrow> validateStream L (nfc_String L s) = None"
  by (simp add: validateStream_def nfc_lawD)

lemma opaque_empty: "\<exists>cas. [] = EncodeToString cas"
  by (rule exI [of _ "[]"]) (simp add: EncodeToString_def)

lemma NewSequenceRevision_wf:
  "id_law L \<Longrightarrow> n < 2 ^ 64 \<Longrightarrow> NewSequenceRevision L stream n = Inr r \<Longrightarrow> wf_token L r"
  by (simp add: NewSequenceRevision_def wf_token_def RevisionToken_Validate_def validateStream_nfc
      nfc_lawD opaque_empty)
    (clarsimp simp: validateStream_nfc nfc_lawD opaque_empty)

lemma NewOpaqueRevision_wf:
  "id_law L \<Longrightarrow> NewOpaqueRevision L stream cas = Inr r \<Longrightarrow> wf_token L r"
  by (simp add: NewOpaqueRevision_def, clarsimp simp: wf_token_def RevisionToken_Validate_def
      validateStream_nfc nfc_lawD, blast)

lemma UnspecifiedRevision_wf: "id_law L \<Longrightarrow> wf_token L UnspecifiedRevision"
  by (simp add: UnspecifiedRevision_def wf_token_def RevisionToken_Validate_def nfc_lawD opaque_empty)

lemmas built_token_wf = NewSequenceRevision_wf NewOpaqueRevision_wf UnspecifiedRevision_wf

lemma b64_alphabet_opaque: "list_all opaque_char b64_alphabet"
  by (simp add: b64_alphabet_def opaque_char_def is_upper_def is_lower_def is_digit_def)

lemma encoded_opaque: "list_all opaque_char (EncodeToString cas)"
  using b64_alphabet_opaque EncodeToString_is_b64 [of cas] by (auto simp: list_all_iff is_b64_def)

lemma opaque_char_not: "\<not> opaque_char (CHR 10)" "\<not> opaque_char (CHR 13)"
  by (simp_all add: opaque_char_def is_upper_def is_lower_def is_digit_def)

lemma opaque_no_newline:
  "list_all opaque_char s \<Longrightarrow> CHR 10 \<notin> set s" "list_all opaque_char s \<Longrightarrow> CHR 13 \<notin> set s"
  using opaque_char_not by (auto simp: list_all_iff simp del: One_nat_def)

lemma escape_tag: "escapeSegment revisionUnspecifiedTag = revisionUnspecifiedTag"
  by (simp add: escapeSegment_def revisionUnspecifiedTag_def unreserved_def is_lower_def)

lemma tag_no_colon: "CHR '':'' \<notin> set revisionUnspecifiedTag"
  by (simp add: revisionUnspecifiedTag_def)


lemma wf_token_cases:
  assumes "id_law L" and w: "wf_token L r"
  obtains (unspecified) "r = UnspecifiedRevision"
  | (sequence) stream n where "NewSequenceRevision L stream n = Inr r" "rt_stream r = stream"
      "rt_sequence r = n" "n < 2 ^ 64" "rt_selector r = revisionSelectorSequence" "rt_specified r"
  | (opaque) stream cas where "NewOpaqueRevision L stream cas = Inr r" "rt_stream r = stream"
      "rt_opaque r = EncodeToString cas" "rt_selector r = revisionSelectorOpaque" "rt_specified r"
proof (cases "rt_specified r")
  case False
  with w have "r = UnspecifiedRevision"
    by (cases r) (simp add: wf_token_def RevisionToken_Validate_def UnspecifiedRevision_def)
  then show ?thesis by (rule unspecified)
next
  case True
  then have st: "validateStream L (rt_stream r) = None" "nfc_String L (rt_stream r) = rt_stream r"
    using w assms by (simp_all add: wf_token_def RevisionToken_Validate_def nfc_lawD)
  show ?thesis
  proof (cases "rt_selector r")
    case revisionSelectorSequence
    then have "NewSequenceRevision L (rt_stream r) (rt_sequence r) = Inr r"
      using w True st by (cases r) (simp add: NewSequenceRevision_def wf_token_def RevisionToken_Validate_def)
    then show ?thesis using sequence w True revisionSelectorSequence by (simp add: wf_token_def)
  next
    case revisionSelectorOpaque
    from w obtain cas where cas: "rt_opaque r = EncodeToString cas" by (auto simp: wf_token_def)
    then have "NewOpaqueRevision L (rt_stream r) cas = Inr r"
      using w True st revisionSelectorOpaque
      by (cases r) (auto simp: NewOpaqueRevision_def wf_token_def RevisionToken_Validate_def)
    then show ?thesis using opaque True cas revisionSelectorOpaque by simp
  qed (use w True in \<open>simp_all add: wf_token_def RevisionToken_Validate_def\<close>)
qed

lemma decode_selector:
  assumes w: "wf_token L r" and sp: "rt_specified r"
    and c: "CHR '':'' \<notin> set sel"
  shows "RevisionToken_UnmarshalText L (revisionTokenPrefix @ escapeSegment (rt_stream r) @ '':'' @ sel)
    = (if length sel < 2 then Inl (IdErr ErrAmbiguousRevision)
       else if hd sel = CHR ''s'' then
         (if \<not> list_all is_digit (tl sel) then Inl (IdErr ErrCanonicalFormat)
          else if length (tl sel) > 1 \<and> hd (tl sel) = CHR ''0'' then Inl (IdErr ErrCanonicalFormat)
          else if digits_val (tl sel) \<ge> 2 ^ 64 then Inl (IdErr ErrCanonicalFormat)
          else NewSequenceRevision L (rt_stream r) (digits_val (tl sel)))
       else if hd sel = CHR ''o'' then
         (if \<not> list_all opaque_char (tl sel) then Inl (IdErr ErrCanonicalFormat)
          else (case DecodeString (tl sel) of
              None \<Rightarrow> Inl (IdErr ErrCanonicalFormat)
            | Some cas \<Rightarrow> NewOpaqueRevision L (rt_stream r) cas))
       else Inl (IdErr ErrAmbiguousRevision))"
proof -
  let ?body = "escapeSegment (rt_stream r) @ '':'' @ sel"
  have "CHR '':'' \<in> set ?body" by simp
  then have "?body \<noteq> revisionUnspecifiedTag" using tag_no_colon by metis
  moreover have "unescapeSegment L (escapeSegment (rt_stream r)) = Inr (rt_stream r)"
    using w sp by (simp add: unescapeSegment_Inr_iff wf_token_def RevisionToken_Validate_def validateStream_def)
  moreover have "cut CHR '':'' ?body = (escapeSegment (rt_stream r), sel, True)"
    using escape_no_sep(1) c by (rule colon_parts_iff)
  ultimately show ?thesis using c
    by (simp only: RevisionToken_UnmarshalText_def cut_prefix_append option.case if_False
        Let_def prod.case bind_res_simps simp_thms)
qed

lemma token_encode:
  assumes L: "id_law L" and w: "wf_token L r"
  shows "\<exists>t. RevisionToken_MarshalText L r = Inr t \<and> RevisionToken_UnmarshalText L t = Inr r"
  using L w
proof (cases rule: wf_token_cases)
  case unspecified
  then show ?thesis
    using w by (simp add: RevisionToken_MarshalText_def RevisionToken_Canonical_def wf_token_def
        RevisionToken_UnmarshalText_def UnspecifiedRevision_def)
next
  case (sequence stream n)
  have m: "RevisionToken_MarshalText L r
      = Inr (revisionTokenPrefix @ escapeSegment (rt_stream r) @ '':'' @ ''s'' @ nat_digits n)"
    using w sequence by (simp add: RevisionToken_MarshalText_def RevisionToken_Canonical_def wf_token_def)
  have ds: "list_all is_digit (nat_digits n)" by (simp add: list_all_iff nat_digits_are_digits)
  then have "CHR '':'' \<notin> set (nat_digits n)" by (auto simp: list_all_iff)
  moreover have "\<not> (length (nat_digits n) > 1 \<and> hd (nat_digits n) = CHR ''0'')"
    using nat_digits_hd [of n] by (cases "n = 0") (auto simp: nat_digits_small)
  moreover have "\<not> length (''s'' @ nat_digits n) < 2" by (cases "nat_digits n") auto
  ultimately show ?thesis using m decode_selector [OF w, of "''s'' @ nat_digits n"] sequence ds
    by (simp only: m) (simp del: One_nat_def)
next
  case (opaque stream cas)
  have m: "RevisionToken_MarshalText L r
      = Inr (revisionTokenPrefix @ escapeSegment (rt_stream r) @ '':'' @ ''o'' @ EncodeToString cas)"
    using w opaque by (simp add: RevisionToken_MarshalText_def RevisionToken_Canonical_def wf_token_def)
  have "rt_opaque r \<noteq> []" using w opaque by (simp add: wf_token_def RevisionToken_Validate_def)
  then have "\<not> length (''o'' @ EncodeToString cas) < 2" using opaque by (cases "EncodeToString cas") auto
  then show ?thesis using m decode_selector [OF w, of "''o'' @ EncodeToString cas"] opaque
      EncodeToString_no_colon [of cas] encoded_opaque [of cas]
    by (simp only: m) (simp del: One_nat_def)
qed

lemma token_decode_cases:
  assumes "RevisionToken_UnmarshalText L t = Inr r"
  obtains (unspecified) "t = revisionTokenPrefix @ revisionUnspecifiedTag" "r = UnspecifiedRevision"
  | (sequence) stream ds where "t = revisionTokenPrefix @ escapeSegment stream @ '':'' @ ''s'' @ ds"
      "nfc_IsNormalString L stream" "list_all is_digit ds" "ds \<noteq> []"
      "length ds = 1 \<or> hd ds \<noteq> CHR ''0''" "digits_val ds < 2 ^ 64"
      "NewSequenceRevision L stream (digits_val ds) = Inr r"
  | (opaque) stream enc cas where "t = revisionTokenPrefix @ escapeSegment stream @ '':'' @ ''o'' @ enc"
      "nfc_IsNormalString L stream" "list_all opaque_char enc" "DecodeString enc = Some cas"
      "NewOpaqueRevision L stream cas = Inr r"
proof -
  from assms obtain body where t: "t = revisionTokenPrefix @ body"
    by (auto simp: RevisionToken_UnmarshalText_def cut_prefix_Some_iff split: option.splits)
  show ?thesis
  proof (cases "body = revisionUnspecifiedTag")
    case True
    with assms t show ?thesis by (intro unspecified) (simp_all add: RevisionToken_UnmarshalText_def)
  next
    case False
    obtain raw sel ok where c: "cut CHR '':'' body = (raw, sel, ok)" by (cases "cut CHR '':'' body")
    from assms t False c obtain stream where ok: "ok" and u: "unescapeSegment L raw = Inr stream"
      and len: "\<not> length sel < 2"
      and k: "hd sel = CHR ''s'' \<and> list_all is_digit (tl sel)
          \<and> \<not> (length (tl sel) > 1 \<and> hd (tl sel) = CHR ''0'') \<and> digits_val (tl sel) < 2 ^ 64
          \<and> NewSequenceRevision L stream (digits_val (tl sel)) = Inr r
        \<or> hd sel = CHR ''o'' \<and> list_all opaque_char (tl sel)
          \<and> (\<exists>cas. DecodeString (tl sel) = Some cas \<and> NewOpaqueRevision L stream cas = Inr r)"
      by (auto simp: RevisionToken_UnmarshalText_def Let_def not_le split: if_splits option.splits)
    have body: "body = raw @ '':'' @ sel" using cut_found c ok by auto
    have raw: "raw = escapeSegment stream" "nfc_IsNormalString L stream"
      using u by (auto simp: unescapeSegment_Inr_iff)
    obtain x ds where sel: "sel = x # ds" "ds \<noteq> []" using len by (cases sel) auto
    from sel(2) have "length ds = 1 \<or> length ds > 1" by (cases ds) auto
    then show ?thesis using k sequence [of stream ds] opaque [of stream ds] t body raw sel
      by auto
  qed
qed

lemma token_decode:
  assumes L: "id_law L" and u: "RevisionToken_UnmarshalText L t = Inr r"
  shows "wf_token L r \<and> RevisionToken_MarshalText L r = Inr t"
  using u
proof (cases rule: token_decode_cases)
  case unspecified
  then show ?thesis using UnspecifiedRevision_wf [OF L]
    by (simp add: wf_token_def RevisionToken_MarshalText_def RevisionToken_Canonical_def
        UnspecifiedRevision_def)
next
  case (sequence stream ds)
  have w: "wf_token L r" by (rule NewSequenceRevision_wf [OF L sequence(6,7)])
  have r: "rt_stream r = stream" "rt_sequence r = digits_val ds" "rt_specified r"
    "rt_selector r = revisionSelectorSequence"
    using sequence(2,7) L by (auto simp: NewSequenceRevision_def nfc_lawD)
  have "nat_digits (digits_val ds) = ds"
    by (rule nat_digits_digits_val) (use sequence in \<open>simp_all add: list_all_iff\<close>)
  then show ?thesis using w r sequence(1)
    by (simp add: wf_token_def RevisionToken_MarshalText_def RevisionToken_Canonical_def)
next
  case (opaque stream enc cas)
  have w: "wf_token L r" by (rule NewOpaqueRevision_wf [OF L opaque(5)])
  have r: "rt_stream r = stream" "rt_opaque r = EncodeToString cas" "rt_specified r"
    "rt_selector r = revisionSelectorOpaque"
    using opaque(2,5) L by (auto simp: NewOpaqueRevision_def nfc_lawD)
  have "EncodeToString cas = enc"
    by (rule Encode_DecodeString [OF opaque(4)]) (rule opaque_no_newline [OF opaque(3)])+
  then show ?thesis using w r opaque(1)
    by (simp add: wf_token_def RevisionToken_MarshalText_def RevisionToken_Canonical_def)
qed

interpretation revision_token: canonical_text id_law wf_token
  RevisionToken_MarshalText RevisionToken_UnmarshalText
  by unfold_locales (fact token_encode, fact token_decode)

subsection \<open>A concrete instance of the libraries\<close>

definition is_canonical_uuid :: "string \<Rightarrow> bool" where
  "is_canonical_uuid s \<longleftrightarrow>
     length s = 36 \<and> list_all (\<lambda>i. if i \<in> {8, 13, 18, 23} then s ! i = CHR ''-''
        else is_digit (s ! i) \<or> CHR ''a'' \<le> s ! i \<and> s ! i \<le> CHR ''f'') [0..<36]"

definition ref_libs :: "string id_libs" where
  "ref_libs = \<lparr>uuid_Parse = (\<lambda>s. if is_canonical_uuid s then Some s else None),
     uuid_String = filter (\<lambda>c. c \<noteq> CHR '':''), nfc_String = id, nfc_IsNormalString = (\<lambda>_. True)\<rparr>"

lemma ref_libs_law: "id_law ref_libs"
  by (simp add: id_law_def nfc_law_def ref_libs_def)

subsection \<open>Properties\<close>

text \<open>
  C34: An entity id and an entity reference have exactly one canonical text: UnmarshalText
  returns a value for a text just when the value passes Validate and the text is what
  MarshalText prints for it. A printed UUID contains no colon.
\<close>
theorem entity_text_unique:
  assumes "id_law L"
  shows "(EntityId_UnmarshalText L t = Inr e
           \<longleftrightarrow> EntityId_Validate L e = None \<and> EntityId_MarshalText L e = Inr t)
       \<and> (EntityRef_UnmarshalText L t = Inr r
           \<longleftrightarrow> EntityRef_Validate L r = None \<and> EntityRef_MarshalText L r = Inr t)"
  by (rule conjI, rule entity_id.unmarshal_iff [OF assms], rule entity_ref.unmarshal_iff [OF assms])

theorem entity_text_unique_witness:
  "EntityRef_UnmarshalText ref_libs ''eref:v1:acme:employee:01ARZ3NDEKTSV4RRFFQ69G5FAV''
     = Inr \<lparr>er_Tenant = ''acme'', er_Kind = ''employee'', er_Id = ''01ARZ3NDEKTSV4RRFFQ69G5FAV''\<rparr>
   \<and> EntityId_UnmarshalText ref_libs ''eid:v1:employee:123e4567-e89b-12d3-a456-426614174000''
     = Inr \<lparr>e_Kind = ''employee'', e_Id = ''123e4567-e89b-12d3-a456-426614174000''\<rparr>"
proof -
  have "EntityRef_Validate ref_libs \<lparr>er_Tenant = ''acme'', er_Kind = ''employee'',
      er_Id = ''01ARZ3NDEKTSV4RRFFQ69G5FAV''\<rparr> = None" by code_simp
  moreover have "EntityId_Validate ref_libs
      \<lparr>e_Kind = ''employee'', e_Id = ''123e4567-e89b-12d3-a456-426614174000''\<rparr> = None" by code_simp
  ultimately show ?thesis
    unfolding entity_text_unique [OF ref_libs_law, THEN conjunct1]
      entity_text_unique [OF ref_libs_law, THEN conjunct2] EntityRef_MarshalText_def EntityRef_Canonical_def
      EntityId_MarshalText_def EntityId_Canonical_def entityRefPrefix_def entityIDPrefix_def
      canonicalVersionTag_def by simp
qed

text \<open>
  A resource key has exactly one canonical text, and a key that NewResourceKey builds
  carries the NFC form of the given segments and survives MarshalText and UnmarshalText: no
  segment, whatever separators it contains, turns into another path or another tenant.
\<close>
theorem resource_key_text_unique:
  assumes "id_law L"
  shows "(ResourceKey_UnmarshalText L t = Inr k
           \<longleftrightarrow> ResourceKey_Validate L k = None \<and> ResourceKey_MarshalText L k = Inr t)
       \<and> (NewResourceKey L tenant ty segs = Inr k'
         \<longrightarrow> rk_Segments k' = map (nfc_String L) segs
           \<and> bind_res (ResourceKey_MarshalText L k') (ResourceKey_UnmarshalText L) = Inr k')"
proof -
  have 1: "ResourceKey_UnmarshalText L t = Inr k
           \<longleftrightarrow> ResourceKey_Validate L k = None \<and> ResourceKey_MarshalText L k = Inr t"
    by (rule resource_key.unmarshal_iff [OF assms])
  have norm: "normalize_segments L ss = Inr r \<Longrightarrow> r = map (nfc_String L) ss" for ss r
    by (induction ss arbitrary: r) (auto split: if_splits)
  have 2: "rk_Segments k' = map (nfc_String L) segs
      \<and> bind_res (ResourceKey_MarshalText L k') (ResourceKey_UnmarshalText L) = Inr k'"
    if new: "NewResourceKey L tenant ty segs = Inr k'"
  proof -
    have "rk_Segments k' = map (nfc_String L) segs" and v: "ResourceKey_Validate L k' = None"
      using new norm by (auto simp: NewResourceKey_def Let_def)
    with resource_key.encode [OF assms v] show ?thesis by auto
  qed
  show ?thesis using 1 2 by blast
qed

theorem resource_key_text_unique_witness:
  "ResourceKey_UnmarshalText ref_libs ''rkey:v1:acme:pay_group:a%2Fb/c''
     = Inr \<lparr>rk_Tenant = ''acme'', rk_ResourceType = ''pay_group'', rk_Segments = [''a/b'', ''c'']\<rparr>
   \<and> bind_res (ResourceKey_MarshalText ref_libs
        \<lparr>rk_Tenant = ''acme'', rk_ResourceType = ''pay_group'', rk_Segments = [''a/b'', ''c'']\<rparr>)
        (ResourceKey_UnmarshalText ref_libs)
      = Inr \<lparr>rk_Tenant = ''acme'', rk_ResourceType = ''pay_group'', rk_Segments = [''a/b'', ''c'']\<rparr>"
proof -
  let ?k = "\<lparr>rk_Tenant = ''acme'', rk_ResourceType = ''pay_group'', rk_Segments = [''a/b'', ''c'']\<rparr>"
  have "ResourceKey_Validate ref_libs ?k = None" by code_simp
  moreover have "ResourceKey_MarshalText ref_libs ?k = Inr ''rkey:v1:acme:pay_group:a%2Fb/c''"
    by code_simp
  moreover have "NewResourceKey ref_libs ''acme'' ''pay_group'' [''a/b'', ''c''] = Inr ?k"
    by code_simp
  ultimately show ?thesis
    using resource_key_text_unique [OF ref_libs_law] by simp
qed

text \<open>
  A revision token that a constructor builds has exactly one canonical text, and decoding
  accepts only that text: leading zeros, line breaks or stray bits in the base64url selector
  and alternative escapes in the stream are refused.
\<close>
theorem revision_token_text_unique:
  assumes "id_law L"
  shows "(RevisionToken_UnmarshalText L t = Inr r
           \<longleftrightarrow> wf_token L r \<and> RevisionToken_MarshalText L r = Inr t)
       \<and> (n < 2 ^ 64 \<and> NewSequenceRevision L stream n = Inr a
         \<longrightarrow> bind_res (RevisionToken_MarshalText L a) (RevisionToken_UnmarshalText L) = Inr a
           \<and> RevisionToken_Sequence a = (n, True))
       \<and> (NewOpaqueRevision L stream cas = Inr b
         \<longrightarrow> bind_res (RevisionToken_MarshalText L b) (RevisionToken_UnmarshalText L) = Inr b
           \<and> RevisionToken_Opaque b = (cas, True))"
proof -
  have 1: "RevisionToken_UnmarshalText L t = Inr r
           \<longleftrightarrow> wf_token L r \<and> RevisionToken_MarshalText L r = Inr t"
    by (rule revision_token.unmarshal_iff [OF assms])
  have rt: "bind_res (RevisionToken_MarshalText L x) (RevisionToken_UnmarshalText L) = Inr x"
    if "wf_token L x" for x using revision_token.encode [OF assms that] by auto
  have 2: "bind_res (RevisionToken_MarshalText L a) (RevisionToken_UnmarshalText L) = Inr a
      \<and> RevisionToken_Sequence a = (n, True)"
    if "n < 2 ^ 64" and "NewSequenceRevision L stream n = Inr a"
    using rt [OF NewSequenceRevision_wf [OF assms that]] that(2)
    by (auto simp: NewSequenceRevision_def RevisionToken_Sequence_def)
  have 3: "bind_res (RevisionToken_MarshalText L b) (RevisionToken_UnmarshalText L) = Inr b
      \<and> RevisionToken_Opaque b = (cas, True)"
    if "NewOpaqueRevision L stream cas = Inr b"
    using rt [OF NewOpaqueRevision_wf [OF assms that]] that
    by (auto simp: NewOpaqueRevision_def RevisionToken_Opaque_def)
  show ?thesis using 1 2 3 by blast
qed

theorem revision_token_text_unique_witness:
  "RevisionToken_UnmarshalText ref_libs ''rev:v1:hr%2Fjobs:s42''
     = Inr \<lparr>rt_specified = True, rt_selector = revisionSelectorSequence, rt_stream = ''hr/jobs'',
            rt_sequence = 42, rt_opaque = []\<rparr>
   \<and> RevisionToken_Opaque \<lparr>rt_specified = True, rt_selector = revisionSelectorOpaque,
        rt_stream = ''hr'', rt_sequence = 0, rt_opaque = ''YWJjZA''\<rparr> = (''abcd'', True)"
proof -
  let ?r = "\<lparr>rt_specified = True, rt_selector = revisionSelectorSequence, rt_stream = ''hr/jobs'',
            rt_sequence = 42, rt_opaque = []\<rparr>"
  have s: "NewSequenceRevision ref_libs ''hr/jobs'' 42 = Inr ?r" by code_simp
  have "wf_token ref_libs ?r" by (rule NewSequenceRevision_wf [OF ref_libs_law _ s]) simp
  moreover have "RevisionToken_MarshalText ref_libs ?r = Inr ''rev:v1:hr%2Fjobs:s42''" by code_simp
  moreover have "NewOpaqueRevision ref_libs ''hr'' ''abcd''
      = Inr \<lparr>rt_specified = True, rt_selector = revisionSelectorOpaque,
        rt_stream = ''hr'', rt_sequence = 0, rt_opaque = ''YWJjZA''\<rparr>" by code_simp
  ultimately show ?thesis using revision_token_text_unique [OF ref_libs_law] by simp
qed

text \<open>
  The four identifier kinds never share a text: a text that decodes as one of them is
  refused by the decoders of the other three.
\<close>
theorem identifier_kinds_disjoint:
  "length (filter id [\<exists>e. EntityId_UnmarshalText L t = Inr e, \<exists>r. EntityRef_UnmarshalText L t = Inr r,
     \<exists>k. ResourceKey_UnmarshalText L t = Inr k, \<exists>r. RevisionToken_UnmarshalText L t = Inr r]) \<le> 1"
proof -
  have p: "EntityId_UnmarshalText L t = Inr e \<Longrightarrow> take 3 t = ''eid''"
    "EntityRef_UnmarshalText L t = Inr r \<Longrightarrow> take 3 t = ''ere''"
    "ResourceKey_UnmarshalText L t = Inr k \<Longrightarrow> take 3 t = ''rke''"
    "RevisionToken_UnmarshalText L t = Inr v \<Longrightarrow> take 3 t = ''rev''" for e r k v
    by (auto simp: EntityId_UnmarshalText_def EntityRef_UnmarshalText_def
        ResourceKey_UnmarshalText_def RevisionToken_UnmarshalText_def cut_prefix_Some_iff
        entityIDPrefix_def entityRefPrefix_def resourceKeyPrefix_def revisionTokenPrefix_def
        split: option.splits)
  show ?thesis using p(1) p(2) p(3) p(4) by auto
qed

text \<open>
  C35: CompareInStream is the order of the sequence numbers on the sequence tokens of one stream and nothing
  else: it answers just when both tokens are sequence tokens of one stream, with -1, 0 or 1 as the first number
  is below, equal to or above the second; so swapping the arguments negates the answer, an answer of zero means
  the same token, and the order is transitive.
\<close>
theorem compare_in_stream_linear:
  assumes "wf_token L r" and "wf_token L s"
  shows "(CompareInStream r s = Inr c \<longleftrightarrow>
           snd (RevisionToken_Sequence r) \<and> snd (RevisionToken_Sequence s) \<and> rt_stream r = rt_stream s
           \<and> c = sgn (int (fst (RevisionToken_Sequence r)) - int (fst (RevisionToken_Sequence s))))
       \<and> (CompareInStream r s = Inr 0 \<longleftrightarrow> r = s \<and> snd (RevisionToken_Sequence r))
       \<and> (CompareInStream r s = Inr c \<longleftrightarrow> CompareInStream s r = Inr (- c))
       \<and> (CompareInStream r s = Inr (- 1) \<and> CompareInStream s u = Inr (- 1)
           \<longrightarrow> CompareInStream r u = Inr (- 1))"
  using assms
  by (intro conjI; cases r; cases s; auto simp: CompareInStream_def RevisionToken_Sequence_def wf_token_def
      RevisionToken_Validate_def split: if_splits)

theorem compare_in_stream_linear_witness:
  "\<exists>r s. NewSequenceRevision ref_libs ''hr'' 1 = Inr r \<and> NewSequenceRevision ref_libs ''hr'' 2 = Inr s
     \<and> CompareInStream r s = Inr (- 1) \<and> CompareInStream s r = Inr 1 \<and> CompareInStream r r = Inr 0"
proof -
  let ?t = "\<lambda>n. \<lparr>rt_specified = True, rt_selector = revisionSelectorSequence, rt_stream = ''hr'',
            rt_sequence = n, rt_opaque = []\<rparr>"
  have 1: "NewSequenceRevision ref_libs ''hr'' 1 = Inr (?t 1)" by code_simp
  have 2: "NewSequenceRevision ref_libs ''hr'' 2 = Inr (?t 2)" by code_simp
  have w: "wf_token ref_libs (?t 1)" "wf_token ref_libs (?t 2)"
    by (rule NewSequenceRevision_wf [OF ref_libs_law _ 1], simp)
      (rule NewSequenceRevision_wf [OF ref_libs_law _ 2], simp)
  have c: "CompareInStream (?t 1) (?t 2) = Inr (- 1)"
    using compare_in_stream_linear [OF w, of "- 1"] by (simp add: RevisionToken_Sequence_def)
  then have "CompareInStream (?t 2) (?t 1) = Inr 1"
    using compare_in_stream_linear [OF w, of "- 1"] by simp
  moreover have "CompareInStream (?t 1) (?t 1) = Inr 0"
    using compare_in_stream_linear [OF w(1) w(1)] by (simp add: RevisionToken_Sequence_def)
  ultimately show ?thesis using 1 2 c by (intro exI [of _ "?t 1"] exI [of _ "?t 2"]) simp
qed

end
