(* ===== verification/Values_Presence.thy ===== *)
theory Values_Presence
  imports Values_Identity
begin

text \<open>
  Package \<open>internal/kernel/values\<close>, file \<open>presence.go\<close>: properties that say why they carry
  no value, and their wire form. The type \<open>Presence[T]\<close> is a record over the type of its
  value; Go's zero value of \<open>T\<close> is the argument \<open>zero\<close>. A \<open>ValueCodec\<close> is a pair of partial
  functions (an error of the codec is \<open>None\<close>), a nil codec is \<open>None\<close>.

  What is proved: the wire form for an unauthorized reader is a function of the visible state
  alone, the wire form is a canonical text in the sense of \<open>canonical_text\<close> for every lawful
  codec, and a reason that is not valid UTF-8 is written but cannot be read back.
\<close>

datatype PresenceState =
    PresenceUnspecified | PresenceAbsent | PresenceNull | PresenceUnknown | PresenceRedacted
  | PresenceUnavailable | PresenceNotApplicable | PresenceValue | PresenceOther nat

definition presenceWire :: "(PresenceState \<times> string) list" where
  "presenceWire =
     [(PresenceAbsent, ''ABSENT''), (PresenceNull, ''NULL''), (PresenceUnknown, ''UNKNOWN''),
      (PresenceRedacted, ''REDACTED''), (PresenceUnavailable, ''UNAVAILABLE''),
      (PresenceNotApplicable, ''NOT_APPLICABLE''), (PresenceValue, ''VALUE'')]"

definition AllPresenceStates :: "PresenceState list" where
  "AllPresenceStates =
     [PresenceAbsent, PresenceNull, PresenceUnknown, PresenceRedacted, PresenceUnavailable,
      PresenceNotApplicable, PresenceValue]"

definition PresenceState_String :: "PresenceState \<Rightarrow> string" where
  "PresenceState_String s =
     (case map_of presenceWire s of Some w \<Rightarrow> w | None \<Rightarrow> ''PRESENCE_UNSPECIFIED'')"

definition PresenceState_Valid :: "PresenceState \<Rightarrow> bool" where
  "PresenceState_Valid s \<longleftrightarrow> map_of presenceWire s \<noteq> None"

definition ParsePresenceState :: "string \<Rightarrow> PresenceState res" where
  "ParsePresenceState token =
     (case find (\<lambda>(state, wire). wire = token) presenceWire of
        Some (state, _) \<Rightarrow> Inr state
      | None \<Rightarrow> Inl (PresErr ErrPresenceState))"

record 'a Presence =
  ps_state :: PresenceState
  ps_value :: 'a
  ps_reason :: string

definition NewPresence :: "'a \<Rightarrow> PresenceState \<Rightarrow> string \<Rightarrow> 'a Presence" where
  "NewPresence zero state reason =
     (if state = PresenceValue then \<lparr>ps_state = PresenceUnspecified, ps_value = zero, ps_reason = []\<rparr>
      else \<lparr>ps_state = state, ps_value = zero, ps_reason = reason\<rparr>)"

definition Presence_of_Value :: "'a \<Rightarrow> 'a Presence" where
  "Presence_of_Value v = \<lparr>ps_state = PresenceValue, ps_value = v, ps_reason = []\<rparr>"

definition Presence_Get :: "'a \<Rightarrow> 'a Presence \<Rightarrow> 'a \<times> bool" where
  "Presence_Get zero p =
     (if ps_state p \<noteq> PresenceValue then (zero, False) else (ps_value p, True))"

definition Presence_ValueOr :: "'a \<Rightarrow> 'a Presence \<Rightarrow> 'a \<Rightarrow> 'a" where
  "Presence_ValueOr zero p fallback =
     (let (v, ok) = Presence_Get zero p in if ok then v else fallback)"

definition Presence_MustValue :: "'a \<Rightarrow> 'a Presence \<Rightarrow> 'a res" where
  "Presence_MustValue zero p =
     (let (v, ok) = Presence_Get zero p in if \<not> ok then Inl GoPanic else Inr v)"

definition Presence_Validate :: "'a Presence \<Rightarrow> verr option" where
  "Presence_Validate p =
     first_err (reject (ps_state p = PresenceUnspecified) (PresErr ErrPresenceUnspecified))
      (first_err (reject (\<not> PresenceState_Valid (ps_state p)) (PresErr ErrPresenceState))
        (reject (ps_state p = PresenceValue \<and> ps_reason p \<noteq> []) (PresErr ErrPresenceReason)))"

record 'a ValueCodec =
  EncodeValue :: "'a \<Rightarrow> bytes option"
  DecodeValue :: "bytes \<Rightarrow> 'a option"

definition StringCodec :: "string ValueCodec" where
  "StringCodec = \<lparr>EncodeValue = (\<lambda>v. Some v), DecodeValue = (\<lambda>b. Some b)\<rparr>"

definition MarshalPresenceFor :: "'a Presence \<Rightarrow> 'a ValueCodec option \<Rightarrow> bool \<Rightarrow> bytes res" where
  "MarshalPresenceFor p codec authorized =
     guard_res (Presence_Validate p)
      (if ps_state p = PresenceValue then
         if \<not> authorized then Inr (the (map_of presenceWire PresenceRedacted))
         else (case codec of
             None \<Rightarrow> Inl (PresErr ErrPresenceWire)
           | Some c \<Rightarrow>
              (case EncodeValue c (ps_value p) of
                 None \<Rightarrow> Inl (PresErr ErrCodec)
               | Some raw \<Rightarrow>
                   Inr (the (map_of presenceWire PresenceValue) @ '':'' @ EncodeToString raw)))
       else let token = the (map_of presenceWire (ps_state p)) in
         if \<not> authorized then Inr token
         else if ps_reason p = [] then Inr token
         else Inr (token @ '':'' @ escapeSegment (ps_reason p)))"

definition MarshalPresence :: "'a Presence \<Rightarrow> 'a ValueCodec option \<Rightarrow> bytes res" where
  "MarshalPresence p codec = MarshalPresenceFor p codec True"

definition UnmarshalPresence ::
  "'u id_libs \<Rightarrow> 'a \<Rightarrow> bytes \<Rightarrow> 'a ValueCodec option \<Rightarrow> 'a Presence res" where
  "UnmarshalPresence L zero s codec =
     (if s = [] then Inl (PresErr ErrPresenceWire)
      else let (token, rest, hasRest) = cut CHR '':'' s in
       bind_res (ParsePresenceState token) (\<lambda>state.
        if state = PresenceValue then
          if \<not> hasRest then Inl (PresErr ErrPresenceWire)
          else if CHR '':'' \<in> set rest then Inl (PresErr ErrPresenceWire)
          else (case codec of
              None \<Rightarrow> Inl (PresErr ErrPresenceWire)
            | Some c \<Rightarrow>
               if \<not> list_all opaque_char rest then Inl (PresErr ErrPresenceWire)
               else (case DecodeString rest of
                   None \<Rightarrow> Inl (PresErr ErrPresenceWire)
                 | Some raw \<Rightarrow>
                    (case DecodeValue c raw of
                       None \<Rightarrow> Inl (PresErr ErrCodec)
                     | Some v \<Rightarrow> Inr (Presence_of_Value v))))
        else if \<not> hasRest then Inr \<lparr>ps_state = state, ps_value = zero, ps_reason = []\<rparr>
        else if CHR '':'' \<in> set rest then Inl (PresErr ErrPresenceWire)
        else (case unescapeSegment L rest of
            Inl _ \<Rightarrow> Inl (PresErr ErrPresenceWire)
          | Inr reason \<Rightarrow> Inr \<lparr>ps_state = state, ps_value = zero, ps_reason = reason\<rparr>)))"

subsection \<open>Wire tokens\<close>

lemma valid_states: "PresenceState_Valid s \<longleftrightarrow> s \<in> set AllPresenceStates"
  by (cases s) (simp_all add: PresenceState_Valid_def presenceWire_def AllPresenceStates_def)

lemma wire_some: "PresenceState_Valid s \<Longrightarrow> map_of presenceWire s = Some (PresenceState_String s)"
  by (auto simp: PresenceState_Valid_def PresenceState_String_def)

lemma token_facts:
  assumes "PresenceState_Valid s"
  shows "PresenceState_String s \<noteq> []" "CHR '':'' \<notin> set (PresenceState_String s)"
    "ParsePresenceState (PresenceState_String s) = Inr s"
  using assms
  by (auto simp: valid_states AllPresenceStates_def PresenceState_String_def presenceWire_def
      ParsePresenceState_def)

lemma ParsePresenceState_Inr:
  "ParsePresenceState t = Inr s \<Longrightarrow> PresenceState_Valid s \<and> PresenceState_String s = t"
  by (auto simp: ParsePresenceState_def presenceWire_def PresenceState_String_def
      PresenceState_Valid_def split: if_splits)

lemma valid_state: "Presence_Validate p = None \<Longrightarrow> PresenceState_Valid (ps_state p)"
  by (simp add: Presence_Validate_def)

subsection \<open>The wire form is a canonical text\<close>

text \<open>
  The environment of the encoding: the NFC library, a codec and the zero value of the type.
  A lawful codec decodes exactly what it encodes. A usable presence passes Validate, keeps the
  zero value unless it is a VALUE, has an encodable value and a reason in NFC.
\<close>

type_synonym ('u, 'a) presence_env = "'u id_libs \<times> 'a ValueCodec \<times> 'a"

fun presence_law :: "('u, 'a) presence_env \<Rightarrow> bool" where
  "presence_law (L, c, zero) \<longleftrightarrow>
     id_law L \<and> (\<forall>v raw. EncodeValue c v = Some raw \<longleftrightarrow> DecodeValue c raw = Some v)"

fun wf_presence :: "('u, 'a) presence_env \<Rightarrow> 'a Presence \<Rightarrow> bool" where
  "wf_presence (L, c, zero) p \<longleftrightarrow>
     Presence_Validate p = None
     \<and> (if ps_state p = PresenceValue then EncodeValue c (ps_value p) \<noteq> None
        else ps_value p = zero)
     \<and> utf8_valid (ps_reason p) \<and> nfc_IsNormalString L (ps_reason p)"

fun presence_marshal :: "('u, 'a) presence_env \<Rightarrow> 'a Presence \<Rightarrow> bytes res" where
  "presence_marshal (L, c, zero) p = MarshalPresence p (Some c)"

fun presence_unmarshal :: "('u, 'a) presence_env \<Rightarrow> bytes \<Rightarrow> 'a Presence res" where
  "presence_unmarshal (L, c, zero) t = UnmarshalPresence L zero t (Some c)"

lemma presence_encode:
  assumes law: "presence_law (L, c, zero)" and w: "wf_presence (L, c, zero) p"
  shows "\<exists>t. MarshalPresence p (Some c) = Inr t \<and> UnmarshalPresence L zero t (Some c) = Inr p"
proof -
  have v: "Presence_Validate p = None" and s: "PresenceState_Valid (ps_state p)"
    using w valid_state by auto
  note tok = token_facts [OF s] wire_some [OF s]
  show ?thesis
  proof (cases "ps_state p = PresenceValue")
    case True
    then obtain raw where raw: "EncodeValue c (ps_value p) = Some raw" "DecodeValue c raw = Some (ps_value p)"
      using w law by auto
    have "ps_reason p = []" using v True by (simp add: Presence_Validate_def)
    then have "p = Presence_of_Value (ps_value p)" using True by (cases p) (simp add: Presence_of_Value_def)
    then show ?thesis using True v raw tok
      by (simp add: MarshalPresence_def MarshalPresenceFor_def UnmarshalPresence_def cut_append
          EncodeToString_no_colon encoded_opaque)
  next
    case False
    then have z: "p = \<lparr>ps_state = ps_state p, ps_value = zero, ps_reason = ps_reason p\<rparr>"
      using w by (cases p) simp
    show ?thesis
    proof (cases "ps_reason p = []")
      case True
      then show ?thesis using False v tok z
        by (simp add: MarshalPresence_def MarshalPresenceFor_def UnmarshalPresence_def cut_none)
    next
      case r: False
      then have "unescapeSegment L (escapeSegment (ps_reason p)) = Inr (ps_reason p)"
        using w by (simp add: unescapeSegment_Inr_iff)
      then show ?thesis using False r v tok z
        by (simp add: MarshalPresence_def MarshalPresenceFor_def UnmarshalPresence_def cut_append
            escape_no_sep)
    qed
  qed
qed

lemma presence_decode:
  assumes law: "presence_law (L, c, zero)" and u: "UnmarshalPresence L zero t (Some c) = Inr p"
  shows "wf_presence (L, c, zero) p \<and> MarshalPresence p (Some c) = Inr t"
proof -
  obtain tok rest ok where c: "cut CHR '':'' t = (tok, rest, ok)" by (cases "cut CHR '':'' t")
  with u obtain state where st: "ParsePresenceState tok = Inr state"
    by (auto simp: UnmarshalPresence_def split: if_splits)
  have s: "PresenceState_Valid state" "tok = PresenceState_String state"
    using ParsePresenceState_Inr [OF st] by auto
  have ns: "state \<noteq> PresenceUnspecified" using s(1) by (auto simp: valid_states AllPresenceStates_def)
  have nfc0: "nfc_IsNormalString L []" using law by (simp add: nfc_lawD)
  show ?thesis
  proof (cases "state = PresenceValue")
    case True
    with u c st obtain raw v where ok: ok and oc: "list_all opaque_char rest"
      and d: "DecodeString rest = Some raw" "DecodeValue c raw = Some v" and p: "p = Presence_of_Value v"
      by (auto simp: UnmarshalPresence_def split: if_splits option.splits)
    have "EncodeToString raw = rest"
      by (rule Encode_DecodeString [OF d(1)]) (rule opaque_no_newline [OF oc])+
    moreover have "EncodeValue c v = Some raw" using law d by simp
    moreover have "t = tok @ CHR '':'' # rest" using cut_found c ok by auto
    ultimately show ?thesis using True s ns nfc0 p wire_some [OF s(1)]
      by (simp add: Presence_of_Value_def Presence_Validate_def MarshalPresence_def
          MarshalPresenceFor_def)
  next
    case nv: False
    show ?thesis
    proof (cases ok)
      case False
      then have "t = tok" using cut_not_found c by auto
      then show ?thesis using nv u c st False s ns nfc0 wire_some [OF s(1)]
        by (auto simp: UnmarshalPresence_def Presence_Validate_def MarshalPresence_def
            MarshalPresenceFor_def split: if_splits)
    next
      case True
      with nv u c st obtain reason where un: "unescapeSegment L rest = Inr reason"
        and p: "p = \<lparr>ps_state = state, ps_value = zero, ps_reason = reason\<rparr>"
        by (auto simp: UnmarshalPresence_def split: if_splits sum.splits)
      have "t = tok @ CHR '':'' # rest" using cut_found c True by auto
      then show ?thesis using nv p un s ns wire_some [OF s(1)]
        by (auto simp: unescapeSegment_Inr_iff Presence_Validate_def MarshalPresence_def
            MarshalPresenceFor_def)
    qed
  qed
qed

interpretation presence: canonical_text presence_law wf_presence presence_marshal presence_unmarshal
proof unfold_locales
  fix E :: "('a, 'b) presence_env" and p
  assume "presence_law E" "wf_presence E p"
  then show "\<exists>t. presence_marshal E p = Inr t \<and> presence_unmarshal E t = Inr p"
    using presence_encode by (cases E) (auto simp del: wf_presence.simps presence_law.simps)
next
  fix E :: "('a, 'b) presence_env" and t p
  assume "presence_law E" "presence_unmarshal E t = Inr p"
  then show "wf_presence E p \<and> presence_marshal E p = Inr t"
    by (cases E) (use presence_decode [of _ _ _ t p] in
        \<open>simp del: wf_presence.simps presence_law.simps\<close>)
qed

subsection \<open>Properties\<close>

text \<open>
  C36: Non-disclosure: what an unauthorized reader receives is the bare token of the visible
  state, where VALUE shows as REDACTED. Two usable presences with the same visible state are
  indistinguishable, whatever their values, reasons and codecs, and no reader decodes a value
  or a reason from it.
\<close>
theorem unauthorized_marshal_discloses_nothing:
  assumes "Presence_Validate p = None" and "Presence_Validate q = None"
    and "(if ps_state p = PresenceValue then PresenceRedacted else ps_state p)
       = (if ps_state q = PresenceValue then PresenceRedacted else ps_state q)"
  shows "MarshalPresenceFor p c False = MarshalPresenceFor q d False
    \<and> (\<exists>t. MarshalPresenceFor p c False = Inr t
           \<and> UnmarshalPresence L zero t e
             = Inr \<lparr>ps_state = (if ps_state p = PresenceValue then PresenceRedacted else ps_state p),
                    ps_value = zero, ps_reason = []\<rparr>)"
proof
  let ?v = "\<lambda>x. if ps_state x = PresenceValue then PresenceRedacted else ps_state x"
  have m: "MarshalPresenceFor x k False = Inr (PresenceState_String (?v x))"
    and v: "PresenceState_Valid (?v x)" and n: "?v x \<noteq> PresenceValue"
    if "Presence_Validate x = None" for x :: "'z Presence" and k
    using valid_state [OF that] that
    by (auto simp: MarshalPresenceFor_def wire_some valid_states AllPresenceStates_def
        PresenceState_String_def presenceWire_def)
  show "MarshalPresenceFor p c False = MarshalPresenceFor q d False"
    using m [OF assms(1)] m [OF assms(2)] assms(3) by simp
  show "\<exists>t. MarshalPresenceFor p c False = Inr t
      \<and> UnmarshalPresence L zero t e = Inr \<lparr>ps_state = ?v p, ps_value = zero, ps_reason = []\<rparr>"
    using m [OF assms(1)] n [OF assms(1)] token_facts [OF v [OF assms(1)]]
    by (simp add: UnmarshalPresence_def cut_none split del: if_split)
qed

theorem unauthorized_marshal_discloses_nothing_witness:
  "MarshalPresenceFor (Presence_of_Value ''salary 90000'') (Some StringCodec) False
     = MarshalPresenceFor (NewPresence ([] :: string) PresenceRedacted ''under investigation'') None False
   \<and> MarshalPresenceFor (Presence_of_Value ''salary 90000'') (Some StringCodec) True = Inr ''VALUE:c2FsYXJ5IDkwMDAw''"
proof
  show "MarshalPresenceFor (Presence_of_Value ''salary 90000'') (Some StringCodec) False
     = MarshalPresenceFor (NewPresence ([] :: string) PresenceRedacted ''under investigation'') None False"
    by (rule unauthorized_marshal_discloses_nothing [THEN conjunct1]; code_simp)
  show "MarshalPresenceFor (Presence_of_Value ''salary 90000'') (Some StringCodec) True
     = Inr ''VALUE:c2FsYXJ5IDkwMDAw''" by code_simp
qed

text \<open>
  For a codec that decodes exactly what it encodes, a wire form decodes to a presence just
  when the presence is usable and MarshalPresence prints that wire form: decoding inverts
  encoding, and no presence has a second spelling.
\<close>
theorem presence_text_unique:
  assumes "presence_law (L, c, zero)"
  shows "UnmarshalPresence L zero t (Some c) = Inr p
           \<longleftrightarrow> wf_presence (L, c, zero) p \<and> MarshalPresence p (Some c) = Inr t"
  using presence.unmarshal_iff [OF assms, of t p] by (simp del: wf_presence.simps)

theorem presence_text_unique_witness:
  "UnmarshalPresence ref_libs [] ''UNKNOWN:not%20collected'' (Some StringCodec)
     = Inr (NewPresence [] PresenceUnknown ''not collected'')"
proof -
  have "presence_law (ref_libs, StringCodec, [])" by (auto simp: ref_libs_law StringCodec_def)
  moreover have "wf_presence (ref_libs, StringCodec, []) (NewPresence [] PresenceUnknown ''not collected'')"
    by code_simp
  moreover have "MarshalPresence (NewPresence [] PresenceUnknown ''not collected'') (Some StringCodec)
      = Inr ''UNKNOWN:not%20collected''" by code_simp
  ultimately show ?thesis by (simp only: presence_text_unique simp_thms)
qed

text \<open>
  MarshalPresence writes a reason that is not valid UTF-8, and UnmarshalPresence then
  refuses the text it wrote: such a presence passes Validate and does not survive its own
  wire form, whatever the NFC library and the codec are.
\<close>
theorem presence_reason_not_decodable:
  "\<exists>t. Presence_Validate (NewPresence zero PresenceUnavailable [CHR 0xFF]) = None
     \<and> MarshalPresence (NewPresence zero PresenceUnavailable [CHR 0xFF]) c = Inr t
     \<and> UnmarshalPresence L zero t c = Inl (PresErr ErrPresenceWire)"
proof -
  let ?t = "''UNAVAILABLE'' @ CHR '':'' # escapeSegment [CHR 0xFF]"
  have "\<not> utf8_valid [CHR 0xFF]" by code_simp
  then have "unescapeSegment L (escapeSegment [CHR 0xFF]) = Inl (IdErr ErrInvalidUTF8)"
    by (simp add: unescapeSegment_def unescape_escape)
  then have "UnmarshalPresence L zero ?t c = Inl (PresErr ErrPresenceWire)"
    using cut_append [of "CHR '':''" "''UNAVAILABLE''" "escapeSegment [CHR 0xFF]"]
    by (simp add: UnmarshalPresence_def ParsePresenceState_def presenceWire_def escape_no_sep)
  then show ?thesis
    by (intro exI [of _ ?t]) (simp add: NewPresence_def Presence_Validate_def MarshalPresence_def
        MarshalPresenceFor_def PresenceState_Valid_def presenceWire_def)
qed

end
