(* ===== verification/Go_Time.thy ===== *)
theory Go_Time
  imports Go_Std
begin

text \<open>
  The civil calendar behind Go's package \<open>time\<close>: the proleptic Gregorian day count that
  \<open>time.Date\<close> computes in UTC, the inverse that \<open>Year\<close>, \<open>Month\<close> and \<open>Day\<close> compute, and the
  proof that they are inverse on real dates. Days are counted from 0001-01-01; the Unix epoch
  is day 719162. These definitions describe the language's library and carry no entry in the
  source map.
\<close>

definition leap :: "int \<Rightarrow> bool" where
  "leap y \<longleftrightarrow> y mod 4 = 0 \<and> (y mod 100 \<noteq> 0 \<or> y mod 400 = 0)"

definition month_lengths :: "int \<Rightarrow> int list" where
  "month_lengths y = [31, if leap y then 29 else 28, 31, 30, 31, 30, 31, 31, 30, 31, 30, 31]"

definition days_before_year :: "int \<Rightarrow> int" where
  "days_before_year y = 365 * (y - 1) + (y - 1) div 4 - (y - 1) div 100 + (y - 1) div 400"

definition date_days :: "int \<Rightarrow> int \<Rightarrow> int \<Rightarrow> int" where
  "date_days y m d = days_before_year y + sum_list (take (nat (m - 1)) (month_lengths y)) + d - 1"

definition year_of :: "int \<Rightarrow> int" where
  "year_of n =
     (let a = n div 146097; r = n mod 146097; b = min 3 (r div 36524); r1 = r - 36524 * b;
          c = r1 div 1461; r2 = r1 mod 1461; e = min 3 (r2 div 365)
      in 400 * a + 100 * b + 4 * c + e + 1)"

fun month_day :: "int list \<Rightarrow> int \<Rightarrow> int \<Rightarrow> int \<times> int" where
  "month_day [] m yd = (m, yd + 1)"
| "month_day (l # ls) m yd = (if yd < l then (m, yd + 1) else month_day ls (m + 1) (yd - l))"

definition days_date :: "int \<Rightarrow> int \<times> int \<times> int" where
  "days_date n = (let y = year_of n in (y, month_day (month_lengths y) 1 (n - days_before_year y)))"

definition real_date :: "int \<Rightarrow> int \<Rightarrow> int \<Rightarrow> bool" where
  "real_date y m d \<longleftrightarrow> 1 \<le> m \<and> m \<le> 12 \<and> 1 \<le> d \<and> d \<le> month_lengths y ! nat (m - 1)"

subsection \<open>Years\<close>

lemma div_succ:
  fixes p k :: int
  assumes "0 < k"
  shows "p div k = (p - 1) div k + (if p mod k = 0 then 1 else 0)"
proof (cases "p mod k = 0")
  case True
  then obtain q where "p = k * q" by (metis dvd_def mod_0_imp_dvd)
  moreover have "(k * q - 1) div k = q - 1"
    using assms by (intro int_div_pos_eq [of _ _ _ "k - 1"]) (auto simp: algebra_simps)
  ultimately show ?thesis using assms True by simp
next
  case False
  have "p = k * (p div k) + p mod k" by simp
  moreover have "0 \<le> p mod k" "p mod k < k" using assms by simp_all
  ultimately have "(p - 1) div k = p div k"
    using assms False by (intro int_div_pos_eq [of _ _ _ "p mod k - 1"]) linarith+
  then show ?thesis using False by simp
qed

lemma days_before_year_step:
  "days_before_year (y + 1) = days_before_year y + (if leap y then 366 else 365)"
proof -
  have m: "y mod 100 = 0 \<Longrightarrow> y mod 4 = 0" "y mod 400 = 0 \<Longrightarrow> y mod 100 = 0"
    using mod_mod_cancel [of 4 100 y] mod_mod_cancel [of 100 400 y] by auto
  have d: "y div 4 = (y - 1) div 4 + (if y mod 4 = 0 then 1 else 0)"
    "y div 100 = (y - 1) div 100 + (if y mod 100 = 0 then 1 else 0)"
    "y div 400 = (y - 1) div 400 + (if y mod 400 = 0 then 1 else 0)" by (rule div_succ, simp)+
  show ?thesis unfolding days_before_year_def leap_def add_diff_cancel_right' d
    using m by (cases "y mod 4 = 0"; cases "y mod 100 = 0"; cases "y mod 400 = 0"; simp)
qed

lemma days_before_year_mono: "y < z \<Longrightarrow> days_before_year (y + 1) \<le> days_before_year z"
proof (induction "nat (z - y - 1)" arbitrary: z)
  case 0
  then have "z = y + 1" by simp
  then show ?case by simp
next
  case (Suc k)
  then have "k = nat (z - 1 - y - 1)" "y < z - 1" by linarith+
  with Suc have "days_before_year (y + 1) \<le> days_before_year (z - 1)" by blast
  then show ?case using days_before_year_step [of "z - 1"] by (simp split: if_splits)
qed

lemma year_unique:
  assumes "days_before_year y \<le> n" "n < days_before_year (y + 1)"
    and "days_before_year z \<le> n" "n < days_before_year (z + 1)"
  shows "y = z"
  using assms days_before_year_mono [of y z] days_before_year_mono [of z y] by linarith

lemma pack_div_int: "0 \<le> t \<Longrightarrow> t < k \<Longrightarrow> (k * q + t) div k = (q :: int)"
  by simp

lemma pack_mod_0_iff: "0 < t \<Longrightarrow> t \<le> k \<Longrightarrow> (k * q + t) mod k = 0 \<longleftrightarrow> t = (k :: int)"
  by (cases "t = k") auto

lemma days_before_cycles:
  assumes "0 \<le> b" "b < 4" "0 \<le> c" "c < 25" "0 \<le> e" "e < 4"
  shows "days_before_year (400 * a + 100 * b + 4 * c + e + 1) = 146097 * a + 36524 * b + 1461 * c + 365 * e"
    and "leap (400 * a + 100 * b + 4 * c + e + 1) \<longleftrightarrow> e = 3 \<and> (c = 24 \<longrightarrow> b = 3)"
proof -
  let ?p = "400 * a + 100 * b + 4 * c + e"
  have 4: "?p = 4 * (100 * a + 25 * b + c) + e" and 100: "?p = 100 * (4 * a + b) + (4 * c + e)"
    and 400: "?p = 400 * a + (100 * b + 4 * c + e)" by simp_all
  have "?p div 4 = 100 * a + 25 * b + c" unfolding 4 by (rule pack_div_int) (use assms in linarith)+
  moreover have "?p div 100 = 4 * a + b" unfolding 100 by (rule pack_div_int) (use assms in linarith)+
  moreover have "?p div 400 = a" unfolding 400 by (rule pack_div_int) (use assms in linarith)+
  ultimately show "days_before_year (?p + 1) = 146097 * a + 36524 * b + 1461 * c + 365 * e"
    by (simp add: days_before_year_def)
  have 4: "?p + 1 = 4 * (100 * a + 25 * b + c) + (e + 1)"
    and 100: "?p + 1 = 100 * (4 * a + b) + (4 * c + e + 1)"
    and 400: "?p + 1 = 400 * a + (100 * b + 4 * c + e + 1)" by simp_all
  have "(?p + 1) mod 4 = 0 \<longleftrightarrow> e + 1 = 4"
    unfolding 4 by (rule pack_mod_0_iff) (use assms in linarith)+
  moreover have "(?p + 1) mod 100 = 0 \<longleftrightarrow> 4 * c + e + 1 = 100"
    unfolding 100 by (rule pack_mod_0_iff) (use assms in linarith)+
  moreover have "(?p + 1) mod 400 = 0 \<longleftrightarrow> 100 * b + 4 * c + e + 1 = 400"
    unfolding 400 by (rule pack_mod_0_iff) (use assms in linarith)+
  moreover have "4 * c + e + 1 = 100 \<longleftrightarrow> e = 3 \<and> c = 24" using assms by presburger
  moreover have "100 * b + 4 * c + e + 1 = 400 \<longleftrightarrow> e = 3 \<and> c = 24 \<and> b = 3" using assms by presburger
  ultimately show "leap (?p + 1) \<longleftrightarrow> e = 3 \<and> (c = 24 \<longrightarrow> b = 3)" by (auto simp: leap_def)
qed

lemma year_of_bounds:
  "days_before_year (year_of n) \<le> n" "n < days_before_year (year_of n + 1)"
proof -
  define a where "a = n div 146097"
  define r where "r = n mod 146097"
  define b where "b = min 3 (r div 36524)"
  define r1 where "r1 = r - 36524 * b"
  define c where "c = r1 div 1461"
  define r2 where "r2 = r1 mod 1461"
  define e where "e = min 3 (r2 div 365)"
  have y: "year_of n = 400 * a + 100 * b + 4 * c + e + 1"
    by (simp add: year_of_def Let_def a_def r_def b_def r1_def c_def r2_def e_def)
  have n: "n = 146097 * a + r" "0 \<le> r" "r < 146097" by (simp_all add: a_def r_def)
  have rb: "r = 36524 * (r div 36524) + r mod 36524" "0 \<le> r mod 36524" "r mod 36524 < 36524" by simp_all
  have b: "0 \<le> b" "b < 4" "0 \<le> r1" "b < 3 \<Longrightarrow> r1 < 36524" "r1 \<le> 36524"
    using rb n unfolding b_def r1_def by linarith+
  have r1: "r1 = 1461 * c + r2" "0 \<le> r2" "r2 < 1461" by (simp_all add: c_def r2_def)
  have c: "0 \<le> c" "c < 25" using r1 b by linarith+
  have re: "r2 = 365 * (r2 div 365) + r2 mod 365" "0 \<le> r2 mod 365" "r2 mod 365 < 365" by simp_all
  have e: "0 \<le> e" "e < 4" "365 * e \<le> r2" "e < 3 \<Longrightarrow> r2 < 365 * e + 365" "r2 \<le> 365 * e + 365"
    using re r1 unfolding e_def by linarith+
  have d: "days_before_year (year_of n) = 146097 * a + 36524 * b + 1461 * c + 365 * e"
    "leap (year_of n) \<longleftrightarrow> e = 3 \<and> (c = 24 \<longrightarrow> b = 3)"
    unfolding y using b c e by (intro days_before_cycles; simp)+
  have nn: "n = 146097 * a + 36524 * b + 1461 * c + r2" using n r1 by (simp add: r1_def)
  show "days_before_year (year_of n) \<le> n" using d nn e by linarith
  have "r2 = 365 * e + 365 \<Longrightarrow> leap (year_of n)"
  proof -
    assume r2: "r2 = 365 * e + 365"
    then have "e = 3" using e by linarith
    moreover have "b = 3" if "c = 24" using that r2 r1 b \<open>e = 3\<close> by linarith
    ultimately show ?thesis using d(2) by blast
  qed
  then show "n < days_before_year (year_of n + 1)"
    unfolding days_before_year_step using d(1) nn e(5)
    by (cases "leap (year_of n)"; cases "r2 = 365 * e + 365"; simp)
qed

subsection \<open>Months and days\<close>

lemma month_day_sound:
  assumes "0 \<le> yd" "yd < sum_list ls" "month_day ls m0 yd = (m, d)"
  shows "\<exists>i < length ls. m = m0 + int i \<and> 1 \<le> d \<and> d \<le> ls ! i \<and> yd = sum_list (take i ls) + d - 1"
  using assms
proof (induction ls m0 yd rule: month_day.induct)
  case (2 l ls m0 yd)
  show ?case
  proof (cases "yd < l")
    case True
    with 2 show ?thesis by (intro exI [of _ 0]) auto
  next
    case False
    with 2 obtain i where "i < length ls" "m = m0 + 1 + int i" "1 \<le> d" "d \<le> ls ! i"
      "yd - l = sum_list (take i ls) + d - 1" by auto
    then show ?thesis by (intro exI [of _ "Suc i"]) auto
  qed
qed auto

lemma month_day_complete:
  assumes "i < length ls" "1 \<le> d" "d \<le> ls ! i" "\<forall>l\<in>set ls. 0 \<le> l"
  shows "month_day ls m0 (sum_list (take i ls) + d - 1) = (m0 + int i, d)"
  using assms
proof (induction ls arbitrary: i m0)
  case (Cons l ls)
  show ?case
  proof (cases i)
    case (Suc j)
    have "0 \<le> sum_list (take j ls)" using Cons.prems(4) by (intro sum_list_nonneg) (auto dest: in_set_takeD)
    moreover have "month_day ls (m0 + 1) (sum_list (take j ls) + d - 1) = (m0 + 1 + int j, d)"
      using Cons Suc by auto
    ultimately show ?thesis using Suc Cons.prems by (simp add: algebra_simps)
  qed (use Cons in auto)
qed simp

lemma length_month_lengths [simp]: "length (month_lengths y) = 12"
  by (simp add: month_lengths_def)

lemma month_lengths_pos: "\<forall>l\<in>set (month_lengths y). 28 \<le> l \<and> l \<le> 31"
  by (simp add: month_lengths_def)

lemma sum_month_lengths: "sum_list (month_lengths y) = days_before_year (y + 1) - days_before_year y"
  by (simp add: month_lengths_def days_before_year_step)

lemma real_date_day: "real_date y m d \<Longrightarrow> 1 \<le> d \<and> d \<le> 31"
proof -
  assume r: "real_date y m d"
  then have "nat (m - 1) < length (month_lengths y)" by (auto simp: real_date_def)
  then have "month_lengths y ! nat (m - 1) \<le> 31" using month_lengths_pos nth_mem by blast
  then show ?thesis using r by (auto simp: real_date_def)
qed

lemma real_date_in_year:
  assumes "real_date y m d"
  shows "days_before_year y \<le> date_days y m d" "date_days y m d < days_before_year (y + 1)"
proof -
  let ?ls = "month_lengths y" and ?i = "nat (m - 1)"
  have i: "?i < length ?ls" and d: "1 \<le> d" "d \<le> ?ls ! ?i" using assms by (auto simp: real_date_def)
  have nn: "0 \<le> sum_list (take j ?ls)" "0 \<le> sum_list (drop j ?ls)" for j
    using month_lengths_pos [of y]
    by (auto intro!: sum_list_nonneg dest!: in_set_takeD in_set_dropD)
  have "sum_list ?ls = sum_list (take ?i ?ls) + (?ls ! ?i + sum_list (drop (Suc ?i) ?ls))"
    using i id_take_nth_drop [of ?i ?ls] by (metis sum_list_append sum_list.Cons)
  then have "sum_list (take ?i ?ls) + d \<le> sum_list ?ls" using d nn(2) [of "Suc ?i"] by linarith
  then show "days_before_year y \<le> date_days y m d" "date_days y m d < days_before_year (y + 1)"
    using nn(1) [of ?i] d sum_month_lengths [of y] by (auto simp: date_days_def)
qed

lemma days_date_date_days:
  assumes "real_date y m d"
  shows "days_date (date_days y m d) = (y, m, d)"
proof -
  let ?n = "date_days y m d"
  have "year_of ?n = y"
    by (rule year_unique [of _ ?n]) (use year_of_bounds [of ?n] real_date_in_year [OF assms] in auto)
  moreover have "month_day (month_lengths y) 1 (?n - days_before_year y) = (m, d)"
    using month_day_complete [of "nat (m - 1)" "month_lengths y" d 1] assms month_lengths_pos [of y]
    by (force simp: real_date_def date_days_def algebra_simps)
  ultimately show ?thesis by (simp add: days_date_def)
qed

lemma days_date_real:
  assumes "days_date n = (y, m, d)"
  shows "real_date y m d" and "date_days y m d = n"
proof -
  have y: "y = year_of n" and md: "month_day (month_lengths y) 1 (n - days_before_year y) = (m, d)"
    using assms by (auto simp: days_date_def Let_def)
  have "0 \<le> n - days_before_year y" "n - days_before_year y < sum_list (month_lengths y)"
    using year_of_bounds [of n] y sum_month_lengths [of y] by auto
  from month_day_sound [OF this md] obtain i where "i < 12" "m = 1 + int i" "1 \<le> d"
    "d \<le> month_lengths y ! i" "n - days_before_year y = sum_list (take i (month_lengths y)) + d - 1"
    by auto
  then show "real_date y m d" "date_days y m d = n" by (auto simp: real_date_def date_days_def)
qed

lemma date_days_inj:
  "real_date y m d \<Longrightarrow> real_date y' m' d' \<Longrightarrow> date_days y m d = date_days y' m' d'
   \<Longrightarrow> y = y' \<and> m = m' \<and> d = d'"
  by (metis days_date_date_days prod.inject)

subsection \<open>RFC 3339 text\<close>

text \<open>
  A \<open>time.Time\<close> is its number of nanoseconds since the Unix epoch. \<open>rfc3339_format\<close> is
  \<open>Format(time.RFC3339Nano)\<close> of a UTC time, for every time whose year is not below the
  library's absolute zero year -292277022399. \<open>rfc3339_parse\<close> is \<open>time.Parse\<close> with the same
  layout on texts of the shape that \<open>Format\<close> prints for years 0 to 9999 (upper case T and Z, a
  point before a non-empty fraction); every other text is refused here, where the library
  refuses it or reads a time whose \<open>Format\<close> is a different text.
\<close>

definition epoch_day :: int where
  "epoch_day = 719162"

definition nanos :: int where
  "nanos = 1000000000"

definition rfc3339_frac :: "nat \<Rightarrow> string" where
  "rfc3339_frac n =
     (if n = 0 then [] else ''.'' @ rev (dropWhile (\<lambda>c. c = CHR ''0'') (rev (pad 9 n))))"

definition rfc3339_format :: "int \<Rightarrow> string" where
  "rfc3339_format t =
     (let s = t div nanos; (y, m, d) = days_date (s div 86400 + epoch_day); sod = nat (s mod 86400) in
      (if y < 0 then ''-'' @ pad 4 (nat (- y)) else pad 4 (nat y)) @ ''-'' @ pad 2 (nat m) @ ''-''
      @ pad 2 (nat d) @ ''T'' @ pad 2 (sod div 3600) @ '':'' @ pad 2 (sod div 60 mod 60) @ '':''
      @ pad 2 (sod mod 60) @ rfc3339_frac (nat (t mod nanos)) @ ''Z'')"

definition num_at :: "string \<Rightarrow> nat \<Rightarrow> nat \<Rightarrow> nat" where
  "num_at s i k = digits_val (take k (drop i s))"

definition digits_at :: "string \<Rightarrow> nat list \<Rightarrow> bool" where
  "digits_at s is \<longleftrightarrow> list_all (\<lambda>i. is_digit (s ! i)) is"

definition rfc3339_parse :: "string \<Rightarrow> int option" where
  "rfc3339_parse s =
     (if length s < 20 \<or> \<not> digits_at s [0, 1, 2, 3, 5, 6, 8, 9, 11, 12, 14, 15, 17, 18]
         \<or> s ! 4 \<noteq> CHR ''-'' \<or> s ! 7 \<noteq> CHR ''-'' \<or> s ! 10 \<noteq> CHR ''T'' \<or> s ! 13 \<noteq> CHR '':''
         \<or> s ! 16 \<noteq> CHR '':'' \<or> last s \<noteq> CHR ''Z'' then None
      else let y = int (num_at s 0 4); m = int (num_at s 5 2); d = int (num_at s 8 2);
               hh = num_at s 11 2; mi = num_at s 14 2; se = num_at s 17 2;
               frac = butlast (drop 19 s) in
        if \<not> real_date y m d \<or> hh > 23 \<or> mi > 59 \<or> se > 59 then None
        else if frac \<noteq> [] \<and> (hd frac \<noteq> CHR ''.'' \<or> tl frac = [] \<or> \<not> list_all is_digit (tl frac)) then None
        else let ds = take 9 (tl frac) in
          Some (((date_days y m d - epoch_day) * 86400 + int (3600 * hh + 60 * mi + se)) * nanos
                + int (digits_val ds * 10 ^ (9 - length ds))))"

end
