(* ===== verification/Values_Civil.thy ===== *)
theory Values_Civil
  imports Values_Identity Go_Time
begin

text \<open>
  Package \<open>internal/kernel/values\<close>, first part of \<open>time.go\<close>: instants, local dates and local
  times of day. A \<open>time.Time\<close> in UTC is its number of nanoseconds since the Unix epoch; the
  conversions of \<open>time.Date\<close> wrap at 64 bits as they do in the library.

  What is proved: the text of each of the three types is a canonical text, the probe of
  NewLocalDate accepts exactly the real Gregorian dates, AddDays is addition of day numbers,
  and the comparisons are the orders of the timeline and of the day numbers.
\<close>

subsection \<open>Instants\<close>

record Instant =
  i_set :: bool
  i_sec :: int
  i_nsec :: int

definition zero_Instant :: Instant where
  "zero_Instant = \<lparr>i_set = False, i_sec = 0, i_nsec = 0\<rparr>"

definition NewInstant :: "int \<Rightarrow> Instant" where
  "NewInstant t = \<lparr>i_set = True, i_sec = t div nanos, i_nsec = t mod nanos\<rparr>"

definition NewInstantFromUnix :: "int \<Rightarrow> int \<Rightarrow> Instant res" where
  "NewInstantFromUnix sec nsec =
     (if nsec < 0 \<or> nsec > 999999999 then Inl (CivilErr ErrInstantRange)
      else Inr \<lparr>i_set = True, i_sec = sec, i_nsec = nsec\<rparr>)"

definition Instant_Validate :: "Instant \<Rightarrow> verr option" where
  "Instant_Validate i =
     first_err (reject (\<not> i_set i) (CivilErr ErrInstantUnset))
       (reject (i_nsec i < 0 \<or> i_nsec i > 999999999) (CivilErr ErrInstantRange))"

definition Instant_Time :: "Instant \<Rightarrow> int" where
  "Instant_Time i = i_sec i * nanos + i_nsec i"

definition Instant_Compare :: "Instant \<Rightarrow> Instant \<Rightarrow> int" where
  "Instant_Compare i j =
     (if i_sec i \<noteq> i_sec j then (if i_sec i < i_sec j then - 1 else 1)
      else if i_nsec i \<noteq> i_nsec j then (if i_nsec i < i_nsec j then - 1 else 1)
      else 0)"

definition Instant_Before :: "Instant \<Rightarrow> Instant \<Rightarrow> bool" where
  "Instant_Before i j \<longleftrightarrow> Instant_Compare i j < 0"

definition Instant_After :: "Instant \<Rightarrow> Instant \<Rightarrow> bool" where
  "Instant_After i j \<longleftrightarrow> Instant_Compare i j > 0"

definition Instant_String :: "Instant \<Rightarrow> string" where
  "Instant_String i = (if Instant_Validate i \<noteq> None then [] else rfc3339_format (Instant_Time i))"

definition tagInstant :: char where
  "tagInstant = CHR 0x01"

definition Instant_Canonical :: "Instant \<Rightarrow> bytes" where
  "Instant_Canonical i =
     (if Instant_Validate i \<noteq> None then [] else tagInstant # be64 (i_sec i) @ be32 (i_nsec i))"

definition Instant_MarshalText :: "Instant \<Rightarrow> bytes res" where
  "Instant_MarshalText i = guard_res (Instant_Validate i) (Inr (Instant_String i))"

definition Instant_UnmarshalText :: "bytes \<Rightarrow> Instant res" where
  "Instant_UnmarshalText s =
     (case rfc3339_parse s of
        None \<Rightarrow> Inl (CivilErr ErrInstantFormat)
      | Some t \<Rightarrow>
          let candidate = NewInstant t in
          if Instant_String candidate \<noteq> s then Inl (CivilErr ErrInstantFormat) else Inr candidate)"

subsection \<open>Local dates\<close>

record LocalDate =
  ld_set :: bool
  ld_year :: int
  ld_month :: int
  ld_day :: int

definition zero_LocalDate :: LocalDate where
  "zero_LocalDate = \<lparr>ld_set = False, ld_year = 0, ld_month = 0, ld_day = 0\<rparr>"

text \<open>
  \<open>time.Date(y, m, d, 0, 0, 0, 0, time.UTC)\<close> in seconds, with the 64-bit wrap-around of the
  library, and the date it reads back.
\<close>

definition go_date_unix :: "int \<Rightarrow> int \<Rightarrow> int \<Rightarrow> int" where
  "go_date_unix y m d = go_int64 ((date_days y m d - epoch_day) * 86400)"

definition unix_date :: "int \<Rightarrow> int \<times> int \<times> int" where
  "unix_date s = days_date (s div 86400 + epoch_day)"

definition NewLocalDate :: "int \<Rightarrow> int \<Rightarrow> int \<Rightarrow> LocalDate res" where
  "NewLocalDate year month day =
     (if year < 1 \<or> year > 9999 then Inl (CivilErr ErrInvalidLocalDate)
      else if month < 1 \<or> month > 12 then Inl (CivilErr ErrInvalidLocalDate)
      else if day < 1 \<or> day > 31 then Inl (CivilErr ErrInvalidLocalDate)
      else let (py, pm, pd) = unix_date (go_date_unix year month day) in
        if py \<noteq> year \<or> pm \<noteq> month \<or> pd \<noteq> day then Inl (CivilErr ErrInvalidLocalDate)
        else Inr \<lparr>ld_set = True, ld_year = year, ld_month = month, ld_day = day\<rparr>)"

definition ParseLocalDate :: "string \<Rightarrow> LocalDate res" where
  "ParseLocalDate s =
     (if length s \<noteq> 10 \<or> s ! 4 \<noteq> CHR ''-'' \<or> s ! 7 \<noteq> CHR ''-'' then Inl (CivilErr ErrInvalidLocalDate)
      else if \<not> digits_at s [0, 1, 2, 3, 5, 6, 8, 9] then Inl (CivilErr ErrInvalidLocalDate)
      else NewLocalDate (int (num_at s 0 4)) (int (num_at s 5 2)) (int (num_at s 8 2)))"

definition LocalDate_Validate :: "LocalDate \<Rightarrow> verr option" where
  "LocalDate_Validate d =
     first_err (reject (\<not> ld_set d) (CivilErr ErrLocalDateUnset))
       (err_of (NewLocalDate (ld_year d) (ld_month d) (ld_day d)))"

definition LocalDate_AddDays :: "LocalDate \<Rightarrow> int \<Rightarrow> LocalDate" where
  "LocalDate_AddDays d n =
     (if LocalDate_Validate d \<noteq> None then zero_LocalDate
      else let (y, m, k) = unix_date (go_date_unix (ld_year d) (ld_month d) (ld_day d + n)) in
        case NewLocalDate y m k of Inl _ \<Rightarrow> zero_LocalDate | Inr out \<Rightarrow> out)"

definition LocalDate_Compare :: "LocalDate \<Rightarrow> LocalDate \<Rightarrow> int" where
  "LocalDate_Compare d e =
     (if ld_year d \<noteq> ld_year e then (if ld_year d < ld_year e then - 1 else 1)
      else if ld_month d \<noteq> ld_month e then (if ld_month d < ld_month e then - 1 else 1)
      else if ld_day d \<noteq> ld_day e then (if ld_day d < ld_day e then - 1 else 1)
      else 0)"

definition LocalDate_String :: "LocalDate \<Rightarrow> string" where
  "LocalDate_String d =
     (if LocalDate_Validate d \<noteq> None then []
      else pad 4 (nat (ld_year d)) @ ''-'' @ pad 2 (nat (ld_month d)) @ ''-'' @ pad 2 (nat (ld_day d)))"

definition tagLocalDate :: char where
  "tagLocalDate = CHR 0x02"

definition LocalDate_Canonical :: "LocalDate \<Rightarrow> bytes" where
  "LocalDate_Canonical d =
     (if LocalDate_Validate d \<noteq> None then []
      else tagLocalDate # be32 (ld_year d) @ [char_of (nat (ld_month d)), char_of (nat (ld_day d))])"

definition LocalDate_MarshalText :: "LocalDate \<Rightarrow> bytes res" where
  "LocalDate_MarshalText d = guard_res (LocalDate_Validate d) (Inr (LocalDate_String d))"

definition LocalDate_UnmarshalText :: "bytes \<Rightarrow> LocalDate res" where
  "LocalDate_UnmarshalText txt = bind_res (ParseLocalDate txt) (\<lambda>parsed. Inr parsed)"

subsection \<open>Local times\<close>

record LocalTime =
  lt_set :: bool
  lt_hour :: int
  lt_minute :: int
  lt_second :: int
  lt_nanos :: int

definition NewLocalTime :: "int \<Rightarrow> int \<Rightarrow> int \<Rightarrow> int \<Rightarrow> LocalTime res" where
  "NewLocalTime hour minute second ns =
     (if hour < 0 \<or> hour > 23 then Inl (CivilErr ErrInvalidLocalTime)
      else if minute < 0 \<or> minute > 59 then Inl (CivilErr ErrInvalidLocalTime)
      else if second < 0 \<or> second > 59 then Inl (CivilErr ErrInvalidLocalTime)
      else if ns < 0 \<or> ns > 999999999 then Inl (CivilErr ErrInvalidLocalTime)
      else Inr \<lparr>lt_set = True, lt_hour = hour, lt_minute = minute, lt_second = second, lt_nanos = ns\<rparr>)"

definition ParseLocalTime :: "string \<Rightarrow> LocalTime res" where
  "ParseLocalTime s =
     (let (head, frac, hasFrac) = cut CHR ''.'' s in
      if length head \<noteq> 8 \<or> head ! 2 \<noteq> CHR '':'' \<or> head ! 5 \<noteq> CHR '':'' then Inl (CivilErr ErrInvalidLocalTime)
      else if \<not> digits_at head [0, 1, 3, 4, 6, 7] then Inl (CivilErr ErrInvalidLocalTime)
      else if hasFrac \<and> length frac \<noteq> 9 then Inl (CivilErr ErrInvalidLocalTime)
      else if hasFrac \<and> \<not> digits_at frac [0..<9] then Inl (CivilErr ErrInvalidLocalTime)
      else if hasFrac \<and> digits_val frac = 0 then Inl (CivilErr ErrInvalidLocalTime)
      else NewLocalTime (int (num_at head 0 2)) (int (num_at head 3 2)) (int (num_at head 6 2))
             (if hasFrac then int (digits_val frac) else 0))"

definition LocalTime_Validate :: "LocalTime \<Rightarrow> verr option" where
  "LocalTime_Validate v =
     first_err (reject (\<not> lt_set v) (CivilErr ErrLocalTimeUnset))
       (err_of (NewLocalTime (lt_hour v) (lt_minute v) (lt_second v) (lt_nanos v)))"

definition LocalTime_String :: "LocalTime \<Rightarrow> string" where
  "LocalTime_String v =
     (if LocalTime_Validate v \<noteq> None then []
      else let base = pad 2 (nat (lt_hour v)) @ '':'' @ pad 2 (nat (lt_minute v)) @ '':'' @ pad 2 (nat (lt_second v)) in
        if lt_nanos v = 0 then base else base @ ''.'' @ pad 9 (nat (lt_nanos v)))"

definition tagLocalTime :: char where
  "tagLocalTime = CHR 0x03"

definition LocalTime_Canonical :: "LocalTime \<Rightarrow> bytes" where
  "LocalTime_Canonical v =
     (if LocalTime_Validate v \<noteq> None then []
      else [tagLocalTime, char_of (nat (lt_hour v)), char_of (nat (lt_minute v)), char_of (nat (lt_second v))]
           @ be32 (lt_nanos v))"

definition LocalTime_MarshalText :: "LocalTime \<Rightarrow> bytes res" where
  "LocalTime_MarshalText v = guard_res (LocalTime_Validate v) (Inr (LocalTime_String v))"

definition LocalTime_UnmarshalText :: "bytes \<Rightarrow> LocalTime res" where
  "LocalTime_UnmarshalText txt = bind_res (ParseLocalTime txt) (\<lambda>parsed. Inr parsed)"

subsection \<open>Day numbers\<close>

definition day_number :: "LocalDate \<Rightarrow> int" where
  "day_number d = date_days (ld_year d) (ld_month d) (ld_day d)"

lemma days_before_year_range:
  "1 \<le> y \<Longrightarrow> 0 \<le> days_before_year y" "y \<le> 10000 \<Longrightarrow> days_before_year y \<le> 3652059"
proof -
  have e: "days_before_year 1 = 0" "days_before_year 10000 = 3652059" by (simp_all add: days_before_year_def)
  show "1 \<le> y \<Longrightarrow> 0 \<le> days_before_year y"
    using days_before_year_mono [of 1 y] days_before_year_step [of 1] e
    by (cases "y = 1") (auto split: if_splits)
  show "y \<le> 10000 \<Longrightarrow> days_before_year y \<le> 3652059"
    using days_before_year_mono [of y 10000] days_before_year_step [of y] e
    by (cases "y = 10000") (auto split: if_splits)
qed

lemma month_prefix_range: "0 \<le> sum_list (take i (month_lengths y)) \<and> sum_list (take i (month_lengths y)) \<le> 366"
proof -
  have nn: "0 \<le> sum_list (take i (month_lengths y))" "0 \<le> sum_list (drop i (month_lengths y))"
    using month_lengths_pos [of y]
    by (auto intro!: sum_list_nonneg dest!: in_set_takeD in_set_dropD)
  have "sum_list (take i (month_lengths y)) + sum_list (drop i (month_lengths y)) = sum_list (month_lengths y)"
    by (metis append_take_drop_id sum_list_append)
  moreover have "sum_list (month_lengths y) \<le> 366" by (simp add: month_lengths_def)
  ultimately show ?thesis using nn by linarith
qed

lemma go_int64_id: "- (2 ^ 63) \<le> n \<Longrightarrow> n < 2 ^ 63 \<Longrightarrow> go_int64 n = n"
  by (simp add: go_int64_def)

lemma unix_date_of_days:
  assumes "\<bar>date_days y m d\<bar> \<le> 2 * 10 ^ 13"
  shows "unix_date (go_date_unix y m d) = days_date (date_days y m d)"
proof -
  have "go_date_unix y m d = (date_days y m d - epoch_day) * 86400"
    unfolding go_date_unix_def using assms by (intro go_int64_id) (auto simp: epoch_day_def)
  then show ?thesis by (simp add: unix_date_def)
qed

lemma date_days_range:
  assumes "1 \<le> y" "y \<le> 9999" "\<bar>d\<bar> \<le> 10 ^ 13 + 31"
  shows "\<bar>date_days y m d\<bar> \<le> 2 * 10 ^ 13"
  using assms days_before_year_range [of y] month_prefix_range [of "nat (m - 1)" y]
  by (auto simp: date_days_def)

lemma NewLocalDate_Inr_iff:
  "NewLocalDate y m d = Inr r \<longleftrightarrow>
     1 \<le> y \<and> y \<le> 9999 \<and> real_date y m d
     \<and> r = \<lparr>ld_set = True, ld_year = y, ld_month = m, ld_day = d\<rparr>"
proof (cases "1 \<le> y \<and> y \<le> 9999 \<and> 1 \<le> m \<and> m \<le> 12 \<and> 1 \<le> d \<and> d \<le> 31")
  case False
  then have "\<exists>e. NewLocalDate y m d = Inl e" by (auto simp: NewLocalDate_def)
  moreover have "\<not> (1 \<le> y \<and> y \<le> 9999 \<and> real_date y m d)"
    using False real_date_day [of y m d] by (auto simp: real_date_def)
  ultimately show ?thesis by auto
next
  case True
  have u: "unix_date (go_date_unix y m d) = days_date (date_days y m d)"
    by (rule unix_date_of_days, rule date_days_range) (use True in auto)
  show ?thesis
  proof (cases "real_date y m d")
    case r: True
    then show ?thesis using True u days_date_date_days [OF r] by (auto simp: NewLocalDate_def)
  next
    case r: False
    obtain py pm pd where p: "days_date (date_days y m d) = (py, pm, pd)"
      by (cases "days_date (date_days y m d)")
    then have "(py, pm, pd) \<noteq> (y, m, d)" using days_date_real(1) [OF p] r by auto
    then have "py \<noteq> y \<or> pm \<noteq> m \<or> pd \<noteq> d" by simp
    then show ?thesis using True u p r by (auto simp: NewLocalDate_def)
  qed
qed

lemma LocalDate_Validate_iff:
  "LocalDate_Validate d = None \<longleftrightarrow>
     ld_set d \<and> 1 \<le> ld_year d \<and> ld_year d \<le> 9999 \<and> real_date (ld_year d) (ld_month d) (ld_day d)"
  by (auto simp: LocalDate_Validate_def err_of_None_iff NewLocalDate_Inr_iff)

lemma day_number_range:
  assumes "LocalDate_Validate d = None"
  shows "0 \<le> day_number d" "day_number d < 3652059"
  using assms real_date_in_year [of "ld_year d" "ld_month d" "ld_day d"]
    days_before_year_range(1) [of "ld_year d"] days_before_year_range(2) [of "ld_year d + 1"]
  by (auto simp: LocalDate_Validate_iff day_number_def)

lemma year_of_range: "1 \<le> year_of n \<and> year_of n \<le> 9999 \<longleftrightarrow> 0 \<le> n \<and> n < 3652059"
proof -
  have e: "days_before_year 1 = 0" "days_before_year 10000 = 3652059" by (simp_all add: days_before_year_def)
  show ?thesis
    using year_of_bounds [of n] days_before_year_range(1) [of "year_of n"]
      days_before_year_range(2) [of "year_of n + 1"] days_before_year_mono [of "year_of n" 1]
      days_before_year_mono [of 9999 "year_of n"] e by fastforce
qed

lemma day_number_inj:
  "LocalDate_Validate d = None \<Longrightarrow> LocalDate_Validate e = None \<Longrightarrow> day_number d = day_number e \<Longrightarrow> d = e"
  by (cases d, cases e) (auto simp: LocalDate_Validate_iff day_number_def dest: date_days_inj)

lemma month_prefix_mono:
  "i < j \<Longrightarrow> j \<le> 12 \<Longrightarrow> sum_list (take i (month_lengths y)) + month_lengths y ! i \<le> sum_list (take j (month_lengths y))"
proof -
  assume ij: "i < j" "j \<le> 12"
  have "take j (month_lengths y) = take (Suc i) (month_lengths y) @ take (j - Suc i) (drop (Suc i) (month_lengths y))"
    using ij by (metis Suc_leI le_add_diff_inverse take_add)
  moreover have "0 \<le> sum_list (take (j - Suc i) (drop (Suc i) (month_lengths y)))"
    using month_lengths_pos [of y] by (auto intro!: sum_list_nonneg dest!: in_set_takeD in_set_dropD)
  ultimately show ?thesis using ij by (simp add: take_Suc_conv_app_nth)
qed

lemma day_number_less:
  assumes "LocalDate_Validate d = None" "LocalDate_Validate e = None" "LocalDate_Compare d e = - 1"
  shows "day_number d < day_number e"
proof -
  have v: "real_date (ld_year d) (ld_month d) (ld_day d)" "real_date (ld_year e) (ld_month e) (ld_day e)"
    using assms by (auto simp: LocalDate_Validate_iff)
  consider "ld_year d < ld_year e" | "ld_year d = ld_year e" "ld_month d < ld_month e"
    | "ld_year d = ld_year e" "ld_month d = ld_month e" "ld_day d < ld_day e"
    using assms(3) by (auto simp: LocalDate_Compare_def split: if_splits)
  then show ?thesis
  proof cases
    case 1
    then show ?thesis
      using real_date_in_year [OF v(1)] real_date_in_year [OF v(2)] days_before_year_mono [of "ld_year d" "ld_year e"]
      by (simp add: day_number_def)
  next
    case 2
    then have "nat (ld_month d - 1) < nat (ld_month e - 1)" "nat (ld_month e - 1) \<le> 12"
      using v by (auto simp: real_date_def)
    from month_prefix_mono [OF this, of "ld_year e"] show ?thesis
      using 2 v by (auto simp: day_number_def date_days_def real_date_def)
  next
    case 3
    then show ?thesis by (simp add: day_number_def date_days_def)
  qed
qed

lemma Compare_swap: "LocalDate_Compare e d = - LocalDate_Compare d e"
  by (auto simp: LocalDate_Compare_def)

lemma Compare_cases: "LocalDate_Compare d e \<in> {- 1, 0, 1}"
  by (simp add: LocalDate_Compare_def)

lemma LocalDate_Compare_sgn:
  assumes "LocalDate_Validate d = None" "LocalDate_Validate e = None"
  shows "LocalDate_Compare d e = sgn (day_number d - day_number e)"
proof -
  consider "LocalDate_Compare d e = - 1" | "LocalDate_Compare d e = 1" | "LocalDate_Compare d e = 0"
    using Compare_cases by blast
  then show ?thesis
  proof cases
    case 1
    then show ?thesis using day_number_less [OF assms] by (simp add: sgn_if)
  next
    case 2
    then show ?thesis using day_number_less [OF assms(2,1)] Compare_swap [of e d] by (simp add: sgn_if)
  next
    case 3
    then show ?thesis by (auto simp: LocalDate_Compare_def day_number_def split: if_splits)
  qed
qed

lemma Instant_Compare_sgn:
  assumes "Instant_Validate i = None" "Instant_Validate j = None"
  shows "Instant_Compare i j = sgn (Instant_Time i - Instant_Time j)"
proof -
  have "0 \<le> i_nsec i" "i_nsec i < nanos" "0 \<le> i_nsec j" "i_nsec j < nanos"
    using assms by (auto simp: Instant_Validate_def nanos_def)
  moreover have "i_sec i < i_sec j \<Longrightarrow> i_sec i * nanos + nanos \<le> i_sec j * nanos"
    "i_sec j < i_sec i \<Longrightarrow> i_sec j * nanos + nanos \<le> i_sec i * nanos" by (auto simp: nanos_def)
  ultimately show ?thesis
    by (auto simp: Instant_Compare_def Instant_Time_def sgn_if)
qed

subsection \<open>Adding days\<close>

lemma AddDays_day_number:
  assumes "LocalDate_Validate d = None" and n: "\<bar>n\<bar> \<le> 10 ^ 13"
  shows "if 0 \<le> day_number d + n \<and> day_number d + n < 3652059
         then LocalDate_Validate (LocalDate_AddDays d n) = None
              \<and> day_number (LocalDate_AddDays d n) = day_number d + n
         else LocalDate_AddDays d n = zero_LocalDate"
proof -
  let ?N = "date_days (ld_year d) (ld_month d) (ld_day d + n)"
  have v: "1 \<le> ld_year d" "ld_year d \<le> 9999" "1 \<le> ld_day d" "ld_day d \<le> 31"
    using assms real_date_day by (auto simp: LocalDate_Validate_iff)
  have N: "?N = day_number d + n" by (simp add: day_number_def date_days_def)
  have u: "unix_date (go_date_unix (ld_year d) (ld_month d) (ld_day d + n)) = days_date ?N"
    by (rule unix_date_of_days, rule date_days_range) (use v n in auto)
  obtain y m k where ymk: "days_date ?N = (y, m, k)" by (cases "days_date ?N")
  have y: "y = year_of ?N" using ymk by (simp add: days_date_def Let_def)
  show ?thesis
  proof (cases "1 \<le> y \<and> y \<le> 9999")
    case True
    then have "NewLocalDate y m k = Inr \<lparr>ld_set = True, ld_year = y, ld_month = m, ld_day = k\<rparr>"
      using days_date_real(1) [OF ymk] by (simp add: NewLocalDate_Inr_iff)
    then have "LocalDate_AddDays d n = \<lparr>ld_set = True, ld_year = y, ld_month = m, ld_day = k\<rparr>"
      using assms u ymk by (simp add: LocalDate_AddDays_def)
    then show ?thesis using True y year_of_range [of ?N] N days_date_real [OF ymk]
      by (simp add: LocalDate_Validate_iff day_number_def)
  next
    case False
    then obtain e where "NewLocalDate y m k = Inl e" by (auto simp: NewLocalDate_def)
    then have "LocalDate_AddDays d n = zero_LocalDate" using assms u ymk by (simp add: LocalDate_AddDays_def)
    then show ?thesis using False y year_of_range [of ?N] N by auto
  qed
qed

lemma go_int64_shift: "go_int64 (n + 2 ^ 64 * k) = go_int64 n"
proof -
  have "n + 2 ^ 64 * k + 2 ^ 63 = (n + 2 ^ 63) + 2 ^ 64 * k" by simp
  then show ?thesis by (simp only: go_int64_def mod_mult_self2)
qed

lemma AddDays_wrap:
  assumes "LocalDate_Validate d = None"
  shows "LocalDate_AddDays d (2 ^ 57) = d"
proof -
  have "go_date_unix (ld_year d) (ld_month d) (ld_day d + 2 ^ 57)
      = go_int64 ((date_days (ld_year d) (ld_month d) (ld_day d) - epoch_day) * 86400 + 2 ^ 64 * 675)"
    unfolding go_date_unix_def date_days_def by (rule arg_cong [of _ _ go_int64]) simp
  then have "go_date_unix (ld_year d) (ld_month d) (ld_day d + 2 ^ 57) = go_date_unix (ld_year d) (ld_month d) (ld_day d)"
    by (simp only: go_int64_shift go_date_unix_def)
  then have "LocalDate_AddDays d (2 ^ 57) = LocalDate_AddDays d 0" by (simp add: LocalDate_AddDays_def)
  moreover have "day_number (LocalDate_AddDays d 0) = day_number d" "LocalDate_Validate (LocalDate_AddDays d 0) = None"
    using AddDays_day_number [OF assms, of 0] day_number_range [OF assms] by auto
  ultimately show ?thesis using day_number_inj assms by metis
qed


subsection \<open>Texts\<close>

lemma pad_list:
  assumes "0 < k" "n < 10 ^ k"
  shows "length (pad k n) = k" "list_all is_digit (pad k n)" "digits_val (pad k n) = n"
  using assms by (auto simp: length_pad list_all_iff pad_are_digits)

lemma length_2: "length xs = 2 \<Longrightarrow> \<exists>a b. xs = [a, b]"
  by (auto simp: length_Suc_conv numeral_2_eq_2)

lemma length_4: "length xs = 4 \<Longrightarrow> \<exists>a b c d. xs = [a, b, c, d]"
  by (auto simp: length_Suc_conv numeral_eq_Suc)

lemma pad_2: "n < 100 \<Longrightarrow> \<exists>a b. pad 2 n = [a, b] \<and> is_digit a \<and> is_digit b \<and> digits_val [a, b] = n"
  using pad_list(1,2) [of 2 n] length_2 [of "pad 2 n"] digits_val_pad [of 2 n]
  by (auto simp del: digits_val_pad)

lemma pad_4:
  "n < 10000 \<Longrightarrow> \<exists>a b c d. pad 4 n = [a, b, c, d] \<and> list_all is_digit [a, b, c, d] \<and> digits_val [a, b, c, d] = n"
  using pad_list(1,2) [of 4 n] length_4 [of "pad 4 n"] digits_val_pad [of 4 n]
  by (auto simp del: digits_val_pad)

lemma ymd_text:
  assumes "y < 10000" "m < 100" "d < 100"
  shows "ParseLocalDate (pad 4 y @ ''-'' @ pad 2 m @ ''-'' @ pad 2 d) = NewLocalDate (int y) (int m) (int d)"
proof -
  obtain y1 y2 y3 y4 where y: "pad 4 y = [y1, y2, y3, y4]" "list_all is_digit [y1, y2, y3, y4]"
    "digits_val [y1, y2, y3, y4] = y" using pad_4 [OF assms(1)] by blast
  obtain m1 m2 where m: "pad 2 m = [m1, m2]" "is_digit m1" "is_digit m2" "digits_val [m1, m2] = m"
    using pad_2 [OF assms(2)] by blast
  obtain d1 d2 where d: "pad 2 d = [d1, d2]" "is_digit d1" "is_digit d2" "digits_val [d1, d2] = d"
    using pad_2 [OF assms(3)] by blast
  show ?thesis using y m d by (simp add: ParseLocalDate_def digits_at_def num_at_def)
qed

lemma ymd_text_shape:
  assumes "length s = 10" "s ! 4 = CHR ''-''" "s ! 7 = CHR ''-''" "digits_at s [0, 1, 2, 3, 5, 6, 8, 9]"
  shows "s = pad 4 (num_at s 0 4) @ ''-'' @ pad 2 (num_at s 5 2) @ ''-'' @ pad 2 (num_at s 8 2)"
proof -
  from assms(1) obtain a b c d e f g h i j where s: "s = [a, b, c, d, e, f, g, h, i, j]"
    by (auto simp: length_Suc_conv numeral_eq_Suc)
  have "pad 4 (digits_val [a, b, c, d]) = [a, b, c, d]" "pad 2 (digits_val [f, g]) = [f, g]"
    "pad 2 (digits_val [i, j]) = [i, j]"
    by (rule pad_digits_val; use assms s in \<open>simp add: digits_at_def\<close>)+
  then show ?thesis using assms s by (simp add: num_at_def)
qed

interpretation local_date: canonical_text "\<lambda>_ :: unit. True" "\<lambda>_ d. LocalDate_Validate d = None"
  "\<lambda>_. LocalDate_MarshalText" "\<lambda>_. LocalDate_UnmarshalText"
proof unfold_locales
  fix d
  assume v: "LocalDate_Validate d = None"
  then have r: "1 \<le> ld_year d" "ld_year d \<le> 9999" "ld_set d" and rd: "real_date (ld_year d) (ld_month d) (ld_day d)"
    by (auto simp: LocalDate_Validate_iff)
  have b: "1 \<le> ld_month d" "ld_month d \<le> 12" "1 \<le> ld_day d" "ld_day d \<le> 31"
    using rd real_date_day [OF rd] by (auto simp: real_date_def)
  have "ParseLocalDate (LocalDate_String d) = NewLocalDate (ld_year d) (ld_month d) (ld_day d)"
    using v r b ymd_text [of "nat (ld_year d)" "nat (ld_month d)" "nat (ld_day d)"]
    by (simp add: LocalDate_String_def)
  also have "\<dots> = Inr d" using r rd by (cases d) (simp add: NewLocalDate_Inr_iff)
  finally show "\<exists>t. LocalDate_MarshalText d = Inr t \<and> LocalDate_UnmarshalText t = Inr d"
    using v by (simp add: LocalDate_MarshalText_def LocalDate_UnmarshalText_def)
next
  fix t d
  assume "LocalDate_UnmarshalText t = Inr d"
  then have sh: "length t = 10" "t ! 4 = CHR ''-''" "t ! 7 = CHR ''-''" "digits_at t [0, 1, 2, 3, 5, 6, 8, 9]"
    and n: "NewLocalDate (int (num_at t 0 4)) (int (num_at t 5 2)) (int (num_at t 8 2)) = Inr d"
    by (auto simp: LocalDate_UnmarshalText_def ParseLocalDate_def split: if_splits)
  then have "LocalDate_Validate d = None" by (auto simp: LocalDate_Validate_iff NewLocalDate_Inr_iff)
  moreover have "LocalDate_String d = t"
    using calculation n ymd_text_shape [OF sh] by (auto simp: LocalDate_String_def NewLocalDate_Inr_iff)
  ultimately show "LocalDate_Validate d = None \<and> LocalDate_MarshalText d = Inr t"
    by (simp add: LocalDate_MarshalText_def)
qed

lemma hms_text:
  assumes "h < 100" "m < 100" "c < 100"
  defines "b \<equiv> pad 2 h @ '':'' @ pad 2 m @ '':'' @ pad 2 c"
  shows "length b = 8" "b ! 2 = CHR '':''" "b ! 5 = CHR '':''" "digits_at b [0, 1, 3, 4, 6, 7]"
    "num_at b 0 2 = h" "num_at b 3 2 = m" "num_at b 6 2 = c" "CHR ''.'' \<notin> set b"
proof -
  obtain h1 h2 where h: "pad 2 h = [h1, h2]" "is_digit h1" "is_digit h2" "digits_val [h1, h2] = h"
    using pad_2 [OF assms(1)] by blast
  obtain m1 m2 where m: "pad 2 m = [m1, m2]" "is_digit m1" "is_digit m2" "digits_val [m1, m2] = m"
    using pad_2 [OF assms(2)] by blast
  obtain c1 c2 where c: "pad 2 c = [c1, c2]" "is_digit c1" "is_digit c2" "digits_val [c1, c2] = c"
    using pad_2 [OF assms(3)] by blast
  show "length b = 8" "b ! 2 = CHR '':''" "b ! 5 = CHR '':''" "digits_at b [0, 1, 3, 4, 6, 7]"
    "num_at b 0 2 = h" "num_at b 3 2 = m" "num_at b 6 2 = c"
    using h m c by (simp_all add: b_def digits_at_def num_at_def)
  have "\<not> is_digit CHR ''.''" by (simp add: is_digit_def)
  then show "CHR ''.'' \<notin> set b" using h m c by (auto simp: b_def)
qed

lemma hms_text_shape:
  assumes "length b = 8" "b ! 2 = CHR '':''" "b ! 5 = CHR '':''" "digits_at b [0, 1, 3, 4, 6, 7]"
  shows "pad 2 (num_at b 0 2) @ '':'' @ pad 2 (num_at b 3 2) @ '':'' @ pad 2 (num_at b 6 2) = b"
proof -
  from assms(1) obtain a1 a2 a3 a4 a5 a6 a7 a8 where s: "b = [a1, a2, a3, a4, a5, a6, a7, a8]"
    by (auto simp: length_Suc_conv numeral_eq_Suc)
  have "pad 2 (digits_val [a1, a2]) = [a1, a2]" "pad 2 (digits_val [a4, a5]) = [a4, a5]"
    "pad 2 (digits_val [a7, a8]) = [a7, a8]"
    by (rule pad_digits_val; use assms s in \<open>simp add: digits_at_def\<close>)+
  then show ?thesis using assms s by (simp add: num_at_def)
qed

lemma digits_at_all: "length s = n \<Longrightarrow> digits_at s [0..<n] \<longleftrightarrow> list_all is_digit s"
  by (auto simp: digits_at_def list_all_length list_all_iff)

lemma NewLocalTime_Inr_iff:
  "NewLocalTime h m s n = Inr r \<longleftrightarrow>
     0 \<le> h \<and> h \<le> 23 \<and> 0 \<le> m \<and> m \<le> 59 \<and> 0 \<le> s \<and> s \<le> 59 \<and> 0 \<le> n \<and> n \<le> 999999999
     \<and> r = \<lparr>lt_set = True, lt_hour = h, lt_minute = m, lt_second = s, lt_nanos = n\<rparr>"
  by (auto simp: NewLocalTime_def)

lemma LocalTime_Validate_iff:
  "LocalTime_Validate v = None \<longleftrightarrow>
     lt_set v \<and> 0 \<le> lt_hour v \<and> lt_hour v \<le> 23 \<and> 0 \<le> lt_minute v \<and> lt_minute v \<le> 59
     \<and> 0 \<le> lt_second v \<and> lt_second v \<le> 59 \<and> 0 \<le> lt_nanos v \<and> lt_nanos v \<le> 999999999"
  by (auto simp: LocalTime_Validate_def err_of_None_iff NewLocalTime_Inr_iff)

interpretation local_time: canonical_text "\<lambda>_ :: unit. True" "\<lambda>_ v. LocalTime_Validate v = None"
  "\<lambda>_. LocalTime_MarshalText" "\<lambda>_. LocalTime_UnmarshalText"
proof unfold_locales
  fix v
  assume val: "LocalTime_Validate v = None"
  then have r: "lt_set v" "0 \<le> lt_hour v" "lt_hour v \<le> 23" "0 \<le> lt_minute v" "lt_minute v \<le> 59"
     "0 \<le> lt_second v" "lt_second v \<le> 59" "0 \<le> lt_nanos v" "lt_nanos v \<le> 999999999"
    by (auto simp: LocalTime_Validate_iff)
  define b where "b = pad 2 (nat (lt_hour v)) @ '':'' @ pad 2 (nat (lt_minute v)) @ '':'' @ pad 2 (nat (lt_second v))"
  note hms = hms_text [of "nat (lt_hour v)" "nat (lt_minute v)" "nat (lt_second v)", folded b_def]
  have v: "NewLocalTime (lt_hour v) (lt_minute v) (lt_second v) (lt_nanos v) = Inr v"
    using r by (cases v) (simp add: NewLocalTime_Inr_iff)
  have "ParseLocalTime (LocalTime_String v) = Inr v"
  proof (cases "lt_nanos v = 0")
    case True
    then have "LocalTime_String v = b" using val by (simp add: LocalTime_String_def b_def)
    then show ?thesis using hms r v True by (simp add: ParseLocalTime_def cut_none)
  next
    case False
    then have s: "LocalTime_String v = b @ CHR ''.'' # pad 9 (nat (lt_nanos v))"
      using val by (simp add: LocalTime_String_def b_def)
    have "nat (lt_nanos v) < 10 ^ 9" using r by simp
    note p = pad_list [OF _ this]
    show ?thesis using hms r v False p unfolding s
      by (simp add: ParseLocalTime_def cut_append digits_at_all)
  qed
  then show "\<exists>t. LocalTime_MarshalText v = Inr t \<and> LocalTime_UnmarshalText t = Inr v"
    using val by (simp add: LocalTime_MarshalText_def LocalTime_UnmarshalText_def)
next
  fix t v
  assume u: "LocalTime_UnmarshalText t = Inr v"
  obtain h f k where c: "cut CHR ''.'' t = (h, f, k)" by (cases "cut CHR ''.'' t")
  from u c have sh: "length h = 8" "h ! 2 = CHR '':''" "h ! 5 = CHR '':''" "digits_at h [0, 1, 3, 4, 6, 7]"
    and f: "k \<Longrightarrow> length f = 9 \<and> list_all is_digit f \<and> digits_val f \<noteq> 0"
    and n: "NewLocalTime (int (num_at h 0 2)) (int (num_at h 3 2)) (int (num_at h 6 2))
             (if k then int (digits_val f) else 0) = Inr v"
    by (auto simp: LocalTime_UnmarshalText_def ParseLocalTime_def digits_at_all split: if_splits)
  have val: "LocalTime_Validate v = None" using n by (auto simp: LocalTime_Validate_iff NewLocalTime_Inr_iff)
  have "LocalTime_String v = t"
  proof (cases k)
    case True
    then have "t = h @ CHR ''.'' # f" using c cut_found [of "CHR ''.''" t h f] by simp
    moreover have "pad 9 (digits_val f) = f" using f [OF True] by (intro pad_digits_val) (auto simp: list_all_iff)
    ultimately show ?thesis using val n True f [OF True] hms_text_shape [OF sh]
      by (auto simp: LocalTime_String_def NewLocalTime_Inr_iff)
  next
    case False
    then have "t = h" using c cut_not_found [of "CHR ''.''" t h f] by simp
    then show ?thesis using val n False hms_text_shape [OF sh]
      by (auto simp: LocalTime_String_def NewLocalTime_Inr_iff)
  qed
  then show "LocalTime_Validate v = None \<and> LocalTime_MarshalText v = Inr t"
    using val by (simp add: LocalTime_MarshalText_def)
qed

subsection \<open>Instant text\<close>

lemma strip_zeros:
  fixes ds :: string
  defines "z \<equiv> rev (dropWhile (\<lambda>c. c = CHR ''0'') (rev ds))"
  shows "ds = z @ replicate (length ds - length z) CHR ''0''" and "length z \<le> length ds"
proof -
  let ?t = "takeWhile (\<lambda>c. c = CHR ''0'') (rev ds)"
  have "rev ds = ?t @ dropWhile (\<lambda>c. c = CHR ''0'') (rev ds)" by simp
  then have ds: "ds = z @ rev ?t" unfolding z_def by (metis rev_append rev_rev_ident)
  then have len: "length ds = length z + length ?t" by (metis length_append length_rev)
  have "?t = replicate (length ?t) CHR ''0''"
    by (rule replicate_eqI [symmetric, THEN sym]) (auto dest: set_takeWhileD)
  then have "rev ?t = replicate (length ?t) CHR ''0''" by (metis rev_replicate)
  then show "ds = z @ replicate (length ds - length z) CHR ''0''" "length z \<le> length ds"
    using ds len by (metis add_diff_cancel_left', simp)
qed

lemma frac_digits:
  assumes "0 < n" "n < 10 ^ 9"
  obtains ds where "rfc3339_frac n = CHR ''.'' # ds" "ds \<noteq> []" "list_all is_digit ds" "length ds \<le> 9"
    "digits_val ds * 10 ^ (9 - length ds) = n"
proof -
  define z where "z = rev (dropWhile (\<lambda>c. c = CHR ''0'') (rev (pad 9 n)))"
  have p: "length (pad 9 n) = 9" "list_all is_digit (pad 9 n)" "digits_val (pad 9 n) = n"
    using pad_list [of 9 n] assms by simp_all
  have sp: "pad 9 n = z @ replicate (9 - length z) CHR ''0''" and len: "length z \<le> 9"
    using strip_zeros [of "pad 9 n", folded z_def] p(1) by simp_all
  have "digits_val (pad 9 n) = digits_val z * 10 ^ (9 - length z)"
    by (subst sp) (simp add: digits_val_append)
  then have v: "digits_val z * 10 ^ (9 - length z) = n" using p by simp
  then have "z \<noteq> []" using assms by auto
  moreover have "list_all is_digit z" using p(2) sp by (metis list_all_append)
  moreover have "rfc3339_frac n = CHR ''.'' # z" using assms by (simp add: rfc3339_frac_def z_def)
  ultimately show ?thesis using that v len by blast
qed

lemma parse_shape:
  assumes "y < 10000" "m < 100" "d < 100" "h < 100" "i < 100" "c < 100"
    and "real_date (int y) (int m) (int d)" "h \<le> 23" "i \<le> 59" "c \<le> 59" "n < 10 ^ 9"
  shows "rfc3339_parse (pad 4 y @ ''-'' @ pad 2 m @ ''-'' @ pad 2 d @ ''T'' @ pad 2 h @ '':'' @ pad 2 i
      @ '':'' @ pad 2 c @ rfc3339_frac n @ ''Z'')
    = Some (((date_days (int y) (int m) (int d) - epoch_day) * 86400 + int (3600 * h + 60 * i + c)) * nanos + int n)"
proof -
  obtain y1 y2 y3 y4 where y: "pad 4 y = [y1, y2, y3, y4]" "list_all is_digit [y1, y2, y3, y4]"
    "digits_val [y1, y2, y3, y4] = y" using pad_4 [OF assms(1)] by blast
  obtain m1 m2 where m: "pad 2 m = [m1, m2]" "is_digit m1" "is_digit m2" "digits_val [m1, m2] = m"
    using pad_2 [OF assms(2)] by blast
  obtain d1 d2 where d: "pad 2 d = [d1, d2]" "is_digit d1" "is_digit d2" "digits_val [d1, d2] = d"
    using pad_2 [OF assms(3)] by blast
  obtain h1 h2 where h: "pad 2 h = [h1, h2]" "is_digit h1" "is_digit h2" "digits_val [h1, h2] = h"
    using pad_2 [OF assms(4)] by blast
  obtain i1 i2 where i: "pad 2 i = [i1, i2]" "is_digit i1" "is_digit i2" "digits_val [i1, i2] = i"
    using pad_2 [OF assms(5)] by blast
  obtain c1 c2 where c: "pad 2 c = [c1, c2]" "is_digit c1" "is_digit c2" "digits_val [c1, c2] = c"
    using pad_2 [OF assms(6)] by blast
  note fields = y m d h i c
  show ?thesis
  proof (cases "n = 0")
    case True
    then show ?thesis using fields assms(7-10)
      by (simp add: rfc3339_parse_def digits_at_def num_at_def rfc3339_frac_def)
  next
    case False
    then obtain ds where ds: "rfc3339_frac n = CHR ''.'' # ds" "ds \<noteq> []" "list_all is_digit ds"
      "length ds \<le> 9" "digits_val ds * 10 ^ (9 - length ds) = n" using frac_digits assms(11) by blast
    have "int (digits_val ds) * 10 ^ (9 - length ds) = int n"
      by (subst ds(5) [symmetric]) simp
    then show ?thesis using ds(1-4) fields assms(7-10)
      by (simp add: rfc3339_parse_def digits_at_def num_at_def Let_def)
  qed
qed

lemma sod_split: "3600 * (s div 3600) + 60 * (s div 60 mod 60) + s mod 60 = (s :: nat)"
proof -
  have "s = 60 * (s div 60) + s mod 60" "s div 60 = 60 * (s div 60 div 60) + s div 60 mod 60" by simp_all
  moreover have "s div 60 div 60 = s div 3600" by (simp add: div_mult2_eq [symmetric])
  ultimately show ?thesis by linarith
qed

lemma parse_format:
  assumes "unix_date (t div nanos) = (y, m, d)" and yr: "0 \<le> y" "y \<le> 9999"
  shows "rfc3339_parse (rfc3339_format t) = Some t"
proof -
  define s where "s = t div nanos"
  define k where "k = nat (s mod 86400)"
  have ymd: "days_date (s div 86400 + epoch_day) = (y, m, d)" using assms by (simp add: unix_date_def s_def)
  note rd = days_date_real [OF ymd]
  have md: "1 \<le> m" "m \<le> 12" "1 \<le> d" "d \<le> 31"
    using rd(1) real_date_day [OF rd(1)] by (auto simp: real_date_def)
  have k: "int k = s mod 86400" "k < 86400" by (auto simp: k_def nat_less_iff)
  have n: "0 \<le> t mod nanos" "t mod nanos < nanos" by (simp_all add: nanos_def)
  have "rfc3339_parse (rfc3339_format t) =
      Some (((date_days (int (nat y)) (int (nat m)) (int (nat d)) - epoch_day) * 86400
        + int (3600 * (k div 3600) + 60 * (k div 60 mod 60) + k mod 60)) * nanos + int (nat (t mod nanos)))"
    unfolding rfc3339_format_def Let_def s_def [symmetric] ymd k_def [symmetric] prod.case
    using yr md rd(1) k n by (subst parse_shape [symmetric]) (auto simp: nanos_def div_less_iff_less_mult)
  also have "\<dots> = Some ((s div 86400 * 86400 + s mod 86400) * nanos + t mod nanos)"
    unfolding sod_split using yr md rd(2) k(1) n by simp
  also have "\<dots> = Some t" by (simp add: s_def)
  finally show ?thesis .
qed

lemma num_at_less: "list_all is_digit (take k (drop i s)) \<Longrightarrow> num_at s i k < 10 ^ k"
proof -
  assume "list_all is_digit (take k (drop i s))"
  then have "num_at s i k < 10 ^ length (take k (drop i s))"
    using digits_val_less [of "take k (drop i s)"] by (simp add: num_at_def list_all_iff)
  also have "\<dots> \<le> 10 ^ k" by (intro power_increasing) auto
  finally show ?thesis .
qed

lemma first_four: "20 \<le> length s \<Longrightarrow> take 4 (drop 0 s) = [s ! 0, s ! 1, s ! 2, s ! 3]"
  by (rule nth_equalityI) (auto simp: numeral_eq_Suc less_Suc_eq)

lemma scaled_frac_less: "list_all is_digit ds \<Longrightarrow> length ds \<le> 9 \<Longrightarrow> digits_val ds * 10 ^ (9 - length ds) < 10 ^ 9"
proof -
  assume "list_all is_digit ds" and l: "length ds \<le> 9"
  then have "digits_val ds < 10 ^ length ds" by (intro digits_val_less) (simp add: list_all_iff)
  then have "digits_val ds * 10 ^ (9 - length ds) < 10 ^ length ds * 10 ^ (9 - length ds)" by simp
  also have "\<dots> = 10 ^ 9" using l by (simp add: power_add [symmetric])
  finally show ?thesis .
qed

lemma parse_year:
  assumes "rfc3339_parse s = Some t"
  shows "\<exists>y m d. unix_date (t div nanos) = (y, m, d) \<and> 0 \<le> y \<and> y \<le> 9999"
proof -
  define y where "y = int (num_at s 0 4)"
  define m where "m = int (num_at s 5 2)"
  define d where "d = int (num_at s 8 2)"
  define k where "k = 3600 * num_at s 11 2 + 60 * num_at s 14 2 + num_at s 17 2"
  define ds where "ds = take 9 (tl (butlast (drop 19 s)))"
  from assms have len: "20 \<le> length s" and dig: "digits_at s [0, 1, 2, 3, 5, 6, 8, 9, 11, 12, 14, 15, 17, 18]"
    and rd: "real_date y m d" and hms: "num_at s 11 2 \<le> 23" "num_at s 14 2 \<le> 59" "num_at s 17 2 \<le> 59"
    and dd: "list_all is_digit (tl (butlast (drop 19 s)))"
    and t: "t = ((date_days y m d - epoch_day) * 86400 + int k) * nanos
                + int (digits_val ds * 10 ^ (9 - length ds))"
    unfolding rfc3339_parse_def Let_def y_def m_def d_def k_def ds_def
    by (auto simp: not_less split: if_splits)
  have y: "0 \<le> y" "y \<le> 9999"
    using num_at_less [of 4 0 s] dig len first_four [OF len] by (auto simp: y_def digits_at_def)
  have k: "int k < 86400" using hms by (simp add: k_def)
  have "list_all is_digit ds" using dd by (auto simp: ds_def list_all_iff dest: in_set_takeD)
  then have f: "digits_val ds * 10 ^ (9 - length ds) < 10 ^ 9" by (rule scaled_frac_less) (simp add: ds_def)
  have "int (digits_val ds * 10 ^ (9 - length ds)) < nanos"
    using iffD2 [OF of_nat_less_iff [where 'a = int] f] by (simp only: nanos_def) simp
  then have "t div nanos = (date_days y m d - epoch_day) * 86400 + int k"
    unfolding t by (subst mult.commute, intro pack_div_int) auto
  then have "t div nanos div 86400 = date_days y m d - epoch_day" using k by simp
  then have "unix_date (t div nanos) = (y, m, d)"
    using days_date_date_days [OF rd] by (simp add: unix_date_def)
  then show ?thesis using y by blast
qed

text \<open>Instants whose year has four digits: the only ones that the text can name.\<close>

definition text_instant :: "Instant \<Rightarrow> bool" where
  "text_instant i \<longleftrightarrow> Instant_Validate i = None \<and> fst (unix_date (i_sec i)) \<in> {0..9999}"

lemma NewInstant_Time: "Instant_Validate i = None \<Longrightarrow> NewInstant (Instant_Time i) = i"
  by (cases i) (auto simp: Instant_Validate_def NewInstant_def Instant_Time_def nanos_def)

lemma NewInstant_Validate: "Instant_Validate (NewInstant t) = None"
  by (auto simp: Instant_Validate_def NewInstant_def nanos_def not_less)

interpretation instant: canonical_text "\<lambda>_ :: unit. True" "\<lambda>_. text_instant"
  "\<lambda>_. Instant_MarshalText" "\<lambda>_. Instant_UnmarshalText"
proof unfold_locales
  fix i
  assume i: "text_instant i"
  then have v: "Instant_Validate i = None" by (simp add: text_instant_def)
  have "Instant_Time i div nanos = i_sec i"
    using v by (auto simp: Instant_Time_def Instant_Validate_def nanos_def)
  then have "rfc3339_parse (rfc3339_format (Instant_Time i)) = Some (Instant_Time i)"
    using i parse_format [of "Instant_Time i"] by (cases "unix_date (i_sec i)") (auto simp: text_instant_def)
  then show "\<exists>t. Instant_MarshalText i = Inr t \<and> Instant_UnmarshalText t = Inr i"
    using v by (simp add: Instant_MarshalText_def Instant_UnmarshalText_def Instant_String_def
        NewInstant_Time Let_def)
next
  fix s i
  assume "Instant_UnmarshalText s = Inr i"
  then obtain t where t: "rfc3339_parse s = Some t" and i: "i = NewInstant t" "Instant_String i = s"
    by (auto simp: Instant_UnmarshalText_def Let_def split: option.splits if_splits)
  have "i_sec i = t div nanos" using i by (simp add: NewInstant_def)
  then have "text_instant i" using parse_year [OF t] i NewInstant_Validate [of t] by (auto simp: text_instant_def)
  then show "text_instant i \<and> Instant_MarshalText i = Inr s"
    using i by (simp add: Instant_MarshalText_def text_instant_def)
qed

subsection \<open>Properties\<close>

text \<open>
  Instants, local dates and local times have exactly one text each: UnmarshalText returns
  a value for a text just when the value is usable (for an instant, its year has four digits)
  and MarshalText prints that text. Numeric offsets, padded fractions, all-zero fractions and
  impossible dates are refused.
\<close>
theorem civil_text_unique:
  "(Instant_UnmarshalText s = Inr i \<longleftrightarrow> text_instant i \<and> Instant_MarshalText i = Inr s)
   \<and> (LocalDate_UnmarshalText s = Inr d \<longleftrightarrow> LocalDate_Validate d = None \<and> LocalDate_MarshalText d = Inr s)
   \<and> (LocalTime_UnmarshalText s = Inr v \<longleftrightarrow> LocalTime_Validate v = None \<and> LocalTime_MarshalText v = Inr s)"
  by (intro conjI instant.unmarshal_iff local_date.unmarshal_iff local_time.unmarshal_iff TrueI)

text \<open>
  C37: NewLocalDate accepts exactly the real dates of the proleptic Gregorian calendar in the
  years 1 to 9999, and AddDays adds to the day number: for every shift up to ten trillion days
  the result is the date that many days later, or the unset date when it leaves those years.
\<close>
theorem add_days_is_day_arithmetic:
  assumes "LocalDate_Validate d = None" and "\<bar>n\<bar> \<le> 10 ^ 13"
  shows "(NewLocalDate y m k = Inr e
         \<longleftrightarrow> 1 \<le> y \<and> y \<le> 9999 \<and> 1 \<le> m \<and> m \<le> 12 \<and> 1 \<le> k \<and> k \<le> month_lengths y ! nat (m - 1)
             \<and> e = \<lparr>ld_set = True, ld_year = y, ld_month = m, ld_day = k\<rparr>)
      \<and> (if 0 \<le> day_number d + n \<and> day_number d + n < 3652059
         then LocalDate_Validate (LocalDate_AddDays d n) = None
              \<and> day_number (LocalDate_AddDays d n) = day_number d + n
         else LocalDate_AddDays d n = zero_LocalDate)"
  using AddDays_day_number [OF assms] by (auto simp: NewLocalDate_Inr_iff real_date_def)

theorem add_days_is_day_arithmetic_witness:
  "day_number (LocalDate_AddDays \<lparr>ld_set = True, ld_year = 2024, ld_month = 2, ld_day = 28\<rparr> 2)
     = day_number \<lparr>ld_set = True, ld_year = 2024, ld_month = 2, ld_day = 28\<rparr> + 2
   \<and> LocalDate_AddDays \<lparr>ld_set = True, ld_year = 2024, ld_month = 2, ld_day = 28\<rparr> 2
     = \<lparr>ld_set = True, ld_year = 2024, ld_month = 3, ld_day = 1\<rparr>"
proof -
  let ?d = "\<lparr>ld_set = True, ld_year = 2024, ld_month = 2, ld_day = 28\<rparr>"
  have v: "LocalDate_Validate ?d = None" by code_simp
  have "0 \<le> day_number ?d + 2 \<and> day_number ?d + 2 < 3652059" by code_simp
  then have "day_number (LocalDate_AddDays ?d 2) = day_number ?d + 2"
    using add_days_is_day_arithmetic [OF v, of 2, THEN conjunct2] by simp
  moreover have "LocalDate_AddDays ?d 2 = \<lparr>ld_set = True, ld_year = 2024, ld_month = 3, ld_day = 1\<rparr>"
    by code_simp
  ultimately show ?thesis by simp
qed

text \<open>
  A shift of 2 to the 57 days returns the date itself instead of the unset date, because
  the seconds that time.Date computes wrap at 64 bits: the promise that AddDays returns the
  unset date when the result leaves the supported years does not hold for such shifts.
\<close>
theorem add_days_wraps_around:
  "LocalDate_AddDays \<lparr>ld_set = True, ld_year = 2024, ld_month = 1, ld_day = 1\<rparr> (2 ^ 57)
     = \<lparr>ld_set = True, ld_year = 2024, ld_month = 1, ld_day = 1\<rparr>"
  by (rule AddDays_wrap) code_simp

text \<open>
  The comparisons are the orders of the timeline: Compare of two usable instants is the
  sign of their difference in nanoseconds and Compare of two usable dates the sign of the
  difference of their day numbers, and two usable values compare equal only when they are equal.
\<close>
theorem civil_compare_is_timeline_order:
  assumes "Instant_Validate i = None" "Instant_Validate j = None"
    and "LocalDate_Validate d = None" "LocalDate_Validate e = None"
  shows "Instant_Compare i j = sgn (Instant_Time i - Instant_Time j)
    \<and> LocalDate_Compare d e = sgn (day_number d - day_number e)
    \<and> (Instant_Compare i j = 0 \<longleftrightarrow> i = j) \<and> (LocalDate_Compare d e = 0 \<longleftrightarrow> d = e)"
proof -
  have c: "Instant_Compare i j = sgn (Instant_Time i - Instant_Time j)"
    and k: "LocalDate_Compare d e = sgn (day_number d - day_number e)"
    using assms by (simp_all add: Instant_Compare_sgn LocalDate_Compare_sgn)
  have i: "Instant_Compare i j = 0 \<longleftrightarrow> i = j"
  proof
    assume "Instant_Compare i j = 0"
    then have "Instant_Time i = Instant_Time j" unfolding c by (simp only: sgn_eq_0_iff right_minus_eq)
    then show "i = j" using NewInstant_Time [OF assms(1)] NewInstant_Time [OF assms(2)] by metis
  qed (simp add: Instant_Compare_def)
  have "LocalDate_Compare d e = 0 \<longleftrightarrow> d = e"
    unfolding k sgn_eq_0_iff using day_number_inj [OF assms(3,4)] by auto
  then show ?thesis using c k i by blast
qed

theorem civil_compare_is_timeline_order_witness:
  "Instant_Compare (NewInstant 5) (NewInstant 3000000000) = sgn (Instant_Time (NewInstant 5) - Instant_Time (NewInstant 3000000000))
   \<and> LocalDate_Compare \<lparr>ld_set = True, ld_year = 2024, ld_month = 12, ld_day = 31\<rparr>
        \<lparr>ld_set = True, ld_year = 2025, ld_month = 1, ld_day = 1\<rparr> = - 1"
proof -
  let ?d = "\<lparr>ld_set = True, ld_year = 2024, ld_month = 12, ld_day = 31\<rparr>"
  let ?e = "\<lparr>ld_set = True, ld_year = 2025, ld_month = 1, ld_day = 1\<rparr>"
  have v: "LocalDate_Validate ?d = None" "LocalDate_Validate ?e = None" by code_simp+
  note th = civil_compare_is_timeline_order [OF NewInstant_Validate NewInstant_Validate v]
  have "day_number ?d - day_number ?e = - 1" by code_simp
  then have "LocalDate_Compare ?d ?e = - 1" using th by simp
  then show ?thesis using th by blast
qed

end
