(* ===== verification/Values_Zone.thy ===== *)
theory Values_Zone
  imports Values_Civil
begin

text \<open>
  Package \<open>internal/kernel/values\<close>, second part of \<open>time.go\<close>: zone and calendar references,
  disambiguation policies and zoned date-times.

  The IANA database is a parameter: \<open>tz\<close> maps a zone id to its offset function (UTC seconds
  to seconds east of UTC), or to nothing when \<open>time.LoadLocation\<close> fails. A \<open>time.Time\<close> is its
  number of nanoseconds since the Unix epoch, and \<open>loc_date\<close> is \<open>time.Date\<close> in a location:
  the offset is looked up at the civil time read as UTC, then at the time that this offset
  gives. What the proofs assume of a zone is \<open>single_transition\<close>: around the requested civil
  time its offset changes at most once, by at most a day.

  What is proved: resolveLocal finds every instant with the requested wall clock, in order;
  NewZonedDateTime picks the earlier or the later one as the policy says, and in a gap finds
  the transition instant by a binary search that always ends.
\<close>

subsection \<open>References and policies\<close>

type_synonym location = "int \<Rightarrow> int"
type_synonym tzdb = "string \<Rightarrow> location option"

record ZoneRef =
  z_ID :: string
  z_TzdbVersion :: string

definition ZoneRef_Validate :: "tzdb \<Rightarrow> ZoneRef \<Rightarrow> verr option" where
  "ZoneRef_Validate tz z =
     first_err (reject (z_ID z = []) (CivilErr ErrZoneRequired))
      (first_err (reject (z_TzdbVersion z = []) (CivilErr ErrTzdbVersionRequired))
        (reject (tz (z_ID z) = None) (CivilErr ErrUnknownZone)))"

definition ZoneRef_Location :: "tzdb \<Rightarrow> ZoneRef \<Rightarrow> location res" where
  "ZoneRef_Location tz z =
     guard_res (ZoneRef_Validate tz z)
      (case tz (z_ID z) of None \<Rightarrow> Inl (CivilErr ErrUnknownZone) | Some loc \<Rightarrow> Inr loc)"

definition ZoneRef_String :: "ZoneRef \<Rightarrow> string" where
  "ZoneRef_String z =
     (if z_ID z = [] \<and> z_TzdbVersion z = [] then [] else z_ID z @ ''@'' @ z_TzdbVersion z)"

record CalendarRef =
  c_Ref :: string
  c_Version :: string

definition CalendarRef_Validate :: "CalendarRef \<Rightarrow> verr option" where
  "CalendarRef_Validate c =
     first_err (reject (c_Ref c = []) (IvErr ErrCalendarRequired))
       (reject (c_Version c = []) (IvErr ErrCalendarVersionRequired))"

definition CalendarRef_String :: "CalendarRef \<Rightarrow> string" where
  "CalendarRef_String c =
     (if c_Ref c = [] \<and> c_Version c = [] then [] else c_Ref c @ ''@'' @ c_Version c)"

datatype Disambiguation =
    DisambiguationUnspecified | DisambiguationRejectGap | DisambiguationEarlier
  | DisambiguationLater | DisambiguationExplicitOffset | DisambiguationOther nat

fun Disambiguation_byte :: "Disambiguation \<Rightarrow> nat" where
  "Disambiguation_byte DisambiguationUnspecified = 0"
| "Disambiguation_byte DisambiguationRejectGap = 1"
| "Disambiguation_byte DisambiguationEarlier = 2"
| "Disambiguation_byte DisambiguationLater = 3"
| "Disambiguation_byte DisambiguationExplicitOffset = 4"
| "Disambiguation_byte (DisambiguationOther n) = n"

definition disambiguationWire :: "(Disambiguation \<times> string) list" where
  "disambiguationWire =
     [(DisambiguationRejectGap, ''REJECT_GAP''), (DisambiguationEarlier, ''EARLIER''),
      (DisambiguationLater, ''LATER''), (DisambiguationExplicitOffset, ''EXPLICIT_OFFSET'')]"

definition Disambiguation_String :: "Disambiguation \<Rightarrow> string" where
  "Disambiguation_String d =
     (case map_of disambiguationWire d of Some w \<Rightarrow> w | None \<Rightarrow> ''DISAMBIGUATION_UNSPECIFIED'')"

definition Disambiguation_Valid :: "Disambiguation \<Rightarrow> bool" where
  "Disambiguation_Valid d \<longleftrightarrow> map_of disambiguationWire d \<noteq> None"

definition ParseDisambiguation :: "string \<Rightarrow> Disambiguation res" where
  "ParseDisambiguation token =
     (case find (\<lambda>(policy, wire). wire = token) disambiguationWire of
        Some (policy, _) \<Rightarrow> Inr policy
      | None \<Rightarrow> Inl (CivilErr ErrDisambiguation))"

subsection \<open>Resolution of a civil time\<close>

record ZonedDateTime =
  zd_set :: bool
  zd_date :: LocalDate
  zd_tod :: LocalTime
  zd_zone :: ZoneRef
  zd_disambiguation :: Disambiguation
  zd_offsetSeconds :: int
  zd_instant :: Instant

definition naive_seconds :: "LocalDate \<Rightarrow> LocalTime \<Rightarrow> int" where
  "naive_seconds date tod =
     (date_days (ld_year date) (ld_month date) (ld_day date) - epoch_day) * 86400
     + lt_hour tod * 3600 + lt_minute tod * 60 + lt_second tod"

definition loc_date :: "location \<Rightarrow> int \<Rightarrow> int" where
  "loc_date loc n = n - loc (n - loc n)"

definition zone_offset :: "location \<Rightarrow> int \<Rightarrow> int" where
  "zone_offset loc t = loc (t div nanos)"

definition dedupeOffsets :: "int \<Rightarrow> int \<Rightarrow> int list" where
  "dedupeOffsets a b = (if a = b then [a] else [a, b])"

definition sameWallClock :: "location \<Rightarrow> int \<Rightarrow> LocalDate \<Rightarrow> LocalTime \<Rightarrow> bool" where
  "sameWallClock loc t date tod \<longleftrightarrow>
     (let w = t div nanos + zone_offset loc t; (y, m, d) = unix_date w; sod = w mod 86400 in
      y = ld_year date \<and> m = ld_month date \<and> d = ld_day date
      \<and> sod div 3600 = lt_hour tod \<and> sod div 60 mod 60 = lt_minute tod \<and> sod mod 60 = lt_second tod
      \<and> t mod nanos = lt_nanos tod)"

definition resolveLocal :: "LocalDate \<Rightarrow> LocalTime \<Rightarrow> location \<Rightarrow> int list" where
  "resolveLocal date tod loc =
     (let naive = naive_seconds date tod * nanos + lt_nanos tod;
          probe = loc_date loc (naive_seconds date tod) * nanos + lt_nanos tod;
          offBefore = zone_offset loc (probe - 86400 * nanos);
          offAfter = zone_offset loc (probe + 86400 * nanos);
          out = filter (\<lambda>candidate. sameWallClock loc candidate date tod)
                  (map (\<lambda>off. naive - off * nanos) (dedupeOffsets offBefore offAfter))
      in if length out = 2 \<and> out ! 0 > out ! 1 then [out ! 1, out ! 0] else out)"

function gap_search :: "location \<Rightarrow> int \<Rightarrow> int \<Rightarrow> int \<Rightarrow> int" where
  "gap_search loc target lo hi =
     (if hi - lo > nanos then
        let m = lo + (hi - lo) div 2; mid = m - m mod nanos in
        if mid \<le> lo then hi
        else if zone_offset loc mid = target then gap_search loc target lo mid
        else gap_search loc target mid hi
      else hi)"
  by pat_completeness auto
termination
proof (relation "measure (\<lambda>(_, _, lo, hi). nat (hi - lo))")
  fix loc target lo hi m mid
  assume "nanos < hi - lo" and "m = lo + (hi - lo) div 2" and "mid = m - m mod nanos" and "\<not> mid \<le> lo"
  moreover have "0 \<le> m mod nanos" by (simp add: nanos_def)
  moreover have "(hi - lo) div 2 < hi - lo"
    using \<open>nanos < hi - lo\<close> by (intro int_div_less_self) (auto simp: nanos_def)
  ultimately have "lo < mid" "mid < hi" by linarith+
  then show "((loc, target, lo, mid), loc, target, lo, hi) \<in> measure (\<lambda>(_, _, lo, hi). nat (hi - lo))"
    and "((loc, target, mid, hi), loc, target, lo, hi) \<in> measure (\<lambda>(_, _, lo, hi). nat (hi - lo))"
    by auto
qed simp

declare gap_search.simps [simp del]

definition gapTransition :: "LocalDate \<Rightarrow> LocalTime \<Rightarrow> location \<Rightarrow> int res" where
  "gapTransition date tod loc =
     (let naive = naive_seconds date tod * nanos + lt_nanos tod;
          probe = loc_date loc (naive_seconds date tod) * nanos + lt_nanos tod;
          offBefore = zone_offset loc (probe - 86400 * nanos);
          offAfter = zone_offset loc (probe + 86400 * nanos)
      in if offBefore = offAfter then Inl (CivilErr ErrDSTGap)
         else let lo = min (naive - offBefore * nanos) (naive - offAfter * nanos);
                  hi = max (naive - offBefore * nanos) (naive - offAfter * nanos);
                  target = zone_offset loc hi;
                  r = gap_search loc target lo hi
              in Inr (r - r mod nanos))"

definition buildZoned ::
  "LocalDate \<Rightarrow> LocalTime \<Rightarrow> ZoneRef \<Rightarrow> Disambiguation \<Rightarrow> int \<Rightarrow> location \<Rightarrow> ZonedDateTime" where
  "buildZoned date tod zone disambiguation t loc =
     \<lparr>zd_set = True, zd_date = date, zd_tod = tod, zd_zone = zone,
      zd_disambiguation = disambiguation, zd_offsetSeconds = go_int32 (zone_offset loc t),
      zd_instant = NewInstant t\<rparr>"

definition NewZonedDateTime ::
  "tzdb \<Rightarrow> LocalDate \<Rightarrow> LocalTime \<Rightarrow> ZoneRef \<Rightarrow> Disambiguation \<Rightarrow> ZonedDateTime res" where
  "NewZonedDateTime tz date tod zone disambiguation =
     guard_res (LocalDate_Validate date) (guard_res (LocalTime_Validate tod) (guard_res (ZoneRef_Validate tz zone)
      (if disambiguation = DisambiguationUnspecified then Inl (CivilErr ErrDisambiguationRequired)
       else if \<not> Disambiguation_Valid disambiguation then Inl (CivilErr ErrDisambiguation)
       else if disambiguation = DisambiguationExplicitOffset then Inl (CivilErr ErrDisambiguationRequired)
       else bind_res (ZoneRef_Location tz zone) (\<lambda>loc.
         let candidates = resolveLocal date tod loc in
         if length candidates = 1 then Inr (buildZoned date tod zone disambiguation (candidates ! 0) loc)
         else if length candidates = 2 then
           if disambiguation = DisambiguationRejectGap then Inl (CivilErr ErrDSTAmbiguous)
           else Inr (buildZoned date tod zone disambiguation
                  (if disambiguation = DisambiguationLater then candidates ! 1 else candidates ! 0) loc)
         else if disambiguation = DisambiguationRejectGap then Inl (CivilErr ErrDSTGap)
         else bind_res (gapTransition date tod loc) (\<lambda>transition.
           Inr (buildZoned date tod zone disambiguation transition loc))))))"

definition NewZonedDateTimeAtOffset ::
  "tzdb \<Rightarrow> LocalDate \<Rightarrow> LocalTime \<Rightarrow> ZoneRef \<Rightarrow> int \<Rightarrow> ZonedDateTime res" where
  "NewZonedDateTimeAtOffset tz date tod zone offsetSeconds =
     guard_res (LocalDate_Validate date) (guard_res (LocalTime_Validate tod) (guard_res (ZoneRef_Validate tz zone)
      (bind_res (ZoneRef_Location tz zone) (\<lambda>loc.
        case find (\<lambda>candidate. zone_offset loc candidate = offsetSeconds) (resolveLocal date tod loc) of
          Some candidate \<Rightarrow> Inr (buildZoned date tod zone DisambiguationExplicitOffset candidate loc)
        | None \<Rightarrow> Inl (CivilErr ErrOffsetNotValid)))))"

definition AtStartOfDay :: "tzdb \<Rightarrow> LocalDate \<Rightarrow> ZoneRef \<Rightarrow> Disambiguation \<Rightarrow> ZonedDateTime res" where
  "AtStartOfDay tz d zone disambiguation =
     bind_res (NewLocalTime 0 0 0 0) (\<lambda>midnight. NewZonedDateTime tz d midnight zone disambiguation)"

definition ZonedDateTime_Validate :: "tzdb \<Rightarrow> ZonedDateTime \<Rightarrow> verr option" where
  "ZonedDateTime_Validate tz z =
     first_err (reject (\<not> zd_set z) (IvErr ErrIntervalUnset))
      (first_err (LocalDate_Validate (zd_date z))
       (first_err (LocalTime_Validate (zd_tod z))
        (first_err (ZoneRef_Validate tz (zd_zone z))
         (first_err (reject (\<not> Disambiguation_Valid (zd_disambiguation z)) (CivilErr ErrDisambiguationRequired))
           (Instant_Validate (zd_instant z))))))"

definition fmt_plus_d :: "int \<Rightarrow> string" where
  "fmt_plus_d n = (if n < 0 then ''-'' @ nat_digits (nat (- n)) else ''+'' @ nat_digits (nat n))"

definition ZonedDateTime_String :: "tzdb \<Rightarrow> ZonedDateTime \<Rightarrow> string" where
  "ZonedDateTime_String tz z =
     (if ZonedDateTime_Validate tz z \<noteq> None then []
      else LocalDate_String (zd_date z) @ ''T'' @ LocalTime_String (zd_tod z) @ ''['' @ ZoneRef_String (zd_zone z)
           @ fmt_plus_d (zd_offsetSeconds z) @ ''/'' @ Disambiguation_String (zd_disambiguation z) @ '']'')"

definition appendLengthPrefixed :: "bytes \<Rightarrow> string \<Rightarrow> bytes" where
  "appendLengthPrefixed dst s = dst @ be32 (int (length s)) @ s"

definition tagZoned :: char where
  "tagZoned = CHR 0x04"

definition ZonedDateTime_Canonical :: "tzdb \<Rightarrow> ZonedDateTime \<Rightarrow> bytes" where
  "ZonedDateTime_Canonical tz z =
     (if ZonedDateTime_Validate tz z \<noteq> None then []
      else let out = [tagZoned] @ LocalDate_Canonical (zd_date z) @ LocalTime_Canonical (zd_tod z)
                 @ be32 (zd_offsetSeconds z) @ [char_of (Disambiguation_byte (zd_disambiguation z))] in
        appendLengthPrefixed (appendLengthPrefixed out (z_ID (zd_zone z))) (z_TzdbVersion (zd_zone z))
        @ Instant_Canonical (zd_instant z))"

subsection \<open>Wall clocks\<close>

definition naive_time :: "LocalDate \<Rightarrow> LocalTime \<Rightarrow> int" where
  "naive_time date tod = naive_seconds date tod * nanos + lt_nanos tod"

lemma naive_time_div: "LocalTime_Validate tod = None \<Longrightarrow> naive_time date tod div nanos = naive_seconds date tod"
  and naive_time_mod: "LocalTime_Validate tod = None \<Longrightarrow> naive_time date tod mod nanos = lt_nanos tod"
  by (auto simp: naive_time_def LocalTime_Validate_iff nanos_def)

lemma sod_fields:
  assumes "0 \<le> h" "0 \<le> m" "m \<le> 59" "0 \<le> s" "s \<le> (59 :: int)"
  defines "k \<equiv> h * 3600 + m * 60 + s"
  shows "k div 3600 = h" "k div 60 mod 60 = m" "k mod 60 = s"
proof -
  have 1: "k = 3600 * h + (m * 60 + s)" and 2: "k = 60 * (60 * h + m) + s" by (simp_all add: k_def)
  show "k div 3600 = h" unfolding 1 by (rule pack_div_int) (use assms(2-5) in linarith)+
  have d: "k div 60 = 60 * h + m" unfolding 2 by (rule pack_div_int) (use assms(2-5) in linarith)+
  show "k div 60 mod 60 = m" unfolding d using assms(2,3) by simp
  show "k mod 60 = s" unfolding 2 mod_mult_self4 using assms(4,5) by simp
qed

lemma sod_split_int: "k div 3600 * 3600 + k div 60 mod 60 * 60 + k mod 60 = (k :: int)"
proof -
  have "k = 60 * (k div 60) + k mod 60" "k div 60 = 60 * (k div 60 div 60) + k div 60 mod 60" by simp_all
  moreover have "k div 60 div 60 = k div 3600" by (simp add: zdiv_zmult2_eq [symmetric])
  ultimately show ?thesis by linarith
qed

lemma sameWallClock_iff:
  assumes d: "LocalDate_Validate date = None" and v: "LocalTime_Validate tod = None"
  shows "sameWallClock loc t date tod \<longleftrightarrow> t + zone_offset loc t * nanos = naive_time date tod"
proof
  define w where "w = t div nanos + zone_offset loc t"
  assume s: "sameWallClock loc t date tod"
  obtain y m k where u: "unix_date w = (y, m, k)" by (cases "unix_date w")
  have f: "y = ld_year date" "m = ld_month date" "k = ld_day date" "w mod 86400 div 3600 = lt_hour tod"
    "w mod 86400 div 60 mod 60 = lt_minute tod" "w mod 86400 mod 60 = lt_second tod" "t mod nanos = lt_nanos tod"
    using s u by (auto simp: sameWallClock_def Let_def w_def)
  have dd: "date_days (ld_year date) (ld_month date) (ld_day date) - epoch_day = w div 86400"
    using days_date_real(2) [OF u [unfolded unix_date_def]] f(1-3) by simp
  have "lt_hour tod * 3600 + lt_minute tod * 60 + lt_second tod = w mod 86400"
    by (rule sod_split_int [of "w mod 86400", unfolded f(4-6)])
  then have "naive_seconds date tod = w div 86400 * 86400 + w mod 86400"
    unfolding naive_seconds_def dd by linarith
  then have "naive_seconds date tod = w" by simp
  then have "naive_time date tod = (t div nanos + zone_offset loc t) * nanos + t mod nanos"
    using f by (simp add: naive_time_def w_def)
  then show "t + zone_offset loc t * nanos = naive_time date tod"
    using div_mult_mod_eq [of t nanos] by (simp add: algebra_simps)
next
  assume t: "t + zone_offset loc t * nanos = naive_time date tod"
  define k where "k = lt_hour tod * 3600 + lt_minute tod * 60 + lt_second tod"
  have tod: "0 \<le> lt_hour tod" "lt_hour tod \<le> 23" "0 \<le> lt_minute tod" "lt_minute tod \<le> 59"
    "0 \<le> lt_second tod" "lt_second tod \<le> 59" using v by (auto simp: LocalTime_Validate_iff)
  have dm: "t = naive_time date tod - zone_offset loc t * nanos" using t by simp
  have "nanos \<noteq> 0" by (simp add: nanos_def)
  then have "t div nanos + zone_offset loc t = naive_time date tod div nanos" "t mod nanos = naive_time date tod mod nanos"
    using t by (metis add.commute div_mult_self1, metis mod_mult_self1)
  then have w: "t div nanos + zone_offset loc t = naive_seconds date tod" and n: "t mod nanos = lt_nanos tod"
    using v by (simp_all add: naive_time_div naive_time_mod)
  have k: "0 \<le> k" "k < 86400" using tod by (simp_all add: k_def)
  have ns: "naive_seconds date tod = 86400 * (day_number date - epoch_day) + k"
    by (simp add: naive_seconds_def day_number_def k_def)
  have "unix_date (naive_seconds date tod) = days_date (day_number date)"
    unfolding unix_date_def ns pack_div_int [OF k] by simp
  also have "\<dots> = (ld_year date, ld_month date, ld_day date)"
    using d days_date_date_days by (simp add: day_number_def LocalDate_Validate_iff)
  finally have "unix_date (naive_seconds date tod) = (ld_year date, ld_month date, ld_day date)" .
  moreover have "naive_seconds date tod mod 86400 = k" unfolding ns mod_mult_self4 using k by simp
  ultimately show "sameWallClock loc t date tod"
    unfolding sameWallClock_def w Let_def
    using n sod_fields [OF tod(1) tod(3-6)] by (simp add: k_def)
qed

subsection \<open>Zones with one transition nearby\<close>

definition single_transition :: "location \<Rightarrow> int \<Rightarrow> int \<Rightarrow> int \<Rightarrow> int \<Rightarrow> bool" where
  "single_transition loc n T b a \<longleftrightarrow>
     \<bar>b\<bar> \<le> 86400 \<and> \<bar>a\<bar> \<le> 86400 \<and> \<bar>a - b\<bar> \<le> 86400 \<and> (\<forall>s. \<bar>loc s\<bar> \<le> 86400)
     \<and> (\<forall>s. \<bar>s - n\<bar> \<le> 3 * 86400 \<longrightarrow> loc s = (if s < T then b else a))"

lemma single_transition_at:
  "single_transition loc n T b a \<Longrightarrow> \<bar>s - n\<bar> \<le> 3 * 86400 \<Longrightarrow> loc s = (if s < T then b else a)"
  by (simp add: single_transition_def)

lemma probe_offsets:
  assumes st: "single_transition loc n T b a"
  defines "p \<equiv> loc_date loc n"
  shows "loc (p - 86400) = (if p - 86400 < T then b else a)"
    and "loc (p + 86400) = (if p + 86400 < T then b else a)"
    and "p = n - a \<or> p = n - b"
proof -
  have ab: "\<bar>b\<bar> \<le> 86400" "\<bar>a\<bar> \<le> 86400" using st by (auto simp: single_transition_def)
  have ln: "loc n = (if n < T then b else a)" by (rule single_transition_at [OF st]) simp
  have "loc (n - loc n) = (if n - loc n < T then b else a)"
    by (rule single_transition_at [OF st]) (use ln ab in \<open>auto split: if_splits\<close>)
  then show p: "p = n - a \<or> p = n - b" by (auto simp: p_def loc_date_def)
  have pn: "\<bar>p - n\<bar> \<le> 86400" using p ab by auto
  show "loc (p - 86400) = (if p - 86400 < T then b else a)" "loc (p + 86400) = (if p + 86400 < T then b else a)"
    by (rule single_transition_at [OF st], use pn in linarith)+
qed

lemma solution_offset:
  assumes st: "single_transition loc n T b a" and s: "s + loc s = n"
  defines "p \<equiv> loc_date loc n"
  shows "loc s = loc (p - 86400) \<or> loc s = loc (p + 86400)"
proof -
  note p = probe_offsets [OF st, folded p_def]
  have ab: "\<bar>a - b\<bar> \<le> 86400" and near: "\<bar>loc s\<bar> \<le> 86400"
    using st by (auto simp: single_transition_def)
  have ls: "loc s = (if s < T then b else a)"
    by (rule single_transition_at [OF st]) (use s near in linarith)
  show ?thesis using p ab ls s by (auto split: if_splits)
qed

lemma zone_offset_seconds:
  assumes "LocalTime_Validate tod = None"
  shows "zone_offset loc (s * nanos + lt_nanos tod) = loc s"
    and "zone_offset loc (s * nanos + lt_nanos tod - 86400 * nanos) = loc (s - 86400)"
    and "zone_offset loc (s * nanos + lt_nanos tod + 86400 * nanos) = loc (s + 86400)"
proof -
  have f: "0 \<le> lt_nanos tod" "lt_nanos tod < nanos" using assms by (auto simp: LocalTime_Validate_iff nanos_def)
  have z: "zone_offset loc (q * nanos + lt_nanos tod) = loc q" for q
    using f by (simp add: zone_offset_def mult.commute [of q] pack_div_int)
  have "s * nanos + lt_nanos tod - 86400 * nanos = (s - 86400) * nanos + lt_nanos tod"
    "s * nanos + lt_nanos tod + 86400 * nanos = (s + 86400) * nanos + lt_nanos tod" by (simp_all add: algebra_simps)
  note shift = this
  show "zone_offset loc (s * nanos + lt_nanos tod) = loc s"
    "zone_offset loc (s * nanos + lt_nanos tod - 86400 * nanos) = loc (s - 86400)"
    "zone_offset loc (s * nanos + lt_nanos tod + 86400 * nanos) = loc (s + 86400)" unfolding shift z by (rule refl)+
qed

lemma sameWallClock_seconds:
  assumes "LocalDate_Validate date = None" and v: "LocalTime_Validate tod = None"
  shows "sameWallClock loc (s * nanos + lt_nanos tod) date tod \<longleftrightarrow> s + loc s = naive_seconds date tod"
proof -
  have "s * nanos + lt_nanos tod + loc s * nanos = (s + loc s) * nanos + lt_nanos tod"
    by (simp add: algebra_simps)
  moreover have "nanos \<noteq> 0" by (simp add: nanos_def)
  ultimately show ?thesis
    by (simp add: sameWallClock_iff [OF assms] zone_offset_seconds(1) [OF v] naive_time_def)
qed

text \<open>The instants at which the zone's wall clock shows the requested date and time.\<close>

definition clock_instants :: "location \<Rightarrow> LocalDate \<Rightarrow> LocalTime \<Rightarrow> int set" where
  "clock_instants loc date tod = {t. t + zone_offset loc t * nanos = naive_time date tod}"

lemma clock_instants_seconds:
  assumes "LocalTime_Validate tod = None"
  shows "clock_instants loc date tod
    = (\<lambda>s. s * nanos + lt_nanos tod) ` {s. s + loc s = naive_seconds date tod}"
proof (intro equalityI subsetI)
  fix t
  assume "t \<in> clock_instants loc date tod"
  then have t: "t + zone_offset loc t * nanos = naive_time date tod" by (simp add: clock_instants_def)
  then have "t mod nanos = lt_nanos tod" "t div nanos + loc (t div nanos) = naive_seconds date tod"
    using naive_time_mod [OF assms, of date] naive_time_div [OF assms, of date]
    by (metis mod_mult_self1, metis div_mult_self1 add.commute zone_offset_def nanos_def zero_neq_numeral)
  moreover have "t = t div nanos * nanos + t mod nanos" by simp
  ultimately show "t \<in> (\<lambda>s. s * nanos + lt_nanos tod) ` {s. s + loc s = naive_seconds date tod}"
    by (metis (mono_tags, lifting) image_eqI mem_Collect_eq)
next
  fix t
  assume "t \<in> (\<lambda>s. s * nanos + lt_nanos tod) ` {s. s + loc s = naive_seconds date tod}"
  then obtain s where s: "t = s * nanos + lt_nanos tod" "s + loc s = naive_seconds date tod" by auto
  have "zone_offset loc t = loc s" unfolding s(1) by (rule zone_offset_seconds(1) [OF assms])
  then have "t + zone_offset loc t * nanos = (s + loc s) * nanos + lt_nanos tod"
    using s(1) by (simp add: algebra_simps)
  then show "t \<in> clock_instants loc date tod" using s by (simp add: clock_instants_def naive_time_def)
qed

lemma resolveLocal_list:
  fixes date tod loc
  assumes d: "LocalDate_Validate date = None" and v: "LocalTime_Validate tod = None"
  defines "n \<equiv> naive_seconds date tod"
  defines "c \<equiv> filter (\<lambda>s. s + loc s = n)
     (map (\<lambda>off. n - off) (dedupeOffsets (loc (loc_date loc n - 86400)) (loc (loc_date loc n + 86400))))"
  shows "resolveLocal date tod loc = map (\<lambda>s. s * nanos + lt_nanos tod)
     (if length c = 2 \<and> c ! 0 > c ! 1 then [c ! 1, c ! 0] else c)"
proof -
  let ?g = "\<lambda>s. s * nanos + lt_nanos tod"
  have m: "n * nanos + lt_nanos tod - off * nanos = ?g (n - off)" for off by (simp add: algebra_simps)
  have lt: "x * nanos < y * nanos \<longleftrightarrow> x < y" for x y by (simp add: nanos_def)
  have out: "filter (\<lambda>t. sameWallClock loc t date tod)
      (map (\<lambda>off. n * nanos + lt_nanos tod - off * nanos)
        (dedupeOffsets (loc (loc_date loc n - 86400)) (loc (loc_date loc n + 86400)))) = map ?g c"
    unfolding c_def m filter_map comp_def sameWallClock_seconds [OF d v] n_def [symmetric] map_map ..
  have "map ?g c ! i = ?g (c ! i)" if "length c = 2" "i < 2" for i using that by simp
  then show ?thesis unfolding resolveLocal_def Let_def n_def [symmetric] zone_offset_seconds [OF v] out
    by (auto simp: lt)
qed

lemma resolve_complete:
  assumes d: "LocalDate_Validate date = None" and v: "LocalTime_Validate tod = None"
    and st: "single_transition loc (naive_seconds date tod) T b a"
  shows "set (resolveLocal date tod loc) = clock_instants loc date tod"
    and "sorted_wrt (<) (resolveLocal date tod loc)" and "length (resolveLocal date tod loc) \<le> 2"
proof -
  let ?n = "naive_seconds date tod"
  let ?p = "loc_date loc ?n"
  define c where "c = filter (\<lambda>s. s + loc s = ?n)
     (map (\<lambda>off. ?n - off) (dedupeOffsets (loc (?p - 86400)) (loc (?p + 86400))))"
  note l = resolveLocal_list [OF d v, of loc, folded c_def]
  have sc: "set c = {s. s + loc s = ?n}"
  proof (intro equalityI subsetI)
    fix s
    assume "s \<in> {s. s + loc s = ?n}"
    then have s: "s + loc s = ?n" by simp
    have "s = ?n - loc s" using s by simp
    then show "s \<in> set c" using solution_offset [OF st s] s
      by (auto simp: c_def dedupeOffsets_def)
  qed (auto simp: c_def)
  have "distinct c" unfolding c_def by (rule distinct_filter) (auto simp: dedupeOffsets_def)
  moreover have "length c \<le> 2" unfolding c_def
    by (rule order_trans [OF length_filter_le]) (auto simp: dedupeOffsets_def)
  ultimately consider "c = []" | x where "c = [x]" | x y where "c = [x, y]" "x \<noteq> y"
    by (cases c; cases "tl c"; cases "tl (tl c)") auto
  then show "set (resolveLocal date tod loc) = clock_instants loc date tod"
    and "sorted_wrt (<) (resolveLocal date tod loc)" and "length (resolveLocal date tod loc) \<le> 2"
    unfolding clock_instants_seconds [OF v] sc [symmetric] l
    by (cases; auto simp: nanos_def)+
qed

subsection \<open>The gap search\<close>

lemma div_less_mult_iff:
  fixes t k T :: int
  assumes "0 < k"
  shows "t div k < T \<longleftrightarrow> t < T * k"
proof -
  have "t = t div k * k + t mod k" "0 \<le> t mod k" "t mod k < k" using assms by simp_all
  moreover have "t div k < T \<Longrightarrow> t div k * k + k \<le> T * k"
    using mult_right_mono [of "t div k + 1" T k] assms by (simp add: algebra_simps)
  moreover have "T \<le> t div k \<Longrightarrow> T * k \<le> t div k * k" using assms by (intro mult_right_mono) auto
  ultimately show ?thesis by linarith
qed

text \<open>
  With the old offset at \<open>lo\<close>, the new one at \<open>hi\<close> and one change at second \<open>T\<close> between them,
  the search ends at a time in the second \<open>T\<close>.
\<close>

lemma gap_search_finds:
  assumes "lo < T * nanos" "T * nanos \<le> hi"
    and "\<And>t. lo \<le> t \<Longrightarrow> t \<le> hi \<Longrightarrow> zone_offset loc t = target \<longleftrightarrow> T * nanos \<le> t"
  shows "gap_search loc target lo hi div nanos = T"
  using assms
proof (induction loc target lo hi rule: gap_search.induct)
  case (1 loc target lo hi)
  define m where "m = lo + (hi - lo) div 2"
  define mid where "mid = m - m mod nanos"
  have pos: "0 < nanos" by (simp add: nanos_def)
  have mm: "0 \<le> m mod nanos" "m mod nanos < nanos" "mid = m div nanos * nanos" "m = mid + m mod nanos"
    using pos by (simp_all add: mid_def minus_mod_eq_div_mult)
  have m: "lo \<le> m" "m \<le> hi" "2 * m \<le> lo + hi" "lo + hi \<le> 2 * m + 1"
    using "1.prems"(1,2) by (simp_all add: m_def)
  have mh: "mid \<le> hi" using m mm by linarith
  have unf: "gap_search loc target lo hi =
      (if hi - lo > nanos then if mid \<le> lo then hi
         else if zone_offset loc mid = target then gap_search loc target lo mid
         else gap_search loc target mid hi else hi)"
    by (subst gap_search.simps) (simp add: Let_def m_def mid_def)
  have T: "hi div nanos = T" if "hi < (T + 1) * nanos"
    using that "1.prems"(2) by (intro int_div_pos_eq [of _ _ _ "hi - T * nanos"]) (auto simp: algebra_simps)
  show ?case
  proof (cases "hi - lo > nanos")
    case False
    then have "hi < (T + 1) * nanos" using "1.prems"(1) by (simp add: algebra_simps)
    then show ?thesis using False unf T by simp
  next
    case big: True
    show ?thesis
    proof (cases "mid \<le> lo")
      case True
      define q where "q = m div nanos"
      have q: "q * nanos \<le> lo" "m < q * nanos + nanos" unfolding q_def using True mm by linarith+
      have "q < T"
      proof (rule ccontr)
        assume "\<not> q < T"
        then have "T * nanos \<le> q * nanos" using pos by simp
        then show False using q "1.prems"(1) by simp
      qed
      then have "q * nanos + nanos \<le> T * nanos"
        using mult_right_mono [of "q + 1" T nanos] pos by (simp add: algebra_simps)
      moreover have "hi < q * nanos + 2 * nanos" using q m True mm by linarith
      ultimately have "hi < (T + 1) * nanos" by (simp add: algebra_simps)
      then show ?thesis using True big unf T by simp
    next
      case False
      show ?thesis
      proof (cases "zone_offset loc mid = target")
        case True
        have "T * nanos \<le> mid" using "1.prems"(3) [of mid] True False m mm by auto
        moreover have "gap_search loc target lo mid div nanos = T"
          using "1.prems"(1) calculation
          by (rule "1.IH"(1) [OF big m_def mid_def False True]) (rule "1.prems"(3); use mh in linarith)
        ultimately show ?thesis using True False big unf by simp
      next
        case nt: False
        have "mid < T * nanos" using "1.prems"(3) [of mid] nt False m mm by auto
        moreover have "gap_search loc target mid hi div nanos = T"
          using calculation "1.prems"(2)
          by (rule "1.IH"(2) [OF big m_def mid_def False nt]) (rule "1.prems"(3); use False in linarith)
        ultimately show ?thesis using nt False big unf by simp
      qed
    qed
  qed
qed

lemma gapTransition_finds:
  assumes d: "LocalDate_Validate date = None" and v: "LocalTime_Validate tod = None"
    and st: "single_transition loc (naive_seconds date tod) T b a"
    and gap: "clock_instants loc date tod = {}"
  shows "gapTransition date tod loc = Inr (T * nanos)"
proof -
  define n where "n = naive_seconds date tod"
  define f where "f = lt_nanos tod"
  have f: "0 \<le> f" "f < nanos" using v by (auto simp: f_def LocalTime_Validate_iff nanos_def)
  have pos: "0 < nanos" by (simp add: nanos_def)
  have ab: "\<bar>b\<bar> \<le> 86400" "\<bar>a\<bar> \<le> 86400" "\<bar>a - b\<bar> \<le> 86400" using st by (auto simp: single_transition_def)
  note st = st [folded n_def]
  have no: "s + loc s \<noteq> n" for s using gap v by (auto simp: clock_instants_seconds n_def)
  have near: "loc s = (if s < T then b else a)" if "\<bar>s - n\<bar> \<le> 3 * 86400" for s
    using single_transition_at [OF st that] .
  have nb: "T \<le> n - b" using no [of "n - b"] near [of "n - b"] ab by (auto split: if_splits)
  have na: "n - a < T" using no [of "n - a"] near [of "n - a"] ab by (auto split: if_splits)
  note p = probe_offsets [OF st]
  have off: "loc (loc_date loc n - 86400) = b" "loc (loc_date loc n + 86400) = a"
    using p ab na nb by auto
  let ?lo = "(n - a) * nanos + f" and ?hi = "(n - b) * nanos + f"
  have lh: "(n - a) * nanos + nanos \<le> T * nanos" "T * nanos \<le> (n - b) * nanos"
    using na nb pos mult_right_mono [of "n - a + 1" T nanos] mult_right_mono [of T "n - b" nanos]
    by (simp_all add: algebra_simps)
  have mm: "min (n * nanos + f - b * nanos) (n * nanos + f - a * nanos) = ?lo"
    "max (n * nanos + f - b * nanos) (n * nanos + f - a * nanos) = ?hi"
    using lh f by (auto simp: algebra_simps)
  have target: "zone_offset loc ?hi = a"
    using zone_offset_seconds(1) [OF v, of loc "n - b"] near [of "n - b"] nb ab by (simp add: f_def)
  have "gap_search loc a ?lo ?hi div nanos = T"
  proof (rule gap_search_finds)
    fix t
    assume "?lo \<le> t" "t \<le> ?hi"
    then have "n - a \<le> t div nanos" "t div nanos \<le> n - b"
      using zdiv_mono1 [of ?lo t nanos] zdiv_mono1 [of t ?hi nanos] f pos by simp_all
    then have "zone_offset loc t = (if t div nanos < T then b else a)"
      unfolding zone_offset_def using near [of "t div nanos"] ab by auto
    moreover have "t div nanos < T \<longleftrightarrow> t < T * nanos" by (rule div_less_mult_iff [OF pos])
    moreover have "a \<noteq> b" using na nb by auto
    ultimately show "zone_offset loc t = a \<longleftrightarrow> T * nanos \<le> t" by auto
  qed (use lh f in linarith)+
  then have "gap_search loc a ?lo ?hi - gap_search loc a ?lo ?hi mod nanos = T * nanos"
    by (simp add: minus_mod_eq_div_mult)
  moreover have "b \<noteq> a" using na nb by auto
  ultimately show ?thesis
    unfolding gapTransition_def Let_def n_def [symmetric] f_def [symmetric]
      zone_offset_seconds [OF v, folded f_def] off mm
    using target [unfolded zone_offset_seconds(1) [OF v, folded f_def]] by simp
qed

subsection \<open>Properties\<close>

lemma sorted_two_cases:
  assumes "sorted_wrt (<) (xs :: int list)" "length xs \<le> 2"
  obtains "xs = []" | x where "xs = [x]" | x y where "xs = [x, y]" "x < y"
  using assms by (cases xs; cases "tl xs"; cases "tl (tl xs)") auto

lemma NewZoned_resolved:
  assumes "LocalDate_Validate date = None" "LocalTime_Validate tod = None"
    and "ZoneRef_Validate tz zone = None" "tz (z_ID zone) = Some loc"
    and "p \<in> {DisambiguationRejectGap, DisambiguationEarlier, DisambiguationLater}"
  shows "NewZonedDateTime tz date tod zone p =
    (let c = resolveLocal date tod loc in
     if length c = 1 then Inr (buildZoned date tod zone p (c ! 0) loc)
     else if length c = 2 then
       if p = DisambiguationRejectGap then Inl (CivilErr ErrDSTAmbiguous)
       else Inr (buildZoned date tod zone p (if p = DisambiguationLater then c ! 1 else c ! 0) loc)
     else if p = DisambiguationRejectGap then Inl (CivilErr ErrDSTGap)
     else bind_res (gapTransition date tod loc) (\<lambda>t. Inr (buildZoned date tod zone p t loc)))"
  using assms
  by (auto simp: NewZonedDateTime_def ZoneRef_Location_def Disambiguation_Valid_def disambiguationWire_def Let_def)

text \<open>
  C38: NewZonedDateTime resolves a civil time as its policy says, in a zone whose offset changes
  at most once around it: with S the instants at which the zone's clock shows that time,
  EARLIER takes the first and LATER the last of S, REJECT_GAP accepts only a single one and
  names a gap or an ambiguity otherwise, and in a gap EARLIER and LATER take the transition.
\<close>
theorem zoned_resolution_follows_policy:
  assumes "LocalDate_Validate date = None" "LocalTime_Validate tod = None"
    and "ZoneRef_Validate tz zone = None" "tz (z_ID zone) = Some loc"
    and "single_transition loc (naive_seconds date tod) T b a"
  defines "S \<equiv> clock_instants loc date tod"
  shows "NewZonedDateTime tz date tod zone DisambiguationRejectGap
           = (if S = {} then Inl (CivilErr ErrDSTGap)
              else if Min S = Max S then Inr (buildZoned date tod zone DisambiguationRejectGap (Min S) loc)
              else Inl (CivilErr ErrDSTAmbiguous))
       \<and> NewZonedDateTime tz date tod zone DisambiguationEarlier
           = Inr (buildZoned date tod zone DisambiguationEarlier (if S = {} then T * nanos else Min S) loc)
       \<and> NewZonedDateTime tz date tod zone DisambiguationLater
           = Inr (buildZoned date tod zone DisambiguationLater (if S = {} then T * nanos else Max S) loc)"
proof -
  let ?c = "resolveLocal date tod loc"
  note r = resolve_complete [OF assms(1,2,5)]
  have S: "S = set ?c" by (simp add: S_def r)
  have gap: "S = {} \<Longrightarrow> gapTransition date tod loc = Inr (T * nanos)"
    using gapTransition_finds [OF assms(1,2,5)] by (simp add: S_def)
  note new = NewZoned_resolved [OF assms(1-4)]
  from r(2,3) show ?thesis
  proof (cases rule: sorted_two_cases)
    case 1
    then show ?thesis using gap by (simp add: S new)
  qed (simp_all add: S new)
qed

text \<open>A zone with one spring-forward transition, at 2024-03-10T10:00:00Z from -8 to -7 hours.\<close>

definition spring_zone :: tzdb where
  "spring_zone i = (if i = ''America/Los_Angeles''
     then Some (\<lambda>s. if s < 1710064800 then - 28800 else - 25200) else None)"

abbreviation "spring_ref \<equiv> \<lparr>z_ID = ''America/Los_Angeles'', z_TzdbVersion = ''2024a''\<rparr>"
abbreviation "spring_day \<equiv> \<lparr>ld_set = True, ld_year = 2024, ld_month = 3, ld_day = 10\<rparr>"
abbreviation "spring_time h \<equiv> \<lparr>lt_set = True, lt_hour = h, lt_minute = 30, lt_second = 0, lt_nanos = 0\<rparr>"

lemma spring_zone_single:
  "single_transition (\<lambda>s. if s < 1710064800 then - 28800 else - 25200) n 1710064800 (- 28800) (- 25200)"
  by (simp add: single_transition_def)

theorem zoned_resolution_follows_policy_witness:
  "\<exists>z. NewZonedDateTime spring_zone spring_day (spring_time 2) spring_ref DisambiguationLater = Inr z
     \<and> zd_instant z = NewInstant (1710064800 * nanos) \<and> zd_offsetSeconds z = - 25200"
proof -
  let ?loc = "\<lambda>s. if s < 1710064800 then - 28800 else - 25200 :: int"
  have v: "LocalDate_Validate spring_day = None" "LocalTime_Validate (spring_time 2) = None"
    "ZoneRef_Validate spring_zone spring_ref = None" by code_simp+
  have l: "spring_zone (z_ID spring_ref) = Some ?loc" by (simp add: spring_zone_def)
  have "naive_seconds spring_day (spring_time 2) = 1710037800" by code_simp
  then have "clock_instants ?loc spring_day (spring_time 2) = {}"
    unfolding clock_instants_seconds [OF v(2)] by auto
  with zoned_resolution_follows_policy [OF v l spring_zone_single]
  show ?thesis by (simp add: buildZoned_def zone_offset_def nanos_def go_int32_def)
qed

text \<open>
  NewZonedDateTimeAtOffset succeeds just for an offset that the zone uses at an instant
  whose clock shows the civil time, and it resolves to that instant; every other offset is
  refused with ErrOffsetNotValid.
\<close>
theorem zoned_at_offset_exact:
  assumes "LocalDate_Validate date = None" "LocalTime_Validate tod = None"
    and "ZoneRef_Validate tz zone = None" "tz (z_ID zone) = Some loc"
    and "single_transition loc (naive_seconds date tod) T b a"
  shows "NewZonedDateTimeAtOffset tz date tod zone off =
    (let t = naive_time date tod - off * nanos in
     if t \<in> clock_instants loc date tod \<and> zone_offset loc t = off
     then Inr (buildZoned date tod zone DisambiguationExplicitOffset t loc)
     else Inl (CivilErr ErrOffsetNotValid))"
proof -
  let ?c = "resolveLocal date tod loc" and ?t = "naive_time date tod - off * nanos"
  have S: "set ?c = clock_instants loc date tod" by (rule resolve_complete [OF assms(1,2,5)])
  have only: "t = ?t" if "t \<in> set ?c" "zone_offset loc t = off" for t
    using that unfolding S clock_instants_def by auto
  have "NewZonedDateTimeAtOffset tz date tod zone off =
    (case find (\<lambda>t. zone_offset loc t = off) ?c of
       Some t \<Rightarrow> Inr (buildZoned date tod zone DisambiguationExplicitOffset t loc)
     | None \<Rightarrow> Inl (CivilErr ErrOffsetNotValid))"
    using assms(1-4) by (simp add: NewZonedDateTimeAtOffset_def ZoneRef_Location_def)
  also have "\<dots> = (if ?t \<in> set ?c \<and> zone_offset loc ?t = off
     then Inr (buildZoned date tod zone DisambiguationExplicitOffset ?t loc)
     else Inl (CivilErr ErrOffsetNotValid))"
  proof (cases "find (\<lambda>t. zone_offset loc t = off) ?c")
    case None
    then have "\<not> (?t \<in> set ?c \<and> zone_offset loc ?t = off)" by (auto simp: find_None_iff)
    then show ?thesis using None by auto
  next
    case (Some t)
    then have "t \<in> set ?c" "zone_offset loc t = off" by (auto simp: find_Some_iff)
    then show ?thesis using only Some by auto
  qed
  finally show ?thesis by (simp add: S Let_def)
qed

theorem zoned_at_offset_exact_witness:
  "NewZonedDateTimeAtOffset spring_zone spring_day (spring_time 4) spring_ref (- 28800)
     = Inl (CivilErr ErrOffsetNotValid)"
proof -
  let ?loc = "\<lambda>s. if s < 1710064800 then - 28800 else - 25200 :: int"
  have v: "LocalDate_Validate spring_day = None" "LocalTime_Validate (spring_time 4) = None"
    "ZoneRef_Validate spring_zone spring_ref = None" by code_simp+
  have l: "spring_zone (z_ID spring_ref) = Some ?loc" by (simp add: spring_zone_def)
  have "zone_offset ?loc (naive_time spring_day (spring_time 4) - (- 28800) * nanos) \<noteq> - 28800" by code_simp
  then show ?thesis
    using zoned_at_offset_exact [OF v l spring_zone_single, of "- 28800"] by (simp add: Let_def)
qed

text \<open>
  In a gap the policies EARLIER and LATER record the same instant and the same UTC offset:
  the two results differ only in the recorded policy, although the documentation gives EARLIER
  the offset before the transition.
\<close>
theorem gap_policies_record_same_offset:
  assumes "clock_instants loc date tod = {}" and "LocalDate_Validate date = None"
    and "LocalTime_Validate tod = None" and "ZoneRef_Validate tz zone = None"
    and "tz (z_ID zone) = Some loc"
    and "NewZonedDateTime tz date tod zone DisambiguationEarlier = Inr z"
  shows "NewZonedDateTime tz date tod zone DisambiguationLater
           = Inr (z\<lparr>zd_disambiguation := DisambiguationLater\<rparr>)"
proof -
  have "set (resolveLocal date tod loc) \<subseteq> clock_instants loc date tod"
    using sameWallClock_iff [OF assms(2,3)]
    by (auto simp: resolveLocal_def clock_instants_def Let_def dedupeOffsets_def split: if_splits)
  then have "resolveLocal date tod loc = []" using assms(1) by simp
  with assms(6) show ?thesis
    using NewZoned_resolved [OF assms(2-5), of DisambiguationEarlier]
      NewZoned_resolved [OF assms(2-5), of DisambiguationLater]
    by (auto simp: buildZoned_def)
qed

theorem gap_policies_record_same_offset_witness:
  "\<exists>z. NewZonedDateTime spring_zone spring_day (spring_time 2) spring_ref DisambiguationEarlier = Inr z
     \<and> NewZonedDateTime spring_zone spring_day (spring_time 2) spring_ref DisambiguationLater
       = Inr (z\<lparr>zd_disambiguation := DisambiguationLater\<rparr>) \<and> zd_offsetSeconds z = - 25200"
proof -
  let ?loc = "\<lambda>s. if s < 1710064800 then - 28800 else - 25200 :: int"
  have v: "LocalDate_Validate spring_day = None" "LocalTime_Validate (spring_time 2) = None"
    "ZoneRef_Validate spring_zone spring_ref = None" by code_simp+
  have l: "spring_zone (z_ID spring_ref) = Some ?loc" by (simp add: spring_zone_def)
  have "naive_seconds spring_day (spring_time 2) = 1710037800" by code_simp
  then have gap: "clock_instants ?loc spring_day (spring_time 2) = {}"
    unfolding clock_instants_seconds [OF v(2)] by auto
  have "gapTransition spring_day (spring_time 2) ?loc = Inr (1710064800 * nanos)"
    by (rule gapTransition_finds [OF v(1,2) spring_zone_single gap])
  moreover have "resolveLocal spring_day (spring_time 2) ?loc = []"
    using resolve_complete(1) [OF v(1,2) spring_zone_single] gap by simp
  ultimately have e: "NewZonedDateTime spring_zone spring_day (spring_time 2) spring_ref DisambiguationEarlier
      = Inr (buildZoned spring_day (spring_time 2) spring_ref DisambiguationEarlier (1710064800 * nanos) ?loc)"
    using NewZoned_resolved [OF v l, of DisambiguationEarlier] by simp
  show ?thesis using e gap_policies_record_same_offset [OF gap v l e]
    by (simp add: buildZoned_def zone_offset_def nanos_def go_int32_def)
qed

end
