(* ===== verification/Values_Interval.thy ===== *)
theory Values_Interval
  imports Values_Zone
begin

text \<open>
  Package \<open>internal/kernel/values\<close>, last part of \<open>time.go\<close>: half-open effective intervals,
  recorded and known times, pay periods and business days.

  A bound is a date or an instant; what the interval reasoning needs of either is the locale
  \<open>timeline\<close>, a comparison that is the sign of a difference of keys, interpreted for dates
  (day numbers) and for instants (nanoseconds). What is proved: Overlaps answers whether some
  point lies in both intervals, the constructors build exactly the non-empty intervals, the
  canonical bytes of an interval determine it, and knowledge never runs ahead of its record
  without a claim.
\<close>

subsection \<open>Intervals\<close>

datatype IntervalKind =
    IntervalKindUnspecified | IntervalKindLocalDate | IntervalKindInstant | IntervalKindOther nat

fun IntervalKind_byte :: "IntervalKind \<Rightarrow> nat" where
  "IntervalKind_byte IntervalKindUnspecified = 0"
| "IntervalKind_byte IntervalKindLocalDate = 1"
| "IntervalKind_byte IntervalKindInstant = 2"
| "IntervalKind_byte (IntervalKindOther n) = n"

definition intervalKindWire :: "(IntervalKind \<times> string) list" where
  "intervalKindWire = [(IntervalKindLocalDate, ''LOCAL_DATE''), (IntervalKindInstant, ''INSTANT'')]"

definition IntervalKind_String :: "IntervalKind \<Rightarrow> string" where
  "IntervalKind_String k =
     (case map_of intervalKindWire k of Some w \<Rightarrow> w | None \<Rightarrow> ''INTERVAL_KIND_UNSPECIFIED'')"

record EffectiveInterval =
  iv_kind :: IntervalKind
  iv_startDate :: LocalDate
  iv_endDate :: LocalDate
  iv_startInstant :: Instant
  iv_endInstant :: Instant
  iv_hasEnd :: bool
  iv_calendar :: CalendarRef
  iv_zone :: ZoneRef
  iv_disambiguation :: Disambiguation

definition zero_EffectiveInterval :: EffectiveInterval where
  "zero_EffectiveInterval =
     \<lparr>iv_kind = IntervalKindUnspecified, iv_startDate = zero_LocalDate, iv_endDate = zero_LocalDate,
      iv_startInstant = zero_Instant, iv_endInstant = zero_Instant, iv_hasEnd = False,
      iv_calendar = \<lparr>c_Ref = [], c_Version = []\<rparr>, iv_zone = \<lparr>z_ID = [], z_TzdbVersion = []\<rparr>,
      iv_disambiguation = DisambiguationUnspecified\<rparr>"

definition newOpenLocalDateInterval :: "LocalDate \<Rightarrow> CalendarRef \<Rightarrow> EffectiveInterval res" where
  "newOpenLocalDateInterval start calendar =
     guard_res (LocalDate_Validate start) (guard_res (CalendarRef_Validate calendar)
       (Inr (zero_EffectiveInterval\<lparr>iv_kind := IntervalKindLocalDate, iv_startDate := start,
                                    iv_calendar := calendar\<rparr>)))"

definition NewOpenLocalDateInterval :: "LocalDate \<Rightarrow> CalendarRef \<Rightarrow> EffectiveInterval res" where
  "NewOpenLocalDateInterval start calendar = newOpenLocalDateInterval start calendar"

definition NewLocalDateInterval :: "LocalDate \<Rightarrow> LocalDate \<Rightarrow> CalendarRef \<Rightarrow> EffectiveInterval res" where
  "NewLocalDateInterval start fin calendar =
     bind_res (newOpenLocalDateInterval start calendar) (\<lambda>iv.
      guard_res (LocalDate_Validate fin)
       (if LocalDate_Compare start fin = 1 then Inl (IvErr ErrIntervalInverted)
        else if LocalDate_Compare start fin = 0 then Inl (IvErr ErrIntervalEmpty)
        else Inr (iv\<lparr>iv_endDate := fin, iv_hasEnd := True\<rparr>)))"

definition NewOpenInstantInterval :: "Instant \<Rightarrow> EffectiveInterval res" where
  "NewOpenInstantInterval start =
     guard_res (Instant_Validate start)
       (Inr (zero_EffectiveInterval\<lparr>iv_kind := IntervalKindInstant, iv_startInstant := start\<rparr>))"

definition NewInstantInterval :: "Instant \<Rightarrow> Instant \<Rightarrow> EffectiveInterval res" where
  "NewInstantInterval start fin =
     bind_res (NewOpenInstantInterval start) (\<lambda>iv.
      guard_res (Instant_Validate fin)
       (if Instant_Compare start fin = 1 then Inl (IvErr ErrIntervalInverted)
        else if Instant_Compare start fin = 0 then Inl (IvErr ErrIntervalEmpty)
        else Inr (iv\<lparr>iv_endInstant := fin, iv_hasEnd := True\<rparr>)))"

definition EffectiveInterval_Validate :: "EffectiveInterval \<Rightarrow> verr option" where
  "EffectiveInterval_Validate iv =
     (case iv_kind iv of
        IntervalKindLocalDate \<Rightarrow>
          first_err (LocalDate_Validate (iv_startDate iv))
           (first_err (CalendarRef_Validate (iv_calendar iv))
             (if iv_hasEnd iv then
                first_err (LocalDate_Validate (iv_endDate iv))
                  (reject (LocalDate_Compare (iv_startDate iv) (iv_endDate iv) \<ge> 0) (IvErr ErrIntervalInverted))
              else None))
      | IntervalKindInstant \<Rightarrow>
          first_err (Instant_Validate (iv_startInstant iv))
            (if iv_hasEnd iv then
               first_err (Instant_Validate (iv_endInstant iv))
                 (reject (Instant_Compare (iv_startInstant iv) (iv_endInstant iv) \<ge> 0) (IvErr ErrIntervalInverted))
             else None)
      | _ \<Rightarrow> Some (IvErr ErrIntervalUnset))"

definition WithZone :: "tzdb \<Rightarrow> EffectiveInterval \<Rightarrow> ZoneRef \<Rightarrow> Disambiguation \<Rightarrow> EffectiveInterval res" where
  "WithZone tz iv zone disambiguation =
     guard_res (EffectiveInterval_Validate iv) (guard_res (ZoneRef_Validate tz zone)
      (guard_res (reject (\<not> Disambiguation_Valid disambiguation) (CivilErr ErrDisambiguationRequired))
        (Inr (iv\<lparr>iv_zone := zone, iv_disambiguation := disambiguation\<rparr>))))"

definition IsOpenEnded :: "EffectiveInterval \<Rightarrow> bool" where
  "IsOpenEnded iv \<longleftrightarrow> \<not> iv_hasEnd iv"

definition ContainsDate :: "EffectiveInterval \<Rightarrow> LocalDate \<Rightarrow> bool res" where
  "ContainsDate iv d =
     guard_res (EffectiveInterval_Validate iv)
      (if iv_kind iv \<noteq> IntervalKindLocalDate then Inl (IvErr ErrIntervalKindMismatch)
       else guard_res (LocalDate_Validate d)
        (if LocalDate_Compare d (iv_startDate iv) < 0 then Inr False
         else if iv_hasEnd iv \<and> LocalDate_Compare d (iv_endDate iv) \<ge> 0 then Inr False
         else Inr True))"

definition ContainsInstant :: "EffectiveInterval \<Rightarrow> Instant \<Rightarrow> bool res" where
  "ContainsInstant iv i =
     guard_res (EffectiveInterval_Validate iv)
      (if iv_kind iv \<noteq> IntervalKindInstant then Inl (IvErr ErrIntervalKindMismatch)
       else guard_res (Instant_Validate i)
        (if Instant_Compare i (iv_startInstant iv) < 0 then Inr False
         else if iv_hasEnd iv \<and> Instant_Compare i (iv_endInstant iv) \<ge> 0 then Inr False
         else Inr True))"

definition Overlaps :: "EffectiveInterval \<Rightarrow> EffectiveInterval \<Rightarrow> bool res" where
  "Overlaps iv other =
     guard_res (EffectiveInterval_Validate iv) (guard_res (EffectiveInterval_Validate other)
      (if iv_kind iv \<noteq> iv_kind other then Inl (IvErr ErrIntervalKindMismatch)
       else if iv_kind iv = IntervalKindLocalDate then
         if iv_hasEnd iv \<and> LocalDate_Compare (iv_endDate iv) (iv_startDate other) \<le> 0 then Inr False
         else if iv_hasEnd other \<and> LocalDate_Compare (iv_endDate other) (iv_startDate iv) \<le> 0 then Inr False
         else Inr True
       else if iv_hasEnd iv \<and> Instant_Compare (iv_endInstant iv) (iv_startInstant other) \<le> 0 then Inr False
       else if iv_hasEnd other \<and> Instant_Compare (iv_endInstant other) (iv_startInstant iv) \<le> 0 then Inr False
       else Inr True))"

definition EffectiveInterval_String :: "EffectiveInterval \<Rightarrow> string" where
  "EffectiveInterval_String iv =
     (if EffectiveInterval_Validate iv \<noteq> None then []
      else let (start, fin) =
          (if iv_kind iv = IntervalKindLocalDate
           then (LocalDate_String (iv_startDate iv), if iv_hasEnd iv then LocalDate_String (iv_endDate iv) else [])
           else (Instant_String (iv_startInstant iv), if iv_hasEnd iv then Instant_String (iv_endInstant iv) else []))
        in ''['' @ start @ '','' @ fin @ '')'')"

definition tagInterval :: char where
  "tagInterval = CHR 0x05"

definition EffectiveInterval_Canonical :: "EffectiveInterval \<Rightarrow> bytes" where
  "EffectiveInterval_Canonical iv =
     (if EffectiveInterval_Validate iv \<noteq> None then []
      else let head = [tagInterval, char_of (IntervalKind_byte (iv_kind iv)), if iv_hasEnd iv then CHR 0x01 else CHR 0x00];
               bounds = (if iv_kind iv = IntervalKindLocalDate
                  then LocalDate_Canonical (iv_startDate iv) @ (if iv_hasEnd iv then LocalDate_Canonical (iv_endDate iv) else [])
                  else Instant_Canonical (iv_startInstant iv) @ (if iv_hasEnd iv then Instant_Canonical (iv_endInstant iv) else []))
        in appendLengthPrefixed (appendLengthPrefixed (appendLengthPrefixed (appendLengthPrefixed (head @ bounds)
             (c_Ref (iv_calendar iv))) (c_Version (iv_calendar iv))) (z_ID (iv_zone iv))) (z_TzdbVersion (iv_zone iv))
           @ [char_of (Disambiguation_byte (iv_disambiguation iv))])"

subsection \<open>Recorded and known times\<close>

record RecordedAt =
  rec_at :: Instant

record KnownAt =
  known_at :: Instant

definition NewRecordedAt :: "Instant \<Rightarrow> RecordedAt res" where
  "NewRecordedAt i = guard_res (Instant_Validate i) (Inr \<lparr>rec_at = i\<rparr>)"

definition NewKnownAt :: "Instant \<Rightarrow> KnownAt res" where
  "NewKnownAt i = guard_res (Instant_Validate i) (Inr \<lparr>known_at = i\<rparr>)"

definition RecordedAt_Canonical :: "RecordedAt \<Rightarrow> bytes" where
  "RecordedAt_Canonical r =
     (if Instant_Validate (rec_at r) \<noteq> None then [] else CHR 0x06 # Instant_Canonical (rec_at r))"

definition KnownAt_Canonical :: "KnownAt \<Rightarrow> bytes" where
  "KnownAt_Canonical k =
     (if Instant_Validate (known_at k) \<noteq> None then [] else CHR 0x07 # Instant_Canonical (known_at k))"

definition ValidateKnowledgeOrder :: "KnownAt \<Rightarrow> RecordedAt \<Rightarrow> bool \<Rightarrow> verr option" where
  "ValidateKnowledgeOrder known recorded futureKnowledgeClaim =
     first_err (Instant_Validate (known_at known)) (first_err (Instant_Validate (rec_at recorded))
       (reject (Instant_After (known_at known) (rec_at recorded) \<and> \<not> futureKnowledgeClaim)
         (IvErr ErrFutureKnowledge)))"

subsection \<open>Pay periods and business days\<close>

record PayPeriod =
  pp_set :: bool
  pp_id :: string
  pp_interval :: EffectiveInterval
  pp_ordinal :: int

definition NewPayPeriod :: "string \<Rightarrow> EffectiveInterval \<Rightarrow> int \<Rightarrow> PayPeriod res" where
  "NewPayPeriod i interval ordinal =
     guard_res (reject (i = []) (IvErr ErrPayPeriodUnset))
      (guard_res (EffectiveInterval_Validate interval)
       (guard_res (reject (iv_kind interval \<noteq> IntervalKindLocalDate) (IvErr ErrIntervalKindMismatch))
        (guard_res (reject (IsOpenEnded interval) (IvErr ErrPayPeriodOpenEnded))
         (guard_res (reject (ordinal < 1) (IvErr ErrPayPeriodUnset))
           (Inr \<lparr>pp_set = True, pp_id = i, pp_interval = interval, pp_ordinal = ordinal\<rparr>)))))"

definition PayPeriod_Validate :: "PayPeriod \<Rightarrow> verr option" where
  "PayPeriod_Validate p =
     first_err (reject (\<not> pp_set p) (IvErr ErrPayPeriodUnset)) (EffectiveInterval_Validate (pp_interval p))"

definition PayPeriod_String :: "PayPeriod \<Rightarrow> string" where
  "PayPeriod_String p =
     (if PayPeriod_Validate p \<noteq> None then [] else pp_id p @ EffectiveInterval_String (pp_interval p))"

definition PayPeriod_Canonical :: "PayPeriod \<Rightarrow> bytes" where
  "PayPeriod_Canonical p =
     (if PayPeriod_Validate p \<noteq> None then []
      else appendLengthPrefixed [CHR 0x08] (pp_id p) @ be32 (pp_ordinal p)
           @ EffectiveInterval_Canonical (pp_interval p))"

record BusinessDay =
  bd_set :: bool
  bd_date :: LocalDate
  bd_calendar :: CalendarRef
  bd_working :: bool

definition NewBusinessDay :: "LocalDate \<Rightarrow> CalendarRef \<Rightarrow> bool \<Rightarrow> BusinessDay res" where
  "NewBusinessDay date calendar working =
     guard_res (LocalDate_Validate date) (guard_res (CalendarRef_Validate calendar)
       (Inr \<lparr>bd_set = True, bd_date = date, bd_calendar = calendar, bd_working = working\<rparr>))"

definition BusinessDay_Validate :: "BusinessDay \<Rightarrow> verr option" where
  "BusinessDay_Validate b =
     first_err (reject (\<not> bd_set b) (IvErr ErrBusinessDayUnset))
      (first_err (LocalDate_Validate (bd_date b)) (CalendarRef_Validate (bd_calendar b)))"

definition BusinessDay_String :: "BusinessDay \<Rightarrow> string" where
  "BusinessDay_String b =
     (if BusinessDay_Validate b \<noteq> None then []
      else let status = (if bd_working b then ''WORKING'' else ''NON_WORKING'') in
        LocalDate_String (bd_date b) @ ''@'' @ CalendarRef_String (bd_calendar b) @ '' '' @ status)"

definition BusinessDay_Canonical :: "BusinessDay \<Rightarrow> bytes" where
  "BusinessDay_Canonical b =
     (if BusinessDay_Validate b \<noteq> None then []
      else appendLengthPrefixed (appendLengthPrefixed (CHR 0x09 # LocalDate_Canonical (bd_date b))
             (c_Ref (bd_calendar b))) (c_Version (bd_calendar b))
           @ [if bd_working b then CHR 0x01 else CHR 0x00])"

subsection \<open>Half-open intervals on a timeline\<close>

text \<open>
  The contract between an interval and its kind of bound: a validity check and a comparison
  that, on valid points, is the sign of the difference of two keys. The interval operations of
  the client are stated over an optional exclusive end.
\<close>

locale timeline =
  fixes valid :: "'p \<Rightarrow> bool" and cmp :: "'p \<Rightarrow> 'p \<Rightarrow> int" and key :: "'p \<Rightarrow> int"
  assumes cmp_key: "valid a \<Longrightarrow> valid b \<Longrightarrow> cmp a b = sgn (key a - key b)"
begin

definition inside :: "'p \<Rightarrow> 'p option \<Rightarrow> 'p \<Rightarrow> bool" where
  "inside s e p \<longleftrightarrow> valid p \<and> 0 \<le> cmp p s \<and> (\<forall>x. e = Some x \<longrightarrow> cmp p x < 0)"

definition well_ordered :: "'p \<Rightarrow> 'p option \<Rightarrow> bool" where
  "well_ordered s e \<longleftrightarrow> valid s \<and> (\<forall>x. e = Some x \<longrightarrow> valid x \<and> cmp s x < 0)"

lemma cmp_signs:
  assumes "valid a" "valid b"
  shows "cmp a b < 0 \<longleftrightarrow> key a < key b" "cmp a b \<le> 0 \<longleftrightarrow> key a \<le> key b" "0 \<le> cmp a b \<longleftrightarrow> key b \<le> key a"
    "0 < cmp a b \<longleftrightarrow> key b < key a"
  using cmp_key [OF assms] by (auto simp: sgn_if)

lemma inside_key:
  "well_ordered s e \<Longrightarrow> inside s e p \<longleftrightarrow> valid p \<and> key s \<le> key p \<and> (\<forall>x. e = Some x \<longrightarrow> key p < key x)"
  by (auto simp: inside_def well_ordered_def cmp_signs)

lemma start_within: "well_ordered s e \<Longrightarrow> inside s e s"
  using cmp_key [of s s] by (auto simp: inside_def well_ordered_def)

lemma overlap_iff:
  assumes "well_ordered s e" "well_ordered t f"
  shows "(\<exists>p. inside s e p \<and> inside t f p)
    \<longleftrightarrow> \<not> (\<exists>x. e = Some x \<and> cmp x t \<le> 0) \<and> \<not> (\<exists>y. f = Some y \<and> cmp y s \<le> 0)"
proof -
  have v: "valid s" "valid t" "\<And>x. e = Some x \<Longrightarrow> valid x \<and> key s < key x"
    "\<And>y. f = Some y \<Longrightarrow> valid y \<and> key t < key y"
    using assms by (auto simp: well_ordered_def cmp_signs)
  show ?thesis
  proof
    assume "\<exists>p. inside s e p \<and> inside t f p"
    then show "\<not> (\<exists>x. e = Some x \<and> cmp x t \<le> 0) \<and> \<not> (\<exists>y. f = Some y \<and> cmp y s \<le> 0)"
      using v by (auto simp: inside_key [OF assms(1)] inside_key [OF assms(2)] cmp_signs)
  next
    assume "\<not> (\<exists>x. e = Some x \<and> cmp x t \<le> 0) \<and> \<not> (\<exists>y. f = Some y \<and> cmp y s \<le> 0)"
    then have "inside s e (if key s < key t then t else s) \<and> inside t f (if key s < key t then t else s)"
      using v by (auto simp: inside_key [OF assms(1)] inside_key [OF assms(2)] cmp_signs not_le)
    then show "\<exists>p. inside s e p \<and> inside t f p" by blast
  qed
qed

end

interpretation date_line: timeline "\<lambda>d. LocalDate_Validate d = None" LocalDate_Compare day_number
  by unfold_locales (rule LocalDate_Compare_sgn)

interpretation instant_line: timeline "\<lambda>i. Instant_Validate i = None" Instant_Compare Instant_Time
  by unfold_locales (rule Instant_Compare_sgn)

definition iv_dateEnd :: "EffectiveInterval \<Rightarrow> LocalDate option" where
  "iv_dateEnd iv = (if iv_hasEnd iv then Some (iv_endDate iv) else None)"

definition iv_instantEnd :: "EffectiveInterval \<Rightarrow> Instant option" where
  "iv_instantEnd iv = (if iv_hasEnd iv then Some (iv_endInstant iv) else None)"

lemma Validate_cases:
  assumes "EffectiveInterval_Validate iv = None"
  obtains (date) "iv_kind iv = IntervalKindLocalDate"
      "date_line.well_ordered (iv_startDate iv) (iv_dateEnd iv)"
  | (instant) "iv_kind iv = IntervalKindInstant"
      "instant_line.well_ordered (iv_startInstant iv) (iv_instantEnd iv)"
  using assms
  by (auto simp: EffectiveInterval_Validate_def date_line.well_ordered_def iv_dateEnd_def
      instant_line.well_ordered_def iv_instantEnd_def split: IntervalKind.splits if_splits)

lemma ContainsDate_within:
  assumes "EffectiveInterval_Validate iv = None" "iv_kind iv = IntervalKindLocalDate"
  shows "ContainsDate iv d = Inr True \<longleftrightarrow> date_line.inside (iv_startDate iv) (iv_dateEnd iv) d"
  using assms by (auto simp: ContainsDate_def date_line.inside_def iv_dateEnd_def not_less)

lemma ContainsInstant_within:
  assumes "EffectiveInterval_Validate iv = None" "iv_kind iv = IntervalKindInstant"
  shows "ContainsInstant iv i = Inr True \<longleftrightarrow> instant_line.inside (iv_startInstant iv) (iv_instantEnd iv) i"
  using assms by (auto simp: ContainsInstant_def instant_line.inside_def iv_instantEnd_def not_less)

subsection \<open>Properties\<close>

lemma Overlaps_shared:
  assumes va: "EffectiveInterval_Validate a = None" and vb: "EffectiveInterval_Validate b = None"
  shows "Overlaps a b = (if iv_kind a \<noteq> iv_kind b then Inl (IvErr ErrIntervalKindMismatch)
     else Inr ((\<exists>d. ContainsDate a d = Inr True \<and> ContainsDate b d = Inr True)
             \<or> (\<exists>i. ContainsInstant a i = Inr True \<and> ContainsInstant b i = Inr True)))"
proof (cases "iv_kind a = iv_kind b")
  case False
  then show ?thesis using va vb by (simp add: Overlaps_def)
next
  case k: True
  from va show ?thesis
  proof (cases rule: Validate_cases)
    case date
    then have "date_line.well_ordered (iv_startDate b) (iv_dateEnd b)"
      using vb k by (auto elim: Validate_cases)
    from date_line.overlap_iff [OF date(2) this]
    have "Overlaps a b = Inr (\<exists>d. ContainsDate a d = Inr True \<and> ContainsDate b d = Inr True)"
      using va vb k date by (auto simp: Overlaps_def ContainsDate_within iv_dateEnd_def)
    moreover have "\<not> (\<exists>i. ContainsInstant a i = Inr True)" using va date by (auto simp: ContainsInstant_def)
    ultimately show ?thesis using k by simp
  next
    case instant
    then have "instant_line.well_ordered (iv_startInstant b) (iv_instantEnd b)"
      using vb k by (auto elim: Validate_cases)
    from instant_line.overlap_iff [OF instant(2) this]
    have "Overlaps a b = Inr (\<exists>i. ContainsInstant a i = Inr True \<and> ContainsInstant b i = Inr True)"
      using va vb k instant by (auto simp: Overlaps_def ContainsInstant_within iv_instantEnd_def)
    moreover have "\<not> (\<exists>d. ContainsDate a d = Inr True)" using va instant by (auto simp: ContainsDate_def)
    ultimately show ?thesis using k by simp
  qed
qed

lemma Overlaps_sym:
  assumes "EffectiveInterval_Validate a = None" and "EffectiveInterval_Validate b = None"
  shows "Overlaps b a = Overlaps a b"
  unfolding Overlaps_shared [OF assms] Overlaps_shared [OF assms(2,1)] by (auto simp: conj_commute)

text \<open>
  C39: Overlaps of two usable intervals of one kind answers whether some date (or some instant)
  is contained in both, so it is symmetric, and intervals that only meet at an end do not
  overlap; intervals of different kinds are refused.
\<close>
theorem overlaps_iff_shared_point:
  assumes "EffectiveInterval_Validate iv = None" and "EffectiveInterval_Validate other = None"
  shows "Overlaps iv other =
    (if iv_kind iv \<noteq> iv_kind other then Inl (IvErr ErrIntervalKindMismatch)
     else Inr ((\<exists>d. ContainsDate iv d = Inr True \<and> ContainsDate other d = Inr True)
             \<or> (\<exists>i. ContainsInstant iv i = Inr True \<and> ContainsInstant other i = Inr True)))
    \<and> Overlaps other iv = Overlaps iv other"
  using Overlaps_shared [OF assms] Overlaps_sym [OF assms] by blast

abbreviation "jan n \<equiv> \<lparr>ld_set = True, ld_year = 2025, ld_month = 1, ld_day = n\<rparr>"
abbreviation "us_cal \<equiv> \<lparr>c_Ref = ''us'', c_Version = ''1''\<rparr>"

definition jan_interval :: "int \<Rightarrow> int \<Rightarrow> EffectiveInterval" where
  "jan_interval m n = zero_EffectiveInterval\<lparr>iv_kind := IntervalKindLocalDate, iv_startDate := jan m,
     iv_calendar := us_cal, iv_endDate := jan n, iv_hasEnd := True\<rparr>"

theorem overlaps_iff_shared_point_witness:
  "Overlaps (jan_interval 1 10) (jan_interval 5 20) = Inr True
   \<and> Overlaps (jan_interval 10 20) (jan_interval 1 10) = Overlaps (jan_interval 1 10) (jan_interval 10 20)
   \<and> Overlaps (jan_interval 1 10) (jan_interval 10 20) = Inr False"
proof -
  have v: "EffectiveInterval_Validate (jan_interval 1 10) = None"
    "EffectiveInterval_Validate (jan_interval 5 20) = None"
    "EffectiveInterval_Validate (jan_interval 10 20) = None" by code_simp+
  have "ContainsDate (jan_interval 1 10) (jan 7) = Inr True"
    "ContainsDate (jan_interval 5 20) (jan 7) = Inr True"
    "iv_kind (jan_interval 1 10) = iv_kind (jan_interval 5 20)" by code_simp+
  then have "Overlaps (jan_interval 1 10) (jan_interval 5 20) = Inr True"
    using overlaps_iff_shared_point [OF v(1,2)] by auto
  moreover have "Overlaps (jan_interval 1 10) (jan_interval 10 20) = Inr False" by code_simp
  ultimately show ?thesis using overlaps_iff_shared_point [OF v(1,3)] by simp
qed

text \<open>
  The interval constructors succeed just on valid, strictly ordered bounds (and a complete
  calendar reference), name an inverted and an empty interval, and the interval they build is
  usable, contains its start and does not contain its end.
\<close>
theorem interval_constructors_exact:
  "(NewLocalDateInterval s e c = Inr iv \<longleftrightarrow>
      LocalDate_Validate s = None \<and> CalendarRef_Validate c = None \<and> LocalDate_Validate e = None
      \<and> day_number s < day_number e
      \<and> iv = zero_EffectiveInterval\<lparr>iv_kind := IntervalKindLocalDate, iv_startDate := s, iv_calendar := c,
                                    iv_endDate := e, iv_hasEnd := True\<rparr>)
   \<and> (NewInstantInterval i j = Inr iw \<longleftrightarrow>
      Instant_Validate i = None \<and> Instant_Validate j = None \<and> Instant_Time i < Instant_Time j
      \<and> iw = zero_EffectiveInterval\<lparr>iv_kind := IntervalKindInstant, iv_startInstant := i,
                                    iv_endInstant := j, iv_hasEnd := True\<rparr>)
   \<and> (NewLocalDateInterval s e c = Inr iv \<longrightarrow>
      EffectiveInterval_Validate iv = None \<and> ContainsDate iv s = Inr True \<and> ContainsDate iv e = Inr False)
   \<and> (NewInstantInterval i j = Inr iw \<longrightarrow>
      EffectiveInterval_Validate iw = None \<and> ContainsInstant iw i = Inr True \<and> ContainsInstant iw j = Inr False)"
  by (intro conjI impI; auto simp: NewLocalDateInterval_def newOpenLocalDateInterval_def NewInstantInterval_def
      NewOpenInstantInterval_def LocalDate_Compare_sgn Instant_Compare_sgn sgn_if
      EffectiveInterval_Validate_def ContainsDate_def ContainsInstant_def split: if_splits)

theorem interval_constructors_exact_witness:
  "NewLocalDateInterval (jan 1) (jan 10) us_cal = Inr (jan_interval 1 10)
   \<and> ContainsDate (jan_interval 1 10) (jan 10) = Inr False
   \<and> NewLocalDateInterval (jan 10) (jan 10) us_cal = Inl (IvErr ErrIntervalEmpty)"
proof -
  have n: "NewLocalDateInterval (jan 1) (jan 10) us_cal = Inr (jan_interval 1 10)" by code_simp
  moreover have "NewLocalDateInterval (jan 10) (jan 10) us_cal = Inl (IvErr ErrIntervalEmpty)" by code_simp
  ultimately show ?thesis using interval_constructors_exact [of "jan 1" "jan 10" us_cal "jan_interval 1 10"] by simp
qed

subsection \<open>Canonical bytes\<close>

definition int64_range :: "int \<Rightarrow> bool" where
  "int64_range n \<longleftrightarrow> - (2 ^ 63) \<le> n \<and> n < 2 ^ 63"

lemma be64_range_inj: "int64_range x \<Longrightarrow> int64_range y \<Longrightarrow> be64 x = be64 y \<Longrightarrow> x = y"
proof -
  assume r: "int64_range x" "int64_range y" and "be64 x = be64 y"
  then have "go_int64 x = go_int64 y"
    unfolding go_int64_def using be64_mod_inj by (metis mod_add_left_eq)
  then show ?thesis using r by (simp add: int64_range_def go_int64_id)
qed

lemma Instant_Canonical_length: "Instant_Validate i = None \<Longrightarrow> length (Instant_Canonical i) = 13"
  by (simp add: Instant_Canonical_def)

lemma Instant_Canonical_inj:
  assumes "Instant_Validate i = None" "Instant_Validate j = None"
    and "int64_range (i_sec i)" "int64_range (i_sec j)" "Instant_Canonical i = Instant_Canonical j"
  shows "i = j"
proof -
  have "be64 (i_sec i) = be64 (i_sec j)" "be32 (i_nsec i) = be32 (i_nsec j)"
    using assms(1,2,5) by (simp_all add: Instant_Canonical_def)
  moreover have "0 \<le> i_nsec i" "i_nsec i < 2 ^ 32" "0 \<le> i_nsec j" "i_nsec j < 2 ^ 32" "i_set i" "i_set j"
    using assms(1,2) by (auto simp: Instant_Validate_def)
  ultimately have "i_sec i = i_sec j" "i_nsec i = i_nsec j" "i_set i = i_set j"
    using be64_range_inj assms(3,4) be32_inj by blast+
  then show ?thesis by (cases i; cases j) simp
qed

lemma LocalDate_Canonical_length: "LocalDate_Validate d = None \<Longrightarrow> length (LocalDate_Canonical d) = 7"
  by (simp add: LocalDate_Canonical_def)

lemma LocalDate_Canonical_inj:
  assumes v: "LocalDate_Validate d = None" "LocalDate_Validate e = None"
    and "LocalDate_Canonical d = LocalDate_Canonical e"
  shows "d = e"
proof -
  have r: "1 \<le> ld_year d" "ld_year d < 2 ^ 32" "1 \<le> ld_year e" "ld_year e < 2 ^ 32" "ld_set d" "ld_set e"
    "real_date (ld_year d) (ld_month d) (ld_day d)" "real_date (ld_year e) (ld_month e) (ld_day e)"
    using v by (auto simp: LocalDate_Validate_iff)
  have b: "be32 (ld_year d) = be32 (ld_year e)"
    "char_of (nat (ld_month d)) = (char_of (nat (ld_month e)) :: char)"
    "char_of (nat (ld_day d)) = (char_of (nat (ld_day e)) :: char)"
    using assms by (auto simp: LocalDate_Canonical_def)
  have m: "0 \<le> ld_month d" "ld_month d < 256" "0 \<le> ld_month e" "ld_month e < 256"
    "0 \<le> ld_day d" "ld_day d < 256" "0 \<le> ld_day e" "ld_day e < 256"
    using r(7,8) real_date_day [OF r(7)] real_date_day [OF r(8)] by (auto simp: real_date_def)
  have "ld_year d = ld_year e" using b(1) r(1-4) be32_inj by auto
  moreover have "nat (ld_month d) = nat (ld_month e)" "nat (ld_day d) = nat (ld_day e)"
    by (rule char_of_small_inj [OF _ _ b(2)], use m in simp, use m in simp)
      (rule char_of_small_inj [OF _ _ b(3)], use m in simp, use m in simp)
  then have "ld_month d = ld_month e" "ld_day d = ld_day e" using m by (simp_all add: eq_nat_nat_iff)
  ultimately show ?thesis using r(5,6) by (cases d; cases e) simp
qed

lemma appendLengthPrefixed_eq: "appendLengthPrefixed dst s = dst @ len_prefixed s"
  by (simp add: appendLengthPrefixed_def len_prefixed_def)

definition byte_policy :: "Disambiguation \<Rightarrow> bool" where
  "byte_policy d \<longleftrightarrow> (\<forall>n. d = DisambiguationOther n \<longrightarrow> 5 \<le> n \<and> n < 256)"

lemma policy_byte_inj:
  assumes "byte_policy d" "byte_policy e"
    and "char_of (Disambiguation_byte d) = (char_of (Disambiguation_byte e) :: char)"
  shows "d = e"
proof -
  have "Disambiguation_byte d < 256" "Disambiguation_byte e < 256"
    using assms by (cases d; cases e; auto simp: byte_policy_def)+
  then have "Disambiguation_byte d = Disambiguation_byte e" using assms char_of_small_inj by blast
  then show ?thesis using assms by (cases d; cases e) (auto simp: byte_policy_def)
qed

text \<open>
  The intervals that the constructors and WithZone build: the bounds of the other kind are
  unset, an open end is unset, and the integers and lengths fit the encoding.
\<close>

definition built_interval :: "EffectiveInterval \<Rightarrow> bool" where
  "built_interval iv \<longleftrightarrow>
     EffectiveInterval_Validate iv = None
     \<and> (iv_kind iv = IntervalKindLocalDate \<longrightarrow> iv_startInstant iv = zero_Instant \<and> iv_endInstant iv = zero_Instant)
     \<and> (iv_kind iv = IntervalKindInstant \<longrightarrow> iv_startDate iv = zero_LocalDate \<and> iv_endDate iv = zero_LocalDate)
     \<and> (\<not> iv_hasEnd iv \<longrightarrow> iv_endDate iv = zero_LocalDate \<and> iv_endInstant iv = zero_Instant)
     \<and> int64_range (i_sec (iv_startInstant iv)) \<and> int64_range (i_sec (iv_endInstant iv))
     \<and> list_all (\<lambda>s. length s < 2 ^ 32)
         [c_Ref (iv_calendar iv), c_Version (iv_calendar iv), z_ID (iv_zone iv), z_TzdbVersion (iv_zone iv)]
     \<and> byte_policy (iv_disambiguation iv)"

definition iv_bounds :: "EffectiveInterval \<Rightarrow> bytes" where
  "iv_bounds iv = (if iv_kind iv = IntervalKindLocalDate
     then LocalDate_Canonical (iv_startDate iv) @ (if iv_hasEnd iv then LocalDate_Canonical (iv_endDate iv) else [])
     else Instant_Canonical (iv_startInstant iv) @ (if iv_hasEnd iv then Instant_Canonical (iv_endInstant iv) else []))"

lemma Canonical_layout:
  "EffectiveInterval_Validate iv = None \<Longrightarrow> EffectiveInterval_Canonical iv =
     [tagInterval, char_of (IntervalKind_byte (iv_kind iv)), if iv_hasEnd iv then CHR 0x01 else CHR 0x00]
     @ iv_bounds iv @ len_prefixed (c_Ref (iv_calendar iv)) @ len_prefixed (c_Version (iv_calendar iv))
     @ len_prefixed (z_ID (iv_zone iv)) @ len_prefixed (z_TzdbVersion (iv_zone iv))
     @ [char_of (Disambiguation_byte (iv_disambiguation iv))]"
  by (simp add: EffectiveInterval_Canonical_def Let_def appendLengthPrefixed_eq iv_bounds_def)

lemma Validate_kind:
  "EffectiveInterval_Validate iv = None \<Longrightarrow> iv_kind iv \<in> {IntervalKindLocalDate, IntervalKindInstant}"
  by (erule Validate_cases) auto

lemma kind_byte_inj:
  "k \<in> {IntervalKindLocalDate, IntervalKindInstant} \<Longrightarrow> l \<in> {IntervalKindLocalDate, IntervalKindInstant}
   \<Longrightarrow> char_of (IntervalKind_byte k) = (char_of (IntervalKind_byte l) :: char) \<Longrightarrow> k = l"
  using char_of_small_inj [of 1 2] char_of_small_inj [of 2 1] by auto

lemma bounds_valid:
  assumes "EffectiveInterval_Validate iv = None"
  shows "iv_kind iv = IntervalKindLocalDate \<Longrightarrow>
      LocalDate_Validate (iv_startDate iv) = None \<and> (iv_hasEnd iv \<longrightarrow> LocalDate_Validate (iv_endDate iv) = None)"
    and "iv_kind iv = IntervalKindInstant \<Longrightarrow>
      Instant_Validate (iv_startInstant iv) = None \<and> (iv_hasEnd iv \<longrightarrow> Instant_Validate (iv_endInstant iv) = None)"
  using assms by (auto simp: EffectiveInterval_Validate_def)

lemma bounds_length:
  assumes "EffectiveInterval_Validate iv = None"
  shows "length (iv_bounds iv) =
    (if iv_kind iv = IntervalKindLocalDate then if iv_hasEnd iv then 14 else 7 else if iv_hasEnd iv then 26 else 13)"
  using Validate_kind [OF assms] bounds_valid [OF assms]
  by (auto simp: iv_bounds_def LocalDate_Canonical_length Instant_Canonical_length)

lemma bounds_inj:
  assumes a: "built_interval a" and b: "built_interval b" and k: "iv_kind a = iv_kind b"
    and h: "iv_hasEnd a = iv_hasEnd b" and e: "iv_bounds a = iv_bounds b"
  shows "iv_startDate a = iv_startDate b \<and> iv_endDate a = iv_endDate b
    \<and> iv_startInstant a = iv_startInstant b \<and> iv_endInstant a = iv_endInstant b"
proof -
  have v: "EffectiveInterval_Validate a = None" "EffectiveInterval_Validate b = None"
    using a b by (auto simp: built_interval_def)
  show ?thesis
  proof (cases "iv_kind a = IntervalKindLocalDate")
    case True
    note va = bounds_valid(1) [OF v(1) True] and vb = bounds_valid(1) [OF v(2) True [unfolded k]]
    have "iv_startDate a = iv_startDate b" "iv_hasEnd a \<Longrightarrow> iv_endDate a = iv_endDate b"
      using e h k True va vb LocalDate_Canonical_inj
      by (auto simp: iv_bounds_def LocalDate_Canonical_length)
    then show ?thesis using a b True k h by (cases "iv_hasEnd a") (auto simp: built_interval_def)
  next
    case False
    then have i: "iv_kind a = IntervalKindInstant" using Validate_kind [OF v(1)] by auto
    note va = bounds_valid(2) [OF v(1) i] and vb = bounds_valid(2) [OF v(2) i [unfolded k]]
    have r: "int64_range (i_sec (iv_startInstant a))" "int64_range (i_sec (iv_endInstant a))"
      "int64_range (i_sec (iv_startInstant b))" "int64_range (i_sec (iv_endInstant b))"
      using a b by (auto simp: built_interval_def)
    have "iv_startInstant a = iv_startInstant b" "iv_hasEnd a \<Longrightarrow> iv_endInstant a = iv_endInstant b"
      using e h k False va vb Instant_Canonical_inj r
      by (auto simp: iv_bounds_def Instant_Canonical_length)
    then show ?thesis using a b i k h by (cases "iv_hasEnd a") (auto simp: built_interval_def)
  qed
qed

lemma interval_canonical_inj:
  assumes a: "built_interval a" and b: "built_interval b"
    and eq: "EffectiveInterval_Canonical a = EffectiveInterval_Canonical b"
  shows "a = b"
proof -
  have v: "EffectiveInterval_Validate a = None" "EffectiveInterval_Validate b = None"
    using a b by (auto simp: built_interval_def)
  have la: "length (c_Ref (iv_calendar a)) < 2 ^ 32" "length (c_Version (iv_calendar a)) < 2 ^ 32"
      "length (z_ID (iv_zone a)) < 2 ^ 32" "length (z_TzdbVersion (iv_zone a)) < 2 ^ 32"
    and lb: "length (c_Ref (iv_calendar b)) < 2 ^ 32" "length (c_Version (iv_calendar b)) < 2 ^ 32"
      "length (z_ID (iv_zone b)) < 2 ^ 32" "length (z_TzdbVersion (iv_zone b)) < 2 ^ 32"
    using a b by (auto simp: built_interval_def)
  note eq = eq [unfolded Canonical_layout [OF v(1)] Canonical_layout [OF v(2)]]
  have k: "iv_kind a = iv_kind b" by (rule kind_byte_inj) (use Validate_kind v eq in auto)
  have h: "iv_hasEnd a = iv_hasEnd b" using eq by (simp split: if_splits)
  have "length (iv_bounds a) = length (iv_bounds b)" by (simp only: bounds_length v k h)
  then have bd: "iv_bounds a = iv_bounds b" and rest:
    "len_prefixed (c_Ref (iv_calendar a)) @ len_prefixed (c_Version (iv_calendar a))
     @ len_prefixed (z_ID (iv_zone a)) @ len_prefixed (z_TzdbVersion (iv_zone a))
     @ [char_of (Disambiguation_byte (iv_disambiguation a))]
     = len_prefixed (c_Ref (iv_calendar b)) @ len_prefixed (c_Version (iv_calendar b))
     @ len_prefixed (z_ID (iv_zone b)) @ len_prefixed (z_TzdbVersion (iv_zone b))
     @ [char_of (Disambiguation_byte (iv_disambiguation b))]" using eq by simp_all
  note r1 = len_prefixed_append_inj [OF rest la(1) lb(1)]
  note r2 = len_prefixed_append_inj [OF r1 [THEN conjunct2] la(2) lb(2)]
  note r3 = len_prefixed_append_inj [OF r2 [THEN conjunct2] la(3) lb(3)]
  note r4 = len_prefixed_append_inj [OF r3 [THEN conjunct2] la(4) lb(4)]
  have "iv_disambiguation a = iv_disambiguation b"
    by (rule policy_byte_inj) (use a b r4 in \<open>auto simp: built_interval_def\<close>)
  moreover have "iv_calendar a = iv_calendar b" "iv_zone a = iv_zone b" using r1 r2 r3 r4 by simp_all
  ultimately show "a = b" using bounds_inj [OF a b k h bd] k h by simp
qed

text \<open>
  The canonical bytes identify an interval: two intervals that the constructors build (with
  string parts below four gigabytes) have the same bytes only when they are equal, end, zone,
  calendar and policy included.
\<close>
theorem interval_canonical_injective:
  "built_interval a \<Longrightarrow> built_interval b \<Longrightarrow> EffectiveInterval_Canonical a = EffectiveInterval_Canonical b \<Longrightarrow> a = b"
  by (rule interval_canonical_inj)

theorem interval_canonical_injective_witness:
  "built_interval (jan_interval 1 10) \<and> built_interval (jan_interval 1 11)
   \<and> EffectiveInterval_Canonical (jan_interval 1 10) \<noteq> EffectiveInterval_Canonical (jan_interval 1 11)"
proof -
  have v: "EffectiveInterval_Validate (jan_interval 1 10) = None"
    "EffectiveInterval_Validate (jan_interval 1 11) = None" by code_simp+
  then have b: "built_interval (jan_interval 1 10)" "built_interval (jan_interval 1 11)"
    by (simp_all add: built_interval_def jan_interval_def zero_EffectiveInterval_def int64_range_def
        zero_Instant_def byte_policy_def)
  moreover have "jan_interval 1 10 \<noteq> jan_interval 1 11" by (simp add: jan_interval_def zero_EffectiveInterval_def)
  ultimately show ?thesis using interval_canonical_injective [OF b] by blast
qed

end
