(* ===== verification/Values_Timer.thy ===== *)
theory Values_Timer
  imports Values_Interval
begin

text \<open>
  Package \<open>internal/kernel/values\<close>, file \<open>timer.go\<close>: reference-update policies, dataset
  versions and the replay of a timer after a dataset refresh. The resolver that a caller
  supplies is a parameter: a function from dataset versions to an instant or an error text,
  absent when nil; the two calls that a replay may make are applications of one function.

  What is proved: the deadline moves only as the policy allows, review is flagged exactly when
  the policy demands it, the evidence repeats the outcome, and under PIN a historical answer
  that differs from the recorded deadline replaces it without a flag.
\<close>

datatype ReferenceUpdatePolicy =
    ReferenceUpdateUnspecified | ReferenceUpdatePin | ReferenceUpdateRecalculate
  | ReferenceUpdateReviewRequired | ReferenceUpdateOther nat

fun ReferenceUpdatePolicy_byte :: "ReferenceUpdatePolicy \<Rightarrow> nat" where
  "ReferenceUpdatePolicy_byte ReferenceUpdateUnspecified = 0"
| "ReferenceUpdatePolicy_byte ReferenceUpdatePin = 1"
| "ReferenceUpdatePolicy_byte ReferenceUpdateRecalculate = 2"
| "ReferenceUpdatePolicy_byte ReferenceUpdateReviewRequired = 3"
| "ReferenceUpdatePolicy_byte (ReferenceUpdateOther n) = n"

definition referenceUpdateWire :: "(ReferenceUpdatePolicy \<times> string) list" where
  "referenceUpdateWire =
     [(ReferenceUpdatePin, ''PIN''), (ReferenceUpdateRecalculate, ''RECALCULATE''),
      (ReferenceUpdateReviewRequired, ''REVIEW_REQUIRED'')]"

definition AllReferenceUpdatePolicies :: "ReferenceUpdatePolicy list" where
  "AllReferenceUpdatePolicies =
     [ReferenceUpdatePin, ReferenceUpdateRecalculate, ReferenceUpdateReviewRequired]"

definition ReferenceUpdatePolicy_String :: "ReferenceUpdatePolicy \<Rightarrow> string" where
  "ReferenceUpdatePolicy_String p =
     (case map_of referenceUpdateWire p of Some w \<Rightarrow> w | None \<Rightarrow> ''REFERENCE_UPDATE_UNSPECIFIED'')"

definition ReferenceUpdatePolicy_Valid :: "ReferenceUpdatePolicy \<Rightarrow> bool" where
  "ReferenceUpdatePolicy_Valid p \<longleftrightarrow> map_of referenceUpdateWire p \<noteq> None"

definition ParseReferenceUpdatePolicy :: "string \<Rightarrow> ReferenceUpdatePolicy res" where
  "ParseReferenceUpdatePolicy token =
     (case find (\<lambda>(policy, wire). wire = token) referenceUpdateWire of
        Some (policy, _) \<Rightarrow> Inr policy
      | None \<Rightarrow> Inl (TimerErr ErrReferenceUpdatePolicy))"

record DatasetVersions =
  ds_TzdbVersion :: string
  ds_CalendarVersion :: string

definition DatasetVersions_Validate :: "DatasetVersions \<Rightarrow> verr option" where
  "DatasetVersions_Validate d =
     first_err (reject (ds_TzdbVersion d = []) (TimerErr ErrDatasetVersionRequired))
       (reject (ds_CalendarVersion d = []) (TimerErr ErrDatasetVersionRequired))"

definition DatasetVersions_String :: "DatasetVersions \<Rightarrow> string" where
  "DatasetVersions_String d = ''tzdb='' @ ds_TzdbVersion d @ '',calendar='' @ ds_CalendarVersion d"

record TimerReference =
  tr_Zone :: ZoneRef
  tr_Calendar :: CalendarRef
  tr_Policy :: ReferenceUpdatePolicy

definition TimerReference_Validate :: "tzdb \<Rightarrow> TimerReference \<Rightarrow> verr option" where
  "TimerReference_Validate tz r =
     first_err (ZoneRef_Validate tz (tr_Zone r))
      (first_err (CalendarRef_Validate (tr_Calendar r))
       (first_err (reject (tr_Policy r = ReferenceUpdateUnspecified) (TimerErr ErrReferenceUpdatePolicyRequired))
         (reject (\<not> ReferenceUpdatePolicy_Valid (tr_Policy r)) (TimerErr ErrReferenceUpdatePolicy))))"

definition HistoricalDataset :: "TimerReference \<Rightarrow> DatasetVersions" where
  "HistoricalDataset r =
     \<lparr>ds_TzdbVersion = z_TzdbVersion (tr_Zone r), ds_CalendarVersion = c_Version (tr_Calendar r)\<rparr>"

definition TimerReference_String :: "tzdb \<Rightarrow> TimerReference \<Rightarrow> string" where
  "TimerReference_String tz r =
     (if TimerReference_Validate tz r \<noteq> None then []
      else ZoneRef_String (tr_Zone r) @ ''|'' @ CalendarRef_String (tr_Calendar r) @ ''|''
           @ ReferenceUpdatePolicy_String (tr_Policy r))"

definition TimerReference_Canonical :: "tzdb \<Rightarrow> TimerReference \<Rightarrow> bytes" where
  "TimerReference_Canonical tz r =
     (if TimerReference_Validate tz r \<noteq> None then []
      else appendLengthPrefixed (appendLengthPrefixed (appendLengthPrefixed (appendLengthPrefixed [CHR 0x0A]
             (z_ID (tr_Zone r))) (z_TzdbVersion (tr_Zone r))) (c_Ref (tr_Calendar r))) (c_Version (tr_Calendar r))
           @ [char_of (ReferenceUpdatePolicy_byte (tr_Policy r))])"

type_synonym TimerResolver = "DatasetVersions \<Rightarrow> string + Instant"

record TimerReplayEvidence =
  ev_Zone :: ZoneRef
  ev_Calendar :: CalendarRef
  ev_Policy :: ReferenceUpdatePolicy
  ev_HistoricalDataset :: DatasetVersions
  ev_CurrentDataset :: DatasetVersions
  ev_Pinned :: Instant
  ev_Recomputed :: Instant
  ev_RecomputeError :: string
  ev_Effective :: Instant
  ev_DatasetChanged :: bool
  ev_WouldChange :: bool
  ev_ReviewRequired :: bool

definition appendOptionalInstant :: "bytes \<Rightarrow> Instant \<Rightarrow> bytes" where
  "appendOptionalInstant dst i =
     (let canon = Instant_Canonical i in dst @ be32 (int (length canon)) @ canon)"

definition boolByte :: "bool \<Rightarrow> char" where
  "boolByte b = (if b then CHR 0x01 else CHR 0x00)"

definition TimerReplayEvidence_Canonical :: "TimerReplayEvidence \<Rightarrow> bytes" where
  "TimerReplayEvidence_Canonical e =
     (let o1 = foldl appendLengthPrefixed [CHR 0x0B]
            [z_ID (ev_Zone e), z_TzdbVersion (ev_Zone e), c_Ref (ev_Calendar e), c_Version (ev_Calendar e)];
          o2 = o1 @ [char_of (ReferenceUpdatePolicy_byte (ev_Policy e))];
          o3 = foldl appendLengthPrefixed o2
            [ds_TzdbVersion (ev_HistoricalDataset e), ds_CalendarVersion (ev_HistoricalDataset e),
             ds_TzdbVersion (ev_CurrentDataset e), ds_CalendarVersion (ev_CurrentDataset e)];
          o4 = foldl appendOptionalInstant o3 [ev_Pinned e, ev_Recomputed e, ev_Effective e];
          o5 = appendLengthPrefixed o4 (ev_RecomputeError e)
      in o5 @ [boolByte (ev_DatasetChanged e), boolByte (ev_WouldChange e), boolByte (ev_ReviewRequired e)])"

record TimerReplayOutcome =
  out_Policy :: ReferenceUpdatePolicy
  out_Effective :: Instant
  out_DatasetChanged :: bool
  out_WouldChange :: bool
  out_ReviewRequired :: bool
  out_Evidence :: TimerReplayEvidence

definition replay_policy ::
  "TimerReference \<Rightarrow> Instant \<Rightarrow> DatasetVersions \<Rightarrow> TimerResolver \<Rightarrow> TimerReplayEvidence
   \<Rightarrow> (TimerReplayEvidence \<times> Instant) res" where
  "replay_policy ref pinned current resolve evidence =
     (if tr_Policy ref = ReferenceUpdatePin then
        (case resolve (HistoricalDataset ref) of
           Inl e \<Rightarrow> Inl (TimerErr (ErrResolver e))
         | Inr historicalDue \<Rightarrow>
             guard_res (Instant_Validate historicalDue)
              (case resolve current of
                 Inl e \<Rightarrow> Inr (evidence\<lparr>ev_RecomputeError := e\<rparr>, historicalDue)
               | Inr recomputed \<Rightarrow>
                   Inr (evidence\<lparr>ev_Recomputed := recomputed,
                                 ev_WouldChange := Instant_Compare recomputed pinned \<noteq> 0\<rparr>, historicalDue)))
      else if tr_Policy ref = ReferenceUpdateRecalculate then
        (case resolve current of
           Inl e \<Rightarrow> Inl (TimerErr (ErrResolver e))
         | Inr recomputed \<Rightarrow>
             guard_res (Instant_Validate recomputed)
              (Inr (evidence\<lparr>ev_Recomputed := recomputed,
                             ev_WouldChange := Instant_Compare recomputed pinned \<noteq> 0\<rparr>, recomputed)))
      else
        (case resolve current of
           Inl e \<Rightarrow> Inr (evidence\<lparr>ev_RecomputeError := e, ev_ReviewRequired := True\<rparr>, pinned)
         | Inr recomputed \<Rightarrow>
             let changed = Instant_Compare recomputed pinned \<noteq> 0 in
             Inr (evidence\<lparr>ev_Recomputed := recomputed, ev_WouldChange := changed,
                           ev_ReviewRequired := changed\<rparr>, pinned)))"

definition ReplayTimer ::
  "tzdb \<Rightarrow> TimerReference \<Rightarrow> Instant \<Rightarrow> DatasetVersions \<Rightarrow> TimerResolver option \<Rightarrow> TimerReplayOutcome res" where
  "ReplayTimer tz ref pinned current resolve =
     guard_res (TimerReference_Validate tz ref) (guard_res (Instant_Validate pinned)
      (guard_res (DatasetVersions_Validate current)
       (case resolve of
          None \<Rightarrow> Inl (TimerErr ErrResolverRequired)
        | Some f \<Rightarrow>
            let historical = HistoricalDataset ref in
            guard_res (DatasetVersions_Validate historical)
             (let evidence = \<lparr>ev_Zone = tr_Zone ref, ev_Calendar = tr_Calendar ref, ev_Policy = tr_Policy ref,
                     ev_HistoricalDataset = historical, ev_CurrentDataset = current, ev_Pinned = pinned,
                     ev_Recomputed = zero_Instant, ev_RecomputeError = [], ev_Effective = zero_Instant,
                     ev_DatasetChanged = (historical \<noteq> current), ev_WouldChange = False,
                     ev_ReviewRequired = False\<rparr>
              in bind_res (replay_policy ref pinned current f evidence) (\<lambda>(evidence, effective).
                let ev = evidence\<lparr>ev_Effective := effective\<rparr> in
                Inr \<lparr>out_Policy = tr_Policy ref, out_Effective = effective,
                     out_DatasetChanged = ev_DatasetChanged ev, out_WouldChange = ev_WouldChange ev,
                     out_ReviewRequired = ev_ReviewRequired ev, out_Evidence = ev\<rparr>)))))"

subsection \<open>Properties\<close>

lemma Instant_Compare_0:
  "Instant_Validate i = None \<Longrightarrow> Instant_Validate j = None \<Longrightarrow> Instant_Compare i j = 0 \<longleftrightarrow> i = j"
  by (cases i; cases j) (auto simp: Instant_Compare_def Instant_Validate_def)

lemma ReplayTimer_Inr:
  assumes "ReplayTimer tz ref pinned current (Some f) = Inr out"
  shows "TimerReference_Validate tz ref = None" "Instant_Validate pinned = None"
    "\<exists>ev. replay_policy ref pinned current f
        \<lparr>ev_Zone = tr_Zone ref, ev_Calendar = tr_Calendar ref, ev_Policy = tr_Policy ref,
         ev_HistoricalDataset = HistoricalDataset ref, ev_CurrentDataset = current, ev_Pinned = pinned,
         ev_Recomputed = zero_Instant, ev_RecomputeError = [], ev_Effective = zero_Instant,
         ev_DatasetChanged = (HistoricalDataset ref \<noteq> current), ev_WouldChange = False,
         ev_ReviewRequired = False\<rparr> = Inr (ev, out_Effective out)
      \<and> out = \<lparr>out_Policy = tr_Policy ref, out_Effective = out_Effective out,
          out_DatasetChanged = ev_DatasetChanged ev, out_WouldChange = ev_WouldChange ev,
          out_ReviewRequired = ev_ReviewRequired ev, out_Evidence = ev\<lparr>ev_Effective := out_Effective out\<rparr>\<rparr>"
  using assms by (auto simp: ReplayTimer_def Let_def)

text \<open>
  C40: A replay moves a deadline only as its policy allows. Under REVIEW_REQUIRED the deadline
  stands, and review is flagged exactly when the current dataset fails or answers differently;
  under RECALCULATE the answer of the current dataset applies; under PIN the answer of the
  historical dataset applies, whatever the current one says. When the historical dataset still
  yields the recorded deadline, a deadline that moved comes from RECALCULATE and is reported as
  a change.
\<close>
theorem replay_moves_only_by_policy:
  assumes r: "ReplayTimer tz ref pinned current (Some f) = Inr out"
  shows "(tr_Policy ref = ReferenceUpdateReviewRequired \<longrightarrow>
      out_Effective out = pinned
      \<and> (out_ReviewRequired out \<longleftrightarrow>
          (case f current of Inl _ \<Rightarrow> True | Inr i \<Rightarrow> Instant_Compare i pinned \<noteq> 0)))
    \<and> (tr_Policy ref = ReferenceUpdateRecalculate \<longrightarrow>
      f current = Inr (out_Effective out) \<and> Instant_Validate (out_Effective out) = None
      \<and> (out_WouldChange out \<longleftrightarrow> out_Effective out \<noteq> pinned) \<and> \<not> out_ReviewRequired out)
    \<and> (tr_Policy ref = ReferenceUpdatePin \<longrightarrow>
      f (HistoricalDataset ref) = Inr (out_Effective out) \<and> Instant_Validate (out_Effective out) = None
      \<and> \<not> out_ReviewRequired out)
    \<and> tr_Policy ref \<in> {ReferenceUpdatePin, ReferenceUpdateRecalculate, ReferenceUpdateReviewRequired}
    \<and> (f (HistoricalDataset ref) = Inr pinned \<and> out_Effective out \<noteq> pinned \<longrightarrow>
      tr_Policy ref = ReferenceUpdateRecalculate \<and> out_WouldChange out)"
proof -
  note i = ReplayTimer_Inr [OF r]
  have p: "tr_Policy ref \<in> {ReferenceUpdatePin, ReferenceUpdateRecalculate, ReferenceUpdateReviewRequired}"
    using i(1) by (auto simp: TimerReference_Validate_def ReferenceUpdatePolicy_Valid_def referenceUpdateWire_def
        split: if_splits)
  have rev: "tr_Policy ref = ReferenceUpdateReviewRequired \<Longrightarrow>
      out_Effective out = pinned
      \<and> (out_ReviewRequired out \<longleftrightarrow>
          (case f current of Inl _ \<Rightarrow> True | Inr i \<Rightarrow> Instant_Compare i pinned \<noteq> 0))"
    using i(3) by (cases out) (auto simp: replay_policy_def Let_def split: sum.splits)
  have rc: "tr_Policy ref = ReferenceUpdateRecalculate \<Longrightarrow>
      f current = Inr (out_Effective out) \<and> Instant_Validate (out_Effective out) = None
      \<and> (out_WouldChange out \<longleftrightarrow> out_Effective out \<noteq> pinned) \<and> \<not> out_ReviewRequired out"
    using i(2,3) by (cases out) (auto simp: replay_policy_def Instant_Compare_0 split: sum.splits)
  have pin: "tr_Policy ref = ReferenceUpdatePin \<Longrightarrow>
      f (HistoricalDataset ref) = Inr (out_Effective out) \<and> Instant_Validate (out_Effective out) = None
      \<and> \<not> out_ReviewRequired out"
    using i(3) by (cases out) (auto simp: replay_policy_def split: sum.splits)
  have "f (HistoricalDataset ref) = Inr pinned \<Longrightarrow> out_Effective out \<noteq> pinned \<Longrightarrow>
      tr_Policy ref = ReferenceUpdateRecalculate \<and> out_WouldChange out"
    using p rev rc pin by auto
  then show ?thesis using p rev rc pin by blast
qed

abbreviation "la_ref p \<equiv> \<lparr>tr_Zone = spring_ref, tr_Calendar = us_cal, tr_Policy = p\<rparr>"
abbreviation "new_data \<equiv> \<lparr>ds_TzdbVersion = ''2025a'', ds_CalendarVersion = ''2''\<rparr>"

definition moving_resolver :: TimerResolver where
  "moving_resolver d = (if ds_TzdbVersion d = ''2025a'' then Inr (NewInstant 7) else Inr (NewInstant 5))"

theorem replay_moves_only_by_policy_witness:
  "\<exists>out. ReplayTimer spring_zone (la_ref ReferenceUpdateReviewRequired) (NewInstant 5) new_data (Some moving_resolver) = Inr out
     \<and> out_Effective out = NewInstant 5 \<and> out_ReviewRequired out"
proof -
  let ?r = "ReplayTimer spring_zone (la_ref ReferenceUpdateReviewRequired) (NewInstant 5) new_data (Some moving_resolver)"
  have "err_of ?r = None" by code_simp
  then obtain out where out: "?r = Inr out" by (auto simp: err_of_None_iff)
  have "Instant_Compare (NewInstant 7) (NewInstant 5) \<noteq> 0" by code_simp
  then show ?thesis
    using out replay_moves_only_by_policy [OF out] by (simp add: moving_resolver_def)
qed

text \<open>
  The outcome is evidenced: the evidence of a replay names the zone, calendar, policy and
  both datasets it used, the recorded and the effective deadline, and repeats the three flags
  of the outcome; DatasetChanged tells whether the two datasets differ.
\<close>
theorem replay_evidence_complete:
  assumes "ReplayTimer tz ref pinned current (Some f) = Inr out"
  shows "ev_Zone (out_Evidence out) = tr_Zone ref \<and> ev_Calendar (out_Evidence out) = tr_Calendar ref
    \<and> ev_Policy (out_Evidence out) = tr_Policy ref \<and> out_Policy out = tr_Policy ref
    \<and> ev_HistoricalDataset (out_Evidence out) = HistoricalDataset ref
    \<and> ev_CurrentDataset (out_Evidence out) = current \<and> ev_Pinned (out_Evidence out) = pinned
    \<and> ev_Effective (out_Evidence out) = out_Effective out
    \<and> ev_DatasetChanged (out_Evidence out) = out_DatasetChanged out
    \<and> ev_WouldChange (out_Evidence out) = out_WouldChange out
    \<and> ev_ReviewRequired (out_Evidence out) = out_ReviewRequired out
    \<and> (out_DatasetChanged out \<longleftrightarrow> HistoricalDataset ref \<noteq> current)
    \<and> (case f current of
         Inl e \<Rightarrow> ev_RecomputeError (out_Evidence out) = e \<and> ev_Recomputed (out_Evidence out) = zero_Instant
       | Inr i \<Rightarrow> ev_RecomputeError (out_Evidence out) = [] \<and> ev_Recomputed (out_Evidence out) = i)"
  using ReplayTimer_Inr(3) [OF assms]
  by (cases out) (auto simp: replay_policy_def Let_def split: sum.splits if_splits)

theorem replay_evidence_complete_witness:
  "\<exists>out. ReplayTimer spring_zone (la_ref ReferenceUpdatePin) (NewInstant 5) new_data (Some moving_resolver) = Inr out
     \<and> ev_Recomputed (out_Evidence out) = NewInstant 7 \<and> out_DatasetChanged out"
proof -
  let ?r = "ReplayTimer spring_zone (la_ref ReferenceUpdatePin) (NewInstant 5) new_data (Some moving_resolver)"
  have "err_of ?r = None" by code_simp
  then obtain out where out: "?r = Inr out" by (auto simp: err_of_None_iff)
  show ?thesis using out replay_evidence_complete [OF out] by (simp add: moving_resolver_def HistoricalDataset_def)
qed

text \<open>
  Under PIN a historical dataset that no longer yields the recorded deadline moves it: the
  effective deadline is the new historical answer while neither WouldChange nor ReviewRequired
  is set, against the promise that a moved deadline only comes from RECALCULATE.
\<close>
theorem pin_replay_can_move_deadline:
  "\<exists>out. ReplayTimer spring_zone (la_ref ReferenceUpdatePin) (NewInstant 5) new_data
       (Some (\<lambda>d. if d = new_data then Inr (NewInstant 5) else Inr (NewInstant 9))) = Inr out
     \<and> out_Effective out = NewInstant 9 \<and> out_Effective out \<noteq> NewInstant 5
     \<and> \<not> out_WouldChange out \<and> \<not> out_ReviewRequired out"
proof -
  let ?f = "\<lambda>d :: DatasetVersions. if d = new_data then Inr (NewInstant 5) else Inr (NewInstant 9) :: string + Instant"
  let ?r = "ReplayTimer spring_zone (la_ref ReferenceUpdatePin) (NewInstant 5) new_data (Some ?f)"
  have v: "TimerReference_Validate spring_zone (la_ref ReferenceUpdatePin) = None"
    "Instant_Validate (NewInstant 5) = None" "Instant_Validate (NewInstant 9) = None"
    "DatasetVersions_Validate new_data = None"
    "DatasetVersions_Validate (HistoricalDataset (la_ref ReferenceUpdatePin)) = None"
    "HistoricalDataset (la_ref ReferenceUpdatePin) \<noteq> new_data"
    "Instant_Compare (NewInstant 5) (NewInstant 5) = 0" by code_simp+
  have "NewInstant 9 \<noteq> NewInstant 5" by (simp add: NewInstant_def nanos_def)
  then show ?thesis using v by (simp add: ReplayTimer_def replay_policy_def Let_def)
qed

end
