(* ===== verification/Lifecycle_Rules.thy ===== *)
theory Lifecycle_Rules
  imports Values_Civil
begin

text \<open>
  Package \<open>internal/intent/lifecycle\<close>, files \<open>dimensions.go\<close> and \<open>rules.go\<close>: the five
  lifecycle dimensions of an intent and the six fixed legality rules.

  A state type is a datatype whose last constructor holds the undeclared numbers of its
  \<open>uint8\<close>; a map from states to names is an association list; the detail text of a violation
  is dropped. What is proved: \<open>Check\<close> reports exactly the rules that a tuple breaks, each stated
  on its own, and accepts exactly the tuples that break none.
\<close>

subsection \<open>Errors\<close>

datatype Dimension =
    DimensionRequest | DimensionExecution | DimensionBusiness | DimensionConsistency
  | DimensionObligation | DimensionOther string

datatype Rule =
    RuleTerminalCannotExecute | RuleApprovedRequiresBinding
  | RuleMaterialRevisionInvalidatesApproval | RuleCommittedRequiresReceipt
  | RuleClosureRequiresObligations | RuleUnspecifiedInvalid

record Violation =
  vl_Rule :: Rule
  vl_Dimension :: Dimension

datatype lifecycle_error =
    ErrUnknownState | ErrDimensionLoss | ErrUndeclaredTransition
  | ErrIllegalTuple (Violations: "Violation list")
  | ErrInvalidProfile | ErrProfileWiden | ErrHistoryImmutable | ErrGovernanceBypassed

type_synonym StateID = string

definition AllDimensions :: "Dimension list" where
  "AllDimensions =
     [DimensionRequest, DimensionExecution, DimensionBusiness, DimensionConsistency, DimensionObligation]"

definition Rules :: "Rule list" where
  "Rules =
     [RuleTerminalCannotExecute, RuleApprovedRequiresBinding, RuleMaterialRevisionInvalidatesApproval,
      RuleCommittedRequiresReceipt, RuleClosureRequiresObligations, RuleUnspecifiedInvalid]"

subsection \<open>States\<close>

datatype RequestState =
    RequestUnspecified | RequestDraft | RequestPreflighted | RequestSimulated | RequestSubmitted
  | RequestApproved | RequestRejected | RequestWithdrawn | RequestCancelled | RequestSuperseded
  | RequestClosed | RequestReopened | RequestOther nat

definition requestNames :: "(RequestState \<times> StateID) list" where
  "requestNames =
     [(RequestUnspecified, ''UNSPECIFIED''), (RequestDraft, ''DRAFT''),
      (RequestPreflighted, ''PREFLIGHTED''), (RequestSimulated, ''SIMULATED''),
      (RequestSubmitted, ''SUBMITTED''), (RequestApproved, ''APPROVED''),
      (RequestRejected, ''REJECTED''), (RequestWithdrawn, ''WITHDRAWN''),
      (RequestCancelled, ''CANCELLED''), (RequestSuperseded, ''SUPERSEDED''),
      (RequestClosed, ''CLOSED''), (RequestReopened, ''REOPENED'')]"

datatype ExecutionState =
    ExecutionUnspecified | ExecutionNotPlanned | ExecutionScheduled | ExecutionRevalidating
  | ExecutionExecuting | ExecutionCommitted | ExecutionBlocked | ExecutionRepairRequired
  | ExecutionOther nat

definition executionNames :: "(ExecutionState \<times> StateID) list" where
  "executionNames =
     [(ExecutionUnspecified, ''UNSPECIFIED''), (ExecutionNotPlanned, ''NOT_PLANNED''),
      (ExecutionScheduled, ''SCHEDULED''), (ExecutionRevalidating, ''REVALIDATING''),
      (ExecutionExecuting, ''EXECUTING''), (ExecutionCommitted, ''COMMITTED''),
      (ExecutionBlocked, ''BLOCKED''), (ExecutionRepairRequired, ''REPAIR_REQUIRED'')]"

datatype BusinessState =
    BusinessUnspecified | BusinessNotStarted | BusinessInProgress | BusinessCompleted
  | BusinessNotAchieved | BusinessCorrected | BusinessUnknown | BusinessOther nat

definition businessNames :: "(BusinessState \<times> StateID) list" where
  "businessNames =
     [(BusinessUnspecified, ''UNSPECIFIED''), (BusinessNotStarted, ''NOT_STARTED''),
      (BusinessInProgress, ''IN_PROGRESS''), (BusinessCompleted, ''COMPLETED''),
      (BusinessNotAchieved, ''NOT_ACHIEVED''), (BusinessCorrected, ''CORRECTED''),
      (BusinessUnknown, ''UNKNOWN'')]"

datatype ConsistencyState =
    ConsistencyUnspecified | ConsistencyNotApplicable | ConsistencyPendingObservation
  | ConsistencyConsistent | ConsistencyDegraded | ConsistencyRepairing | ConsistencyUnknown
  | ConsistencyOther nat

definition consistencyNames :: "(ConsistencyState \<times> StateID) list" where
  "consistencyNames =
     [(ConsistencyUnspecified, ''UNSPECIFIED''), (ConsistencyNotApplicable, ''NOT_APPLICABLE''),
      (ConsistencyPendingObservation, ''PENDING_OBSERVATION''), (ConsistencyConsistent, ''CONSISTENT''),
      (ConsistencyDegraded, ''DEGRADED''), (ConsistencyRepairing, ''REPAIRING''),
      (ConsistencyUnknown, ''UNKNOWN'')]"

datatype ObligationState =
    ObligationUnspecified | ObligationNotApplicable | ObligationPending | ObligationSatisfied
  | ObligationOverdue | ObligationWaived | ObligationUnknown | ObligationOther nat

definition obligationNames :: "(ObligationState \<times> StateID) list" where
  "obligationNames =
     [(ObligationUnspecified, ''UNSPECIFIED''), (ObligationNotApplicable, ''NOT_APPLICABLE''),
      (ObligationPending, ''PENDING''), (ObligationSatisfied, ''SATISFIED''),
      (ObligationOverdue, ''OVERDUE''), (ObligationWaived, ''WAIVED''), (ObligationUnknown, ''UNKNOWN'')]"

text \<open>Validity and the name of a state are lookups; a missing key reads as the empty name.\<close>

definition state_valid :: "('s \<times> StateID) list \<Rightarrow> 's \<Rightarrow> bool" where
  "state_valid table s \<longleftrightarrow> map_of table s \<noteq> None"

definition state_id :: "('s \<times> StateID) list \<Rightarrow> 's \<Rightarrow> StateID" where
  "state_id table s = (case map_of table s of Some i \<Rightarrow> i | None \<Rightarrow> [])"

definition parseState :: "('s \<times> StateID) list \<Rightarrow> StateID \<Rightarrow> lifecycle_error + 's" where
  "parseState table i =
     (case find (\<lambda>(v, name). name = i) table of
        Some (v, _) \<Rightarrow> Inr v
      | None \<Rightarrow> Inl ErrUnknownState)"

definition statesOf :: "('s \<times> StateID) list \<Rightarrow> StateID list" where
  "statesOf table = sort (map snd table)"

fun StatesOf :: "Dimension \<Rightarrow> StateID list" where
  "StatesOf DimensionRequest = statesOf requestNames"
| "StatesOf DimensionExecution = statesOf executionNames"
| "StatesOf DimensionBusiness = statesOf businessNames"
| "StatesOf DimensionConsistency = statesOf consistencyNames"
| "StatesOf DimensionObligation = statesOf obligationNames"
| "StatesOf (DimensionOther _) = []"

record Dimensions =
  dm_Request :: RequestState
  dm_Execution :: ExecutionState
  dm_Business :: BusinessState
  dm_Consistency :: ConsistencyState
  dm_Obligation :: ObligationState

fun Dimensions_State :: "Dimensions \<Rightarrow> Dimension \<Rightarrow> StateID" where
  "Dimensions_State d DimensionRequest = state_id requestNames (dm_Request d)"
| "Dimensions_State d DimensionExecution = state_id executionNames (dm_Execution d)"
| "Dimensions_State d DimensionBusiness = state_id businessNames (dm_Business d)"
| "Dimensions_State d DimensionConsistency = state_id consistencyNames (dm_Consistency d)"
| "Dimensions_State d DimensionObligation = state_id obligationNames (dm_Obligation d)"
| "Dimensions_State d (DimensionOther _) = []"

definition Dimensions_Validate :: "Dimensions \<Rightarrow> lifecycle_error option" where
  "Dimensions_Validate d =
     first_err (reject (\<not> state_valid requestNames (dm_Request d)) ErrUnknownState)
      (first_err (reject (\<not> state_valid executionNames (dm_Execution d)) ErrUnknownState)
       (first_err (reject (\<not> state_valid businessNames (dm_Business d)) ErrUnknownState)
        (first_err (reject (\<not> state_valid consistencyNames (dm_Consistency d)) ErrUnknownState)
          (reject (\<not> state_valid obligationNames (dm_Obligation d)) ErrUnknownState))))"

subsection \<open>Legality rules\<close>

record ApprovalBindingState =
  ab_RequirementID :: string
  ab_RequirementLevel :: bool
  ab_ApprovedProposalDigest :: string
  ab_Approved :: bool
  ab_Invalidated :: bool

record Context =
  cx_ApprovalRequired :: bool
  cx_CurrentMaterialDigest :: string
  cx_Bindings :: "ApprovalBindingState list"
  cx_CommitReceiptRef :: string
  cx_RepairRef :: string
  cx_ClosurePolicyPermitsOpenRepair :: bool
  cx_Persisted :: bool

definition ViolationSet_Has :: "Violation list \<Rightarrow> Rule \<Rightarrow> bool" where
  "ViolationSet_Has vs r \<longleftrightarrow> list_ex (\<lambda>v. vl_Rule v = r) vs"

definition hasCurrentApproval :: "Context \<Rightarrow> bool" where
  "hasCurrentApproval c \<longleftrightarrow>
     cx_CurrentMaterialDigest c \<noteq> []
     \<and> list_ex (\<lambda>b. ab_RequirementLevel b \<and> ab_Approved b \<and> \<not> ab_Invalidated b
         \<and> ab_ApprovedProposalDigest b = cx_CurrentMaterialDigest c) (cx_Bindings c)"

abbreviation violation :: "Rule \<Rightarrow> Dimension \<Rightarrow> Violation" where
  "violation r d \<equiv> \<lparr>vl_Rule = r, vl_Dimension = d\<rparr>"

definition check_violations :: "Dimensions \<Rightarrow> Context \<Rightarrow> Violation list" where
  "check_violations d c =
     (if cx_Persisted c
      then map (violation RuleUnspecifiedInvalid)
             (filter (\<lambda>dim. Dimensions_State d dim = ''UNSPECIFIED'') AllDimensions)
      else [])
     @ (if dm_Execution d = ExecutionExecuting
           \<and> dm_Request d \<in> {RequestCancelled, RequestSuperseded, RequestRejected, RequestWithdrawn}
        then [violation RuleTerminalCannotExecute DimensionExecution] else [])
     @ (if dm_Request d = RequestApproved \<and> cx_ApprovalRequired c \<and> \<not> hasCurrentApproval c
        then [violation RuleApprovedRequiresBinding DimensionRequest] else [])
     @ (if cx_CurrentMaterialDigest c \<noteq> []
        then map (\<lambda>_. violation RuleMaterialRevisionInvalidatesApproval DimensionRequest)
               (filter (\<lambda>b. ab_ApprovedProposalDigest b \<noteq> cx_CurrentMaterialDigest c \<and> \<not> ab_Invalidated b)
                 (cx_Bindings c))
        else [])
     @ (if dm_Execution d = ExecutionCommitted \<and> cx_CommitReceiptRef c = []
        then [violation RuleCommittedRequiresReceipt DimensionExecution] else [])
     @ (if dm_Execution d = ExecutionRepairRequired \<and> cx_RepairRef c = []
        then [violation RuleCommittedRequiresReceipt DimensionExecution] else [])
     @ (if dm_Request d = RequestClosed
        then (if dm_Obligation d \<in> {ObligationSatisfied, ObligationWaived, ObligationNotApplicable} then []
              else [violation RuleClosureRequiresObligations DimensionObligation])
           @ (if dm_Consistency d \<in> {ConsistencyPendingObservation, ConsistencyRepairing}
                 \<and> \<not> cx_ClosurePolicyPermitsOpenRepair c
              then [violation RuleClosureRequiresObligations DimensionConsistency] else [])
        else [])"

definition Check :: "Dimensions \<Rightarrow> Context \<Rightarrow> lifecycle_error option" where
  "Check d c =
     (if Dimensions_Validate d \<noteq> None
      then Some (ErrIllegalTuple [violation RuleUnspecifiedInvalid DimensionRequest])
      else if check_violations d c = [] then None
      else Some (ErrIllegalTuple (check_violations d c)))"

definition Preserves :: "Dimensions \<Rightarrow> Dimensions \<Rightarrow> lifecycle_error option" where
  "Preserves from to =
     err_loop (\<lambda>dim. reject (Dimensions_State from dim \<noteq> ''UNSPECIFIED'' \<and> Dimensions_State to dim = ''UNSPECIFIED'')
       ErrDimensionLoss) AllDimensions"

subsection \<open>The rules, each on its own\<close>

text \<open>What the contract says of each rule, without reference to the order of evaluation.\<close>

definition declared_tuple :: "Dimensions \<Rightarrow> bool" where
  "declared_tuple d \<longleftrightarrow>
     (\<forall>n. dm_Request d \<noteq> RequestOther n) \<and> (\<forall>n. dm_Execution d \<noteq> ExecutionOther n)
     \<and> (\<forall>n. dm_Business d \<noteq> BusinessOther n) \<and> (\<forall>n. dm_Consistency d \<noteq> ConsistencyOther n)
     \<and> (\<forall>n. dm_Obligation d \<noteq> ObligationOther n)"

fun breaks :: "Dimensions \<Rightarrow> Context \<Rightarrow> Rule \<Rightarrow> bool" where
  "breaks d c RuleTerminalCannotExecute \<longleftrightarrow>
     dm_Execution d = ExecutionExecuting
     \<and> dm_Request d \<in> {RequestCancelled, RequestSuperseded, RequestRejected, RequestWithdrawn}"
| "breaks d c RuleApprovedRequiresBinding \<longleftrightarrow>
     dm_Request d = RequestApproved \<and> cx_ApprovalRequired c
     \<and> \<not> (\<exists>b\<in>set (cx_Bindings c). ab_RequirementLevel b \<and> ab_Approved b \<and> \<not> ab_Invalidated b
          \<and> ab_ApprovedProposalDigest b = cx_CurrentMaterialDigest c \<and> cx_CurrentMaterialDigest c \<noteq> [])"
| "breaks d c RuleMaterialRevisionInvalidatesApproval \<longleftrightarrow>
     cx_CurrentMaterialDigest c \<noteq> []
     \<and> (\<exists>b\<in>set (cx_Bindings c). ab_ApprovedProposalDigest b \<noteq> cx_CurrentMaterialDigest c \<and> \<not> ab_Invalidated b)"
| "breaks d c RuleCommittedRequiresReceipt \<longleftrightarrow>
     dm_Execution d = ExecutionCommitted \<and> cx_CommitReceiptRef c = []
     \<or> dm_Execution d = ExecutionRepairRequired \<and> cx_RepairRef c = []"
| "breaks d c RuleClosureRequiresObligations \<longleftrightarrow>
     dm_Request d = RequestClosed
     \<and> (dm_Obligation d \<notin> {ObligationSatisfied, ObligationWaived, ObligationNotApplicable}
        \<or> dm_Consistency d \<in> {ConsistencyPendingObservation, ConsistencyRepairing}
          \<and> \<not> cx_ClosurePolicyPermitsOpenRepair c)"
| "breaks d c RuleUnspecifiedInvalid \<longleftrightarrow>
     cx_Persisted c
     \<and> (dm_Request d = RequestUnspecified \<or> dm_Execution d = ExecutionUnspecified
        \<or> dm_Business d = BusinessUnspecified \<or> dm_Consistency d = ConsistencyUnspecified
        \<or> dm_Obligation d = ObligationUnspecified)"

lemma state_valid_request: "state_valid requestNames r \<longleftrightarrow> (\<forall>n. r \<noteq> RequestOther n)"
  by (cases r) (simp_all add: state_valid_def requestNames_def)

lemma state_valid_execution: "state_valid executionNames e \<longleftrightarrow> (\<forall>n. e \<noteq> ExecutionOther n)"
  by (cases e) (simp_all add: state_valid_def executionNames_def)

lemma state_valid_business: "state_valid businessNames b \<longleftrightarrow> (\<forall>n. b \<noteq> BusinessOther n)"
  by (cases b) (simp_all add: state_valid_def businessNames_def)

lemma state_valid_consistency: "state_valid consistencyNames c \<longleftrightarrow> (\<forall>n. c \<noteq> ConsistencyOther n)"
  by (cases c) (simp_all add: state_valid_def consistencyNames_def)

lemma state_valid_obligation: "state_valid obligationNames ob \<longleftrightarrow> (\<forall>n. ob \<noteq> ObligationOther n)"
  by (cases ob) (simp_all add: state_valid_def obligationNames_def)

lemmas state_valid_iff = state_valid_request state_valid_execution state_valid_business state_valid_consistency state_valid_obligation

lemma Dimensions_Validate_iff: "Dimensions_Validate d = None \<longleftrightarrow> declared_tuple d"
  by (simp add: Dimensions_Validate_def state_valid_iff declared_tuple_def)

lemma unspecified_request: "state_id requestNames r = ''UNSPECIFIED'' \<longleftrightarrow> r = RequestUnspecified"
  by (cases r) (simp_all add: state_id_def requestNames_def)

lemma unspecified_execution: "state_id executionNames e = ''UNSPECIFIED'' \<longleftrightarrow> e = ExecutionUnspecified"
  by (cases e) (simp_all add: state_id_def executionNames_def)

lemma unspecified_business: "state_id businessNames b = ''UNSPECIFIED'' \<longleftrightarrow> b = BusinessUnspecified"
  by (cases b) (simp_all add: state_id_def businessNames_def)

lemma unspecified_consistency: "state_id consistencyNames c = ''UNSPECIFIED'' \<longleftrightarrow> c = ConsistencyUnspecified"
  by (cases c) (simp_all add: state_id_def consistencyNames_def)

lemma unspecified_obligation: "state_id obligationNames ob = ''UNSPECIFIED'' \<longleftrightarrow> ob = ObligationUnspecified"
  by (cases ob) (simp_all add: state_id_def obligationNames_def)

lemmas unspecified_iff =
  unspecified_request unspecified_execution unspecified_business unspecified_consistency unspecified_obligation

lemma state_id_inj_request:
  "state_valid requestNames r \<Longrightarrow> state_id requestNames r = state_id requestNames r' \<Longrightarrow> r = r'"
  by (cases r; cases r'; simp add: state_valid_def state_id_def requestNames_def)

lemma state_id_inj_execution:
  "state_valid executionNames e \<Longrightarrow> state_id executionNames e = state_id executionNames e' \<Longrightarrow> e = e'"
  by (cases e; cases e'; simp add: state_valid_def state_id_def executionNames_def)

lemma state_id_inj_business:
  "state_valid businessNames b \<Longrightarrow> state_id businessNames b = state_id businessNames b' \<Longrightarrow> b = b'"
  by (cases b; cases b'; simp add: state_valid_def state_id_def businessNames_def)

lemma state_id_inj_consistency:
  "state_valid consistencyNames c \<Longrightarrow> state_id consistencyNames c = state_id consistencyNames c' \<Longrightarrow> c = c'"
  by (cases c; cases c'; simp add: state_valid_def state_id_def consistencyNames_def)

lemma state_id_inj_obligation:
  "state_valid obligationNames ob \<Longrightarrow> state_id obligationNames ob = state_id obligationNames ob' \<Longrightarrow> ob = ob'"
  by (cases ob; cases ob'; simp add: state_valid_def state_id_def obligationNames_def)

text \<open>A declared tuple is determined by the names of its five states.\<close>

lemma Dimensions_State_inj:
  assumes "declared_tuple d" and "\<And>dim. dim \<in> set AllDimensions \<Longrightarrow> Dimensions_State d dim = Dimensions_State d' dim"
  shows "d = d'"
proof -
  have "dm_Request d = dm_Request d'" "dm_Execution d = dm_Execution d'" "dm_Business d = dm_Business d'"
    "dm_Consistency d = dm_Consistency d'" "dm_Obligation d = dm_Obligation d'"
    using assms(1) assms(2) [of DimensionRequest] assms(2) [of DimensionExecution]
      assms(2) [of DimensionBusiness] assms(2) [of DimensionConsistency] assms(2) [of DimensionObligation]
      state_id_inj_request state_id_inj_execution state_id_inj_business state_id_inj_consistency
      state_id_inj_obligation
    by (simp_all add: AllDimensions_def declared_tuple_def state_valid_iff)
  then show ?thesis by simp
qed

lemma ViolationSet_Has_simps [simp]:
  "\<not> ViolationSet_Has [] r"
  "ViolationSet_Has (xs @ ys) r \<longleftrightarrow> ViolationSet_Has xs r \<or> ViolationSet_Has ys r"
  "ViolationSet_Has (v # xs) r \<longleftrightarrow> vl_Rule v = r \<or> ViolationSet_Has xs r"
  by (simp_all add: ViolationSet_Has_def)

lemma ViolationSet_Has_map [simp]:
  "ViolationSet_Has (map (\<lambda>x. violation r' (g x)) xs) r \<longleftrightarrow> r = r' \<and> xs \<noteq> []"
  by (induction xs) (auto simp: ViolationSet_Has_def)

lemma some_unspecified_iff:
  "filter (\<lambda>dim. Dimensions_State d dim = ''UNSPECIFIED'') AllDimensions \<noteq> []
   \<longleftrightarrow> dm_Request d = RequestUnspecified \<or> dm_Execution d = ExecutionUnspecified
       \<or> dm_Business d = BusinessUnspecified \<or> dm_Consistency d = ConsistencyUnspecified
       \<or> dm_Obligation d = ObligationUnspecified"
  by (simp add: AllDimensions_def unspecified_iff)

lemma hasCurrentApproval_iff:
  "hasCurrentApproval c \<longleftrightarrow>
     (\<exists>b\<in>set (cx_Bindings c). ab_RequirementLevel b \<and> ab_Approved b \<and> \<not> ab_Invalidated b
        \<and> ab_ApprovedProposalDigest b = cx_CurrentMaterialDigest c \<and> cx_CurrentMaterialDigest c \<noteq> [])"
  by (auto simp: hasCurrentApproval_def list_ex_iff)

lemma ViolationSet_Has_if:
  "ViolationSet_Has (if p then xs else ys) r \<longleftrightarrow> p \<and> ViolationSet_Has xs r \<or> \<not> p \<and> ViolationSet_Has ys r"
  by simp

lemma check_violations_Has: "ViolationSet_Has (check_violations d c) r \<longleftrightarrow> breaks d c r"
proof -
  have stale: "filter P xs \<noteq> [] \<longleftrightarrow> (\<exists>x\<in>set xs. P x)" for P :: "ApprovalBindingState \<Rightarrow> bool" and xs
    by (simp add: filter_empty_conv)
  show ?thesis
    unfolding check_violations_def ViolationSet_Has_simps ViolationSet_Has_if ViolationSet_Has_map
      some_unspecified_iff hasCurrentApproval_iff stale
    by (cases r) simp_all
qed

lemma no_violation_iff: "check_violations d c = [] \<longleftrightarrow> (\<forall>r. \<not> breaks d c r)"
proof -
  have "vs = [] \<longleftrightarrow> (\<forall>r. \<not> ViolationSet_Has vs r)" for vs
    by (cases vs) auto
  then show ?thesis
    by (simp add: check_violations_Has)
qed

text \<open>
  C14: the legality check of a tuple of lifecycle states. It accepts exactly the tuples whose
  five states are declared and which break none of the six rules, and when it refuses a declared
  tuple the violations it reports name exactly the broken rules: no rule hides another.
\<close>

theorem check_reports_exactly_broken_rules:
  "(Check d c = None \<longleftrightarrow> declared_tuple d \<and> (\<forall>r. \<not> breaks d c r))
   \<and> (declared_tuple d \<and> (\<exists>r. breaks d c r) \<longrightarrow>
        (\<exists>vs. Check d c = Some (ErrIllegalTuple vs) \<and> (\<forall>r. ViolationSet_Has vs r \<longleftrightarrow> breaks d c r)))"
  by (auto simp: Check_def Dimensions_Validate_iff no_violation_iff check_violations_Has)

text \<open>A closed request with an overdue obligation and a commit without receipt breaks two rules.\<close>

theorem check_reports_exactly_broken_rules_witness:
  "let d = \<lparr>dm_Request = RequestClosed, dm_Execution = ExecutionCommitted,
            dm_Business = BusinessCompleted, dm_Consistency = ConsistencyConsistent,
            dm_Obligation = ObligationOverdue\<rparr>;
       c = \<lparr>cx_ApprovalRequired = False, cx_CurrentMaterialDigest = [], cx_Bindings = [],
            cx_CommitReceiptRef = [], cx_RepairRef = [],
            cx_ClosurePolicyPermitsOpenRepair = False, cx_Persisted = True\<rparr>
   in \<exists>vs. Check d c = Some (ErrIllegalTuple vs)
        \<and> ViolationSet_Has vs RuleCommittedRequiresReceipt
        \<and> ViolationSet_Has vs RuleClosureRequiresObligations
        \<and> \<not> ViolationSet_Has vs RuleUnspecifiedInvalid"
proof -
  define d where "d = \<lparr>dm_Request = RequestClosed, dm_Execution = ExecutionCommitted,
      dm_Business = BusinessCompleted, dm_Consistency = ConsistencyConsistent,
      dm_Obligation = ObligationOverdue\<rparr>"
  define c where "c = \<lparr>cx_ApprovalRequired = False, cx_CurrentMaterialDigest = [], cx_Bindings = [],
      cx_CommitReceiptRef = [], cx_RepairRef = [],
      cx_ClosurePolicyPermitsOpenRepair = False, cx_Persisted = True\<rparr>"
  have broken: "breaks d c RuleCommittedRequiresReceipt" "breaks d c RuleClosureRequiresObligations"
    "\<not> breaks d c RuleUnspecifiedInvalid" and "declared_tuple d"
    by (simp_all add: d_def c_def declared_tuple_def)
  then obtain vs where "Check d c = Some (ErrIllegalTuple vs)"
    "\<forall>r. ViolationSet_Has vs r \<longleftrightarrow> breaks d c r"
    using check_reports_exactly_broken_rules [of d c] by blast
  then show ?thesis
    using broken by (auto simp: Let_def simp flip: d_def c_def)
qed

end
