(* ===== verification/Worklist.thy ===== *)
theory Worklist
  imports Main
begin

text \<open>
  The contract of a work-list search, whatever the order of its work list: taking a node adds its successors to the
  seen nodes and the new ones among them to the work, and a weight goes down. Such a search returns exactly the nodes
  that are reachable from the ones it starts with. It is interpreted on the breadth-first search of lifecycle
  profiles and on the depth-first search of workflow plans.
\<close>

lemma fresh_targets_weight:
  assumes "finite A" "set new \<subseteq> A - set seen" "distinct new"
  shows "card (A - set (new @ seen)) + length new = card (A - set seen)"
proof -
  have "A - set (new @ seen) = (A - set seen) - set new" by auto
  moreover have "card (set new) = length new"
    using assms(3) by (rule distinct_card)
  moreover have "card (set new) \<le> card (A - set seen)"
    using assms(1,2) by (intro card_mono) auto
  ultimately show ?thesis
    using assms(2) by (simp add: card_Diff_subset)
qed

locale worklist =
  fixes R :: "('n \<times> 'n) set" and search :: "'n list \<Rightarrow> 'n list \<Rightarrow> 'n list" and weight :: "'n list \<Rightarrow> 'n list \<Rightarrow> nat"
  assumes search_Nil: "search seen [] = seen"
    and search_Cons: "\<exists>seen' work'. search seen (i # work) = search seen' work' \<and> set seen' = set seen \<union> R `` {i}
      \<and> set work' = set work \<union> (R `` {i} - set seen) \<and> weight seen' work' < weight seen (i # work)"
begin

lemma search_sound: "set work \<subseteq> set seen \<Longrightarrow> set (search seen work) \<subseteq> R\<^sup>* `` set seen"
proof (induction "weight seen work" arbitrary: seen work rule: less_induct)
  case less
  show ?case
  proof (cases work)
    case (Cons i rest)
    obtain seen' work' where w: "search seen (i # rest) = search seen' work'" "set seen' = set seen \<union> R `` {i}"
      "set work' = set rest \<union> (R `` {i} - set seen)" "weight seen' work' < weight seen (i # rest)"
      using search_Cons by blast
    have "set (search seen' work') \<subseteq> R\<^sup>* `` set seen'"
      using less.hyps [of seen' work'] less.prems w Cons by auto
    also have "\<dots> \<subseteq> R\<^sup>* `` set seen"
      using less.prems w(2) Cons by (auto intro: converse_rtrancl_into_rtrancl)
    finally show ?thesis
      by (simp add: Cons w(1))
  qed (auto simp: search_Nil)
qed

lemma search_closed:
  "R `` (set seen - set work) \<subseteq> set seen
   \<Longrightarrow> set seen \<subseteq> set (search seen work) \<and> R `` set (search seen work) \<subseteq> set (search seen work)"
proof (induction "weight seen work" arbitrary: seen work rule: less_induct)
  case less
  show ?case
  proof (cases work)
    case Nil
    then show ?thesis
      using less.prems by (simp add: search_Nil)
  next
    case (Cons i rest)
    obtain seen' work' where w: "search seen (i # rest) = search seen' work'" "set seen' = set seen \<union> R `` {i}"
      "set work' = set rest \<union> (R `` {i} - set seen)" "weight seen' work' < weight seen (i # rest)"
      using search_Cons by blast
    have "R `` (set seen' - set work') \<subseteq> set seen'"
      using less.prems w(2,3) Cons by auto
    then show ?thesis
      using less.hyps [of seen' work'] w Cons by auto
  qed
qed

lemma search_reaches:
  assumes "set work = set seen"
  shows "set (search seen work) = R\<^sup>* `` set seen"
proof (rule equalityI)
  show "set (search seen work) \<subseteq> R\<^sup>* `` set seen"
    using assms by (intro search_sound) simp
  have c: "set seen \<subseteq> set (search seen work)" "R `` set (search seen work) \<subseteq> set (search seen work)"
    using search_closed [of seen work] assms by auto
  then show "R\<^sup>* `` set seen \<subseteq> set (search seen work)"
    using Image_closed_trancl [OF c(2)] by (metis Image_mono order_refl)
qed

end

end
