(* ===== verification/Lifecycle_Profile.thy ===== *)
theory Lifecycle_Profile
  imports Lifecycle_Rules Worklist
begin

text \<open>
  Package \<open>internal/intent/lifecycle\<close>, file \<open>profile.go\<close>: the declared lifecycle of a dimension,
  its validation, the narrowing check, and the append-only history of transitions.

  A map used as a set is a list of its keys. \<open>bfs\<close> is the work-list loop of \<open>Profile.Validate\<close>;
  it terminates because every turn removes one entry of the queue and adds only states that were
  not reached before. A history is the list of its records in the order of appending; sequence
  numbers, \<open>uint64\<close> in the code, are bounded by the length of a slice and are natural numbers here.
\<close>

subsection \<open>Profiles\<close>

record TransitionRule =
  tr_From :: StateID
  tr_To :: StateID
  tr_RequiresGovernance :: bool
  tr_RetentionClass :: string

record Profile =
  pf_ID :: string
  pf_Dimension :: Dimension
  pf_States :: "StateID list"
  pf_Initial :: StateID
  pf_Terminal :: "StateID list"
  pf_Transitions :: "TransitionRule list"

fun declare_states :: "StateID list \<Rightarrow> StateID list \<Rightarrow> lifecycle_error + StateID list" where
  "declare_states declared [] = Inr declared"
| "declare_states declared (s # ss) =
     (if s = [] then Inl ErrInvalidProfile
      else if s \<in> set declared then Inl ErrInvalidProfile
      else declare_states (s # declared) ss)"

fun check_transitions :: "StateID list \<Rightarrow> StateID list \<Rightarrow> (StateID \<times> StateID) list
    \<Rightarrow> TransitionRule list \<Rightarrow> lifecycle_error option" where
  "check_transitions declared terminal seen [] = None"
| "check_transitions declared terminal seen (t # ts) =
     (if tr_From t \<notin> set declared then Some ErrInvalidProfile
      else if tr_To t \<notin> set declared then Some ErrInvalidProfile
      else if tr_From t \<in> set terminal then Some ErrInvalidProfile
      else if tr_RetentionClass t = [] then Some ErrInvalidProfile
      else if (tr_From t, tr_To t) \<in> set seen then Some ErrInvalidProfile
      else check_transitions declared terminal ((tr_From t, tr_To t) # seen) ts)"

definition adjacency :: "TransitionRule list \<Rightarrow> StateID \<Rightarrow> StateID list" where
  "adjacency ts cur = map tr_To (filter (\<lambda>t. tr_From t = cur) ts)"

fun visit :: "StateID list \<Rightarrow> StateID list \<Rightarrow> StateID list \<Rightarrow> StateID list \<times> StateID list" where
  "visit [] reachable queue = (reachable, queue)"
| "visit (nxt # ns) reachable queue =
     (if nxt \<in> set reachable then visit ns reachable queue
      else visit ns (nxt # reachable) (queue @ [nxt]))"

text \<open>What one visit adds: the states not reached before, once each.\<close>

lemma visit_adds:
  "\<exists>new. visit ns reachable queue = (rev new @ reachable, queue @ new) \<and> distinct new
     \<and> set new = set ns - set reachable"
proof (induction ns arbitrary: reachable queue)
  case (Cons n ns)
  show ?case
  proof (cases "n \<in> set reachable")
    case True
    then show ?thesis
      using Cons.IH [of reachable queue] by auto
  next
    case False
    obtain new where new: "visit ns (n # reachable) (queue @ [n]) = (rev new @ n # reachable, (queue @ [n]) @ new)"
      "distinct new" "set new = set ns - set (n # reachable)"
      using Cons.IH [of "n # reachable" "queue @ [n]"] by auto
    with False show ?thesis
      by (intro exI [of _ "n # new"]) auto
  qed
qed simp

function bfs :: "TransitionRule list \<Rightarrow> StateID list \<Rightarrow> StateID list \<Rightarrow> StateID list" where
  "bfs ts reachable [] = reachable"
| "bfs ts reachable (cur # queue) =
     (case visit (adjacency ts cur) reachable queue of (r, q) \<Rightarrow> bfs ts r q)"
  by pat_completeness auto
termination
proof (relation "measure (\<lambda>(ts, reachable, queue). card (tr_To ` set ts - set reachable) + length queue)",
    goal_cases)
  case (2 ts reachable cur queue r q)
  obtain new where new: "r = rev new @ reachable" "q = queue @ new" "distinct new"
    "set new = set (adjacency ts cur) - set reachable"
    using visit_adds [of "adjacency ts cur" reachable queue] 2 by auto
  then have "set (rev new) \<subseteq> tr_To ` set ts - set reachable"
    by (auto simp: adjacency_def)
  then show ?case
    using fresh_targets_weight [of "tr_To ` set ts" "rev new" reachable] new by simp
qed simp

definition Profile_Validate :: "Profile \<Rightarrow> lifecycle_error option" where
  "Profile_Validate p =
     (if pf_ID p = [] then Some ErrInvalidProfile
      else if pf_Dimension p = DimensionOther [] then Some ErrInvalidProfile
      else case declare_states [] (pf_States p) of
        Inl e \<Rightarrow> Some e
      | Inr declared \<Rightarrow>
          first_err (reject (declared = []) ErrInvalidProfile)
          (first_err (reject (pf_Initial p \<notin> set declared) ErrInvalidProfile)
          (first_err (err_loop (\<lambda>s. reject (s \<notin> set declared) ErrInvalidProfile) (pf_Terminal p))
          (first_err (check_transitions declared (pf_Terminal p) [] (pf_Transitions p))
            (let reachable = bfs (pf_Transitions p) [pf_Initial p] [pf_Initial p]
             in reject (filter (\<lambda>s. s \<notin> set reachable) declared \<noteq> []) ErrInvalidProfile)))))"

definition Profile_Rule :: "Profile \<Rightarrow> StateID \<Rightarrow> StateID \<Rightarrow> TransitionRule option" where
  "Profile_Rule p from to = find (\<lambda>t. tr_From t = from \<and> tr_To t = to) (pf_Transitions p)"

definition Narrows :: "Profile \<Rightarrow> Profile \<Rightarrow> lifecycle_error option" where
  "Narrows p base =
     (if pf_Dimension p \<noteq> pf_Dimension base then Some ErrProfileWiden
      else first_err (err_loop (\<lambda>s. reject (s \<notin> set (pf_States base)) ErrProfileWiden) (pf_States p))
        (err_loop (\<lambda>t. reject (Profile_Rule base (tr_From t) (tr_To t) = None) ErrProfileWiden)
          (pf_Transitions p)))"

subsection \<open>History\<close>

record TransitionRecord =
  rc_Sequence :: nat
  rc_From :: Dimensions
  rc_To :: Dimensions
  rc_At :: Instant
  rc_Actor :: string
  rc_ReasonRef :: string
  rc_GovernanceDecisionRef :: string
  rc_RetentionClass :: string

type_synonym History = "TransitionRecord list"

definition History_Len :: "History \<Rightarrow> nat" where
  "History_Len h = length h"

definition History_Latest :: "History \<Rightarrow> TransitionRecord option" where
  "History_Latest h = (if h = [] then None else Some (last h))"

definition History_Append :: "History \<Rightarrow> TransitionRecord \<Rightarrow> lifecycle_error + History" where
  "History_Append h rec =
     (if rc_Sequence rec \<noteq> length h + 1 then Inl ErrHistoryImmutable
      else if (case History_Latest h of Some r \<Rightarrow> rc_To r \<noteq> rc_From rec | None \<Rightarrow> False)
        then Inl ErrHistoryImmutable
      else if \<not> i_set (rc_At rec) then Inl ErrHistoryImmutable
      else if rc_RetentionClass rec = [] then Inl ErrGovernanceBypassed
      else Inr (h @ [rec]))"

subsection \<open>The kernel profiles\<close>

definition edges :: "string \<Rightarrow> string list \<Rightarrow> (StateID \<times> StateID) list \<Rightarrow> TransitionRule list" where
  "edges retention requiresGovernance pairs =
     map (\<lambda>(a, b). \<lparr>tr_From = a, tr_To = b,
           tr_RequiresGovernance = (a @ ''->'' @ b \<in> set requiresGovernance),
           tr_RetentionClass = retention\<rparr>) pairs"

definition retentionIntentLifecycle :: string where
  "retentionIntentLifecycle = ''INTENT_LIFECYCLE''"

definition retentionBusinessOutcome :: string where
  "retentionBusinessOutcome = ''BUSINESS_OUTCOME''"

definition retentionReconciliation :: string where
  "retentionReconciliation = ''RECONCILIATION_EVIDENCE''"

definition retentionObligation :: string where
  "retentionObligation = ''OBLIGATION_EVIDENCE''"

definition requestProfile :: Profile where
  "requestProfile =
     \<lparr>pf_ID = ''hcmnext.lifecycle.request/v1'', pf_Dimension = DimensionRequest,
      pf_States =
        [''UNSPECIFIED'', ''DRAFT'', ''PREFLIGHTED'', ''SIMULATED'', ''SUBMITTED'', ''APPROVED'',
         ''REJECTED'', ''WITHDRAWN'', ''CANCELLED'', ''SUPERSEDED'', ''CLOSED'', ''REOPENED''],
      pf_Initial = ''UNSPECIFIED'',
      pf_Terminal = [''REJECTED'', ''WITHDRAWN'', ''CANCELLED'', ''SUPERSEDED''],
      pf_Transitions = edges retentionIntentLifecycle
        [''SUBMITTED->APPROVED'', ''SUBMITTED->REJECTED'', ''SIMULATED->CANCELLED'',
         ''APPROVED->CANCELLED'', ''APPROVED->CLOSED'', ''CLOSED->REOPENED'']
        [(''UNSPECIFIED'', ''DRAFT''), (''DRAFT'', ''PREFLIGHTED''), (''DRAFT'', ''WITHDRAWN''),
         (''DRAFT'', ''CANCELLED''), (''PREFLIGHTED'', ''DRAFT''),
         (''PREFLIGHTED'', ''SIMULATED''), (''PREFLIGHTED'', ''WITHDRAWN''),
         (''PREFLIGHTED'', ''CANCELLED''), (''SIMULATED'', ''SIMULATED''),
         (''SIMULATED'', ''SUBMITTED''), (''SIMULATED'', ''WITHDRAWN''),
         (''SIMULATED'', ''CANCELLED''), (''SIMULATED'', ''SUPERSEDED''),
         (''SUBMITTED'', ''APPROVED''), (''SUBMITTED'', ''REJECTED''),
         (''SUBMITTED'', ''SIMULATED''), (''SUBMITTED'', ''WITHDRAWN''),
         (''SUBMITTED'', ''CANCELLED''), (''SUBMITTED'', ''SUPERSEDED''),
         (''SUBMITTED'', ''CLOSED''), (''APPROVED'', ''SIMULATED''), (''APPROVED'', ''CANCELLED''),
         (''APPROVED'', ''SUPERSEDED''), (''APPROVED'', ''CLOSED''), (''REOPENED'', ''SIMULATED''),
         (''REOPENED'', ''CLOSED''), (''CLOSED'', ''REOPENED'')]\<rparr>"

definition executionProfile :: Profile where
  "executionProfile =
     \<lparr>pf_ID = ''hcmnext.lifecycle.execution/v1'', pf_Dimension = DimensionExecution,
      pf_States =
        [''UNSPECIFIED'', ''NOT_PLANNED'', ''SCHEDULED'', ''REVALIDATING'', ''EXECUTING'',
         ''COMMITTED'', ''BLOCKED'', ''REPAIR_REQUIRED''],
      pf_Initial = ''UNSPECIFIED'',
      pf_Terminal = [],
      pf_Transitions = edges retentionIntentLifecycle
        [''REVALIDATING->EXECUTING'']
        [(''UNSPECIFIED'', ''NOT_PLANNED''), (''NOT_PLANNED'', ''SCHEDULED''),
         (''NOT_PLANNED'', ''BLOCKED''), (''SCHEDULED'', ''REVALIDATING''),
         (''SCHEDULED'', ''NOT_PLANNED''), (''SCHEDULED'', ''BLOCKED''),
         (''REVALIDATING'', ''EXECUTING''), (''REVALIDATING'', ''NOT_PLANNED''),
         (''REVALIDATING'', ''BLOCKED''), (''EXECUTING'', ''COMMITTED''),
         (''EXECUTING'', ''BLOCKED''), (''EXECUTING'', ''REPAIR_REQUIRED''),
         (''COMMITTED'', ''REPAIR_REQUIRED''), (''BLOCKED'', ''SCHEDULED''),
         (''BLOCKED'', ''NOT_PLANNED''), (''REPAIR_REQUIRED'', ''SCHEDULED''),
         (''REPAIR_REQUIRED'', ''COMMITTED'')]\<rparr>"

definition businessProfile :: Profile where
  "businessProfile =
     \<lparr>pf_ID = ''hcmnext.lifecycle.business/v1'', pf_Dimension = DimensionBusiness,
      pf_States =
        [''UNSPECIFIED'', ''NOT_STARTED'', ''IN_PROGRESS'', ''COMPLETED'', ''NOT_ACHIEVED'',
         ''CORRECTED'', ''UNKNOWN''],
      pf_Initial = ''UNSPECIFIED'',
      pf_Terminal = [],
      pf_Transitions = edges retentionBusinessOutcome
        []
        [(''UNSPECIFIED'', ''NOT_STARTED''), (''NOT_STARTED'', ''IN_PROGRESS''),
         (''NOT_STARTED'', ''NOT_ACHIEVED''), (''NOT_STARTED'', ''UNKNOWN''),
         (''IN_PROGRESS'', ''COMPLETED''), (''IN_PROGRESS'', ''NOT_ACHIEVED''),
         (''IN_PROGRESS'', ''UNKNOWN''), (''COMPLETED'', ''CORRECTED''),
         (''COMPLETED'', ''UNKNOWN''), (''NOT_ACHIEVED'', ''IN_PROGRESS''),
         (''CORRECTED'', ''UNKNOWN''), (''UNKNOWN'', ''IN_PROGRESS''),
         (''UNKNOWN'', ''COMPLETED''), (''UNKNOWN'', ''NOT_ACHIEVED'')]\<rparr>"

definition consistencyProfile :: Profile where
  "consistencyProfile =
     \<lparr>pf_ID = ''hcmnext.lifecycle.consistency/v1'', pf_Dimension = DimensionConsistency,
      pf_States =
        [''UNSPECIFIED'', ''NOT_APPLICABLE'', ''PENDING_OBSERVATION'', ''CONSISTENT'',
         ''DEGRADED'', ''REPAIRING'', ''UNKNOWN''],
      pf_Initial = ''UNSPECIFIED'',
      pf_Terminal = [],
      pf_Transitions = edges retentionReconciliation
        []
        [(''UNSPECIFIED'', ''NOT_APPLICABLE''), (''UNSPECIFIED'', ''PENDING_OBSERVATION''),
         (''NOT_APPLICABLE'', ''PENDING_OBSERVATION''), (''PENDING_OBSERVATION'', ''CONSISTENT''),
         (''PENDING_OBSERVATION'', ''DEGRADED''), (''PENDING_OBSERVATION'', ''UNKNOWN''),
         (''CONSISTENT'', ''DEGRADED''), (''CONSISTENT'', ''UNKNOWN''),
         (''DEGRADED'', ''REPAIRING''), (''DEGRADED'', ''UNKNOWN''),
         (''REPAIRING'', ''CONSISTENT''), (''REPAIRING'', ''DEGRADED''),
         (''REPAIRING'', ''UNKNOWN''), (''UNKNOWN'', ''PENDING_OBSERVATION''),
         (''UNKNOWN'', ''CONSISTENT''), (''UNKNOWN'', ''DEGRADED'')]\<rparr>"

definition obligationProfile :: Profile where
  "obligationProfile =
     \<lparr>pf_ID = ''hcmnext.lifecycle.obligation/v1'', pf_Dimension = DimensionObligation,
      pf_States =
        [''UNSPECIFIED'', ''NOT_APPLICABLE'', ''PENDING'', ''SATISFIED'', ''OVERDUE'', ''WAIVED'',
         ''UNKNOWN''],
      pf_Initial = ''UNSPECIFIED'',
      pf_Terminal = [],
      pf_Transitions = edges retentionObligation
        [''PENDING->WAIVED'', ''OVERDUE->WAIVED'']
        [(''UNSPECIFIED'', ''NOT_APPLICABLE''), (''UNSPECIFIED'', ''PENDING''),
         (''NOT_APPLICABLE'', ''PENDING''), (''PENDING'', ''SATISFIED''),
         (''PENDING'', ''OVERDUE''), (''PENDING'', ''WAIVED''), (''PENDING'', ''UNKNOWN''),
         (''OVERDUE'', ''SATISFIED''), (''OVERDUE'', ''WAIVED''), (''OVERDUE'', ''UNKNOWN''),
         (''SATISFIED'', ''UNKNOWN''), (''WAIVED'', ''UNKNOWN''), (''UNKNOWN'', ''PENDING''),
         (''UNKNOWN'', ''SATISFIED''), (''UNKNOWN'', ''OVERDUE'')]\<rparr>"

definition KernelProfiles :: "Dimension \<rightharpoonup> Profile" where
  "KernelProfiles =
     [DimensionRequest \<mapsto> requestProfile, DimensionExecution \<mapsto> executionProfile,
      DimensionBusiness \<mapsto> businessProfile, DimensionConsistency \<mapsto> consistencyProfile,
      DimensionObligation \<mapsto> obligationProfile]"

subsection \<open>Validation decides publishability\<close>

definition edge_rel :: "TransitionRule list \<Rightarrow> (StateID \<times> StateID) set" where
  "edge_rel ts = (\<lambda>t. (tr_From t, tr_To t)) ` set ts"

text \<open>
  What it means that a profile may be published: the declared states are distinct and named, every
  reference is to a declared state, a terminal state has no way out, every transition is declared once
  and retained, and every state can be reached from the initial one.
\<close>

definition publishable :: "Profile \<Rightarrow> bool" where
  "publishable p \<longleftrightarrow>
     pf_ID p \<noteq> [] \<and> pf_Dimension p \<noteq> DimensionOther []
     \<and> distinct (pf_States p) \<and> [] \<notin> set (pf_States p)
     \<and> pf_Initial p \<in> set (pf_States p) \<and> set (pf_Terminal p) \<subseteq> set (pf_States p)
     \<and> (\<forall>t\<in>set (pf_Transitions p). tr_From t \<in> set (pf_States p) - set (pf_Terminal p)
          \<and> tr_To t \<in> set (pf_States p) \<and> tr_RetentionClass t \<noteq> [])
     \<and> distinct (map (\<lambda>t. (tr_From t, tr_To t)) (pf_Transitions p))
     \<and> set (pf_States p) \<subseteq> (edge_rel (pf_Transitions p))\<^sup>* `` {pf_Initial p}"

lemma adjacency_set: "set (adjacency ts cur) = edge_rel ts `` {cur}"
  by (auto simp: adjacency_def edge_rel_def)

lemma declare_states_ok:
  "declare_states declared ss = Inr ds \<longleftrightarrow>
     ds = rev ss @ declared \<and> distinct ss \<and> [] \<notin> set ss \<and> set ss \<inter> set declared = {}"
  by (induction ss arbitrary: declared) auto

lemma check_transitions_ok:
  "check_transitions declared terminal seen ts = None \<longleftrightarrow>
     (\<forall>t\<in>set ts. tr_From t \<in> set declared - set terminal \<and> tr_To t \<in> set declared \<and> tr_RetentionClass t \<noteq> [])
     \<and> distinct (map (\<lambda>t. (tr_From t, tr_To t)) ts)
     \<and> (\<lambda>t. (tr_From t, tr_To t)) ` set ts \<inter> set seen = {}"
  by (induction ts arbitrary: seen) auto

lemma visit_sets:
  assumes "visit ns reachable queue = (r, q)"
  shows "set r = set reachable \<union> set ns" and "set q = set queue \<union> (set ns - set reachable)"
proof -
  obtain new where "r = rev new @ reachable" "q = queue @ new" "set new = set ns - set reachable"
    using visit_adds [of ns reachable queue] assms by fastforce
  then show "set r = set reachable \<union> set ns" and "set q = set queue \<union> (set ns - set reachable)"
    by auto
qed

interpretation bfs_search: worklist "edge_rel ts" "bfs ts"
  "\<lambda>reachable queue. card (tr_To ` set ts - set reachable) + length queue" for ts
proof unfold_locales
  fix reachable queue cur
  obtain new where new: "visit (adjacency ts cur) reachable queue = (rev new @ reachable, queue @ new)" "distinct new"
    "set new = set (adjacency ts cur) - set reachable"
    using visit_adds by blast
  note sets = visit_sets [OF new(1), unfolded adjacency_set]
  have "set (rev new) \<subseteq> tr_To ` set ts - set reachable"
    using new(3) by (auto simp: adjacency_def)
  then have "card (tr_To ` set ts - set (rev new @ reachable)) + length (queue @ new)
      < card (tr_To ` set ts - set reachable) + length (cur # queue)"
    using fresh_targets_weight [of "tr_To ` set ts" "rev new" reachable] new(2) by simp
  then show "\<exists>seen' work'. bfs ts reachable (cur # queue) = bfs ts seen' work'
      \<and> set seen' = set reachable \<union> edge_rel ts `` {cur} \<and> set work' = set queue \<union> (edge_rel ts `` {cur} - set reachable)
      \<and> card (tr_To ` set ts - set seen') + length work' < card (tr_To ` set ts - set reachable) + length (cur # queue)"
    using sets new(1) by (intro exI [of _ "rev new @ reachable"] exI [of _ "queue @ new"]) (simp only: bfs.simps prod.case simp_thms)
qed simp

lemma bfs_reaches: "set (bfs ts [s] [s]) = (edge_rel ts)\<^sup>* `` {s}"
  using bfs_search.search_reaches [of "[s]" "[s]" ts] by simp

lemma profile_valid_iff:
  "Profile_Validate p = None \<longleftrightarrow> publishable p"
proof (cases "declare_states [] (pf_States p)")
  case (Inl e)
  then have "\<not> (distinct (pf_States p) \<and> [] \<notin> set (pf_States p))"
    using declare_states_ok [of "[]" "pf_States p" "rev (pf_States p)"] by auto
  with Inl show ?thesis
    by (auto simp: Profile_Validate_def publishable_def)
next
  case (Inr ds)
  then have ds: "ds = rev (pf_States p)" "distinct (pf_States p)" "[] \<notin> set (pf_States p)"
    by (simp_all add: declare_states_ok)
  have "filter (\<lambda>s. s \<notin> set (bfs (pf_Transitions p) [pf_Initial p] [pf_Initial p])) ds = []
      \<longleftrightarrow> set (pf_States p) \<subseteq> (edge_rel (pf_Transitions p))\<^sup>* `` {pf_Initial p}"
    by (auto simp: ds(1) bfs_reaches filter_empty_conv simp del: bfs.simps)
  then show ?thesis
    by (auto simp: Profile_Validate_def publishable_def Inr ds check_transitions_ok Let_def
        simp del: bfs.simps)
qed

text \<open>
  C3: validation of a lifecycle profile. The validator, with its work-list search, terminates on every
  profile and accepts exactly the publishable ones: among others, a profile passes only when every
  declared state can be reached from the initial state along declared transitions.
\<close>

theorem profile_validate_decides_publishable:
  "Profile_Validate p = None \<longleftrightarrow> publishable p"
  by (rule profile_valid_iff)

lemma kernel_request_valid: "Profile_Validate requestProfile = None"
  by code_simp

lemma kernel_execution_valid: "Profile_Validate executionProfile = None"
  by code_simp

lemma kernel_business_valid: "Profile_Validate businessProfile = None"
  by code_simp

lemma kernel_consistency_valid: "Profile_Validate consistencyProfile = None"
  by code_simp

lemma kernel_obligation_valid: "Profile_Validate obligationProfile = None"
  by code_simp

lemmas kernel_valid = kernel_request_valid kernel_execution_valid kernel_business_valid
  kernel_consistency_valid kernel_obligation_valid

lemma KernelProfiles_simps [simp]:
  "KernelProfiles DimensionRequest = Some requestProfile"
  "KernelProfiles DimensionExecution = Some executionProfile"
  "KernelProfiles DimensionBusiness = Some businessProfile"
  "KernelProfiles DimensionConsistency = Some consistencyProfile"
  "KernelProfiles DimensionObligation = Some obligationProfile"
  by (simp_all add: KernelProfiles_def)

text \<open>
  Every kernel lifecycle profile is accepted by the validator, is assigned to the dimension it
  declares, and declares exactly the states that the dimension's name table has.
\<close>

theorem kernel_profiles_valid:
  "list_all (\<lambda>d. case KernelProfiles d of
       None \<Rightarrow> False
     | Some p \<Rightarrow> Profile_Validate p = None \<and> pf_Dimension p = d \<and> sort (pf_States p) = StatesOf d)
   AllDimensions"
proof -
  have "sort (pf_States requestProfile) = StatesOf DimensionRequest"
    "sort (pf_States executionProfile) = StatesOf DimensionExecution"
    "sort (pf_States businessProfile) = StatesOf DimensionBusiness"
    "sort (pf_States consistencyProfile) = StatesOf DimensionConsistency"
    "sort (pf_States obligationProfile) = StatesOf DimensionObligation"
    by (simp_all add: statesOf_def requestProfile_def requestNames_def executionProfile_def
        executionNames_def businessProfile_def businessNames_def consistencyProfile_def
        consistencyNames_def obligationProfile_def obligationNames_def)
  then show ?thesis
    by (simp add: AllDimensions_def kernel_valid)
      (simp add: requestProfile_def executionProfile_def businessProfile_def consistencyProfile_def
        obligationProfile_def)
qed

subsection \<open>Narrowing\<close>

lemma Profile_Rule_Some:
  "Profile_Rule p a b = Some t \<Longrightarrow> t \<in> set (pf_Transitions p) \<and> tr_From t = a \<and> tr_To t = b"
  by (auto simp: Profile_Rule_def find_Some_iff)

lemma Profile_Rule_None: "Profile_Rule p a b = None \<longleftrightarrow> (a, b) \<notin> edge_rel (pf_Transitions p)"
  by (force simp: Profile_Rule_def find_None_iff edge_rel_def)

lemma Narrows_iff:
  "Narrows p base = None \<longleftrightarrow>
     pf_Dimension p = pf_Dimension base \<and> set (pf_States p) \<subseteq> set (pf_States base)
     \<and> edge_rel (pf_Transitions p) \<subseteq> edge_rel (pf_Transitions base)"
  by (auto simp: Narrows_def Profile_Rule_None edge_rel_def)

end
