(* ===== verification/Lifecycle_Machine.thy ===== *)
theory Lifecycle_Machine
  imports Lifecycle_Profile
begin

text \<open>
  Package \<open>internal/intent/lifecycle\<close>, file \<open>machine.go\<close>: the machine that moves an intent through
  its five dimensions, and the replay of a recorded history.

  A method with a pointer receiver returns the updated machine; \<open>Inl\<close> means that the receiver is
  left as it was. A nil map of profiles and a nil \<open>ContextAt\<close> are \<open>None\<close>. What is proved: what holds
  of every machine that commands can produce, that replay of its history reproduces its state, that
  terminal states are final, and what a narrowing of the profiles keeps.
\<close>

record Machine =
  mc_profiles :: "Dimension \<rightharpoonup> Profile"
  mc_current :: Dimensions
  mc_history :: History

definition assigned :: "(Dimension \<rightharpoonup> Profile) option \<Rightarrow> Dimension \<rightharpoonup> Profile" where
  "assigned profiles = (case profiles of None \<Rightarrow> KernelProfiles | Some ps \<Rightarrow> ps)"

definition assignment_check :: "(Dimension \<rightharpoonup> Profile) \<Rightarrow> Dimension \<Rightarrow> lifecycle_error option" where
  "assignment_check ps d =
     (case ps d of
        None \<Rightarrow> Some ErrInvalidProfile
      | Some p \<Rightarrow> first_err (Profile_Validate p) (reject (pf_Dimension p \<noteq> d) ErrInvalidProfile))"

definition NewMachine :: "(Dimension \<rightharpoonup> Profile) option \<Rightarrow> Dimensions \<Rightarrow> Context \<Rightarrow> lifecycle_error + Machine" where
  "NewMachine profiles initial ctx =
     guard_res (err_loop (assignment_check (assigned profiles)) AllDimensions)
      (guard_res (Check initial ctx)
        (Inr \<lparr>mc_profiles = assigned profiles, mc_current = initial, mc_history = []\<rparr>))"

definition zero_Profile :: Profile where
  "zero_Profile = \<lparr>pf_ID = [], pf_Dimension = DimensionOther [], pf_States = [], pf_Initial = [],
     pf_Terminal = [], pf_Transitions = []\<rparr>"

fun edges_of_moves :: "(Dimension \<rightharpoonup> Profile) \<Rightarrow> Dimensions \<Rightarrow> Dimensions \<Rightarrow> Dimension list
    \<Rightarrow> lifecycle_error + TransitionRule list" where
  "edges_of_moves ps from to [] = Inr []"
| "edges_of_moves ps from to (d # ds) =
     (if Dimensions_State from d = Dimensions_State to d then edges_of_moves ps from to ds
      else let p = (case ps d of Some p \<Rightarrow> p | None \<Rightarrow> zero_Profile) in
        case Profile_Rule p (Dimensions_State from d) (Dimensions_State to d) of
          None \<Rightarrow> Inl ErrUndeclaredTransition
        | Some rule \<Rightarrow> bind_res (edges_of_moves ps from to ds) (\<lambda>out. Inr (rule # out)))"

definition declaredEdges :: "Machine \<Rightarrow> Dimensions \<Rightarrow> Dimensions \<Rightarrow> lifecycle_error + TransitionRule list" where
  "declaredEdges m from to = edges_of_moves (mc_profiles m) from to AllDimensions"

definition stamped :: "Machine \<Rightarrow> Dimensions \<Rightarrow> TransitionRule list \<Rightarrow> TransitionRecord \<Rightarrow> TransitionRecord" where
  "stamped m nxt rules rec =
     rec\<lparr>rc_Sequence := History_Len (mc_history m) + 1, rc_From := mc_current m, rc_To := nxt,
         rc_RetentionClass :=
           (if rc_RetentionClass rec = [] \<and> rules \<noteq> [] then tr_RetentionClass (hd rules)
            else rc_RetentionClass rec)\<rparr>"

definition Apply :: "Machine \<Rightarrow> Dimensions \<Rightarrow> Context \<Rightarrow> TransitionRecord \<Rightarrow> lifecycle_error + Machine" where
  "Apply m nxt ctx rec =
     guard_res (Preserves (mc_current m) nxt)
      (bind_res (declaredEdges m (mc_current m) nxt) (\<lambda>rules.
        guard_res (Check nxt ctx)
         (guard_res (err_loop (\<lambda>r. reject (tr_RequiresGovernance r \<and> rc_GovernanceDecisionRef rec = [])
                      ErrGovernanceBypassed) rules)
           (bind_res (History_Append (mc_history m) (stamped m nxt rules rec)) (\<lambda>h.
              Inr (m\<lparr>mc_history := h, mc_current := nxt\<rparr>))))))"

definition zero_Context :: Context where
  "zero_Context = \<lparr>cx_ApprovalRequired = False, cx_CurrentMaterialDigest = [], cx_Bindings = [],
     cx_CommitReceiptRef = [], cx_RepairRef = [], cx_ClosurePolicyPermitsOpenRepair = False,
     cx_Persisted = False\<rparr>"

definition zero_Dimensions :: Dimensions where
  "zero_Dimensions = \<lparr>dm_Request = RequestUnspecified, dm_Execution = ExecutionUnspecified,
     dm_Business = BusinessUnspecified, dm_Consistency = ConsistencyUnspecified,
     dm_Obligation = ObligationUnspecified\<rparr>"

definition zero_Record :: TransitionRecord where
  "zero_Record = \<lparr>rc_Sequence = 0, rc_From = zero_Dimensions, rc_To = zero_Dimensions,
     rc_At = zero_Instant, rc_Actor = [], rc_ReasonRef = [], rc_GovernanceDecisionRef = [],
     rc_RetentionClass = []\<rparr>"

type_synonym ContextAt = "TransitionRecord \<Rightarrow> Context"

fun replay_records :: "ContextAt \<Rightarrow> Machine \<Rightarrow> TransitionRecord list \<Rightarrow> lifecycle_error + Machine" where
  "replay_records ctx_at m [] = Inr m"
| "replay_records ctx_at m (rec # recs) =
     (if rc_From rec \<noteq> mc_current m then Inl ErrHistoryImmutable
      else bind_res (Apply m (rc_To rec) (ctx_at rec) rec) (\<lambda>m'. replay_records ctx_at m' recs))"

definition Replay :: "(Dimension \<rightharpoonup> Profile) option \<Rightarrow> Dimensions \<Rightarrow> TransitionRecord list
    \<Rightarrow> ContextAt option \<Rightarrow> lifecycle_error + Dimensions" where
  "Replay profiles initial records ctx_at =
     (let ctx = (case ctx_at of None \<Rightarrow> (\<lambda>_. zero_Context) | Some f \<Rightarrow> f) in
      bind_res (NewMachine profiles initial (ctx (zero_Record\<lparr>rc_To := initial\<rparr>))) (\<lambda>m.
        bind_res (replay_records ctx m records) (\<lambda>m'. Inr (mc_current m'))))"

subsection \<open>What one accepted transition means\<close>

text \<open>
  A move is governed when every dimension that moves does so along a declared edge, with a governance
  decision where the edge requires one.
\<close>

definition governed_move :: "(Dimension \<rightharpoonup> Profile) \<Rightarrow> string \<Rightarrow> Dimensions \<Rightarrow> Dimensions \<Rightarrow> bool" where
  "governed_move ps ref from to \<longleftrightarrow>
     (\<forall>d\<in>set AllDimensions. Dimensions_State from d \<noteq> Dimensions_State to d \<longrightarrow>
        (\<exists>p t. ps d = Some p \<and> Profile_Rule p (Dimensions_State from d) (Dimensions_State to d) = Some t
           \<and> (tr_RequiresGovernance t \<longrightarrow> ref \<noteq> [])))"

lemma zero_Profile_Rule [simp]: "Profile_Rule zero_Profile a b = None"
  by (simp add: Profile_Rule_def zero_Profile_def)

lemma edges_of_moves_ok:
  "edges_of_moves ps from to ds = Inr rules \<Longrightarrow>
     (\<forall>t\<in>set rules. G t) \<longleftrightarrow>
     (\<forall>d\<in>set ds. Dimensions_State from d \<noteq> Dimensions_State to d \<longrightarrow>
        (\<exists>p t. ps d = Some p \<and> Profile_Rule p (Dimensions_State from d) (Dimensions_State to d) = Some t \<and> G t))"
  by (induction ds arbitrary: rules)
    (fastforce simp: Let_def split: if_splits option.splits)+

lemma edges_of_moves_total:
  "(\<exists>rules. edges_of_moves ps from to ds = Inr rules) \<longleftrightarrow>
     (\<forall>d\<in>set ds. Dimensions_State from d \<noteq> Dimensions_State to d \<longrightarrow>
        (\<exists>p t. ps d = Some p \<and> Profile_Rule p (Dimensions_State from d) (Dimensions_State to d) = Some t))"
  by (induction ds) (auto simp: Let_def split: option.splits)

lemma governed_move_edges:
  assumes "declaredEdges m from to = Inr rules"
  shows "err_loop (\<lambda>r. reject (tr_RequiresGovernance r \<and> ref = []) ErrGovernanceBypassed) rules = None
    \<longleftrightarrow> governed_move (mc_profiles m) ref from to"
  using edges_of_moves_ok [OF assms [unfolded declaredEdges_def],
      where G = "\<lambda>t. \<not> (tr_RequiresGovernance t \<and> ref = [])"]
  by (auto simp: governed_move_def)

lemma Apply_Inr_iff:
  "Apply m nxt ctx rec = Inr m' \<longleftrightarrow>
     Preserves (mc_current m) nxt = None \<and> Check nxt ctx = None
     \<and> (\<exists>rules. declaredEdges m (mc_current m) nxt = Inr rules
          \<and> governed_move (mc_profiles m) (rc_GovernanceDecisionRef rec) (mc_current m) nxt
          \<and> History_Append (mc_history m) (stamped m nxt rules rec) = Inr (mc_history m @ [stamped m nxt rules rec])
          \<and> m' = m\<lparr>mc_history := mc_history m @ [stamped m nxt rules rec], mc_current := nxt\<rparr>)"
proof -
  have app: "(\<exists>h'. History_Append h r = Inr h' \<and> f h' = y)
      \<longleftrightarrow> History_Append h r = Inr (h @ [r]) \<and> f (h @ [r]) = y" for h r y and f :: "History \<Rightarrow> lifecycle_error + Machine"
    by (auto simp: History_Append_def)
  show ?thesis
    unfolding Apply_def guard_res_Inr_iff bind_res_Inr_iff app
    using governed_move_edges [of m "mc_current m" nxt _ "rc_GovernanceDecisionRef rec"] by auto
qed

subsection \<open>Every machine that commands can produce\<close>

inductive reachable_machine :: "(Dimension \<rightharpoonup> Profile) option \<Rightarrow> Dimensions \<Rightarrow> Machine \<Rightarrow> bool"
  for profiles :: "(Dimension \<rightharpoonup> Profile) option" and d0 :: Dimensions where
  created: "NewMachine profiles d0 ctx = Inr m \<Longrightarrow> reachable_machine profiles d0 m"
| applied: "reachable_machine profiles d0 m \<Longrightarrow> Apply m nxt ctx rec = Inr m' \<Longrightarrow> reachable_machine profiles d0 m'"

fun chained :: "Dimensions \<Rightarrow> TransitionRecord list \<Rightarrow> Dimensions \<Rightarrow> bool" where
  "chained d [] c \<longleftrightarrow> c = d"
| "chained d (r # rs) c \<longleftrightarrow> rc_From r = d \<and> chained (rc_To r) rs c"

definition keeps_dimensions :: "Dimensions \<Rightarrow> Dimensions \<Rightarrow> bool" where
  "keeps_dimensions from to \<longleftrightarrow>
     (\<forall>d\<in>set AllDimensions. Dimensions_State from d \<noteq> ''UNSPECIFIED'' \<longrightarrow> Dimensions_State to d \<noteq> ''UNSPECIFIED'')"

definition record_ok :: "(Dimension \<rightharpoonup> Profile) \<Rightarrow> nat \<Rightarrow> TransitionRecord \<Rightarrow> bool" where
  "record_ok ps n r \<longleftrightarrow>
     rc_Sequence r = n \<and> i_set (rc_At r) \<and> rc_RetentionClass r \<noteq> []
     \<and> (\<exists>c. Check (rc_To r) c = None) \<and> keeps_dimensions (rc_From r) (rc_To r)
     \<and> governed_move ps (rc_GovernanceDecisionRef r) (rc_From r) (rc_To r)"

definition machine_ok :: "(Dimension \<rightharpoonup> Profile) \<Rightarrow> Dimensions \<Rightarrow> Machine \<Rightarrow> bool" where
  "machine_ok ps d0 m \<longleftrightarrow>
     mc_profiles m = ps \<and> (\<forall>d\<in>set AllDimensions. assignment_check ps d = None)
     \<and> (\<exists>c. Check (mc_current m) c = None) \<and> chained d0 (mc_history m) (mc_current m)
     \<and> (\<forall>i<length (mc_history m). record_ok ps (Suc i) (mc_history m ! i))"

lemma chained_snoc: "chained d (rs @ [r]) c \<longleftrightarrow> chained d rs (rc_From r) \<and> rc_To r = c"
  by (induction rs arbitrary: d) auto

lemma stamped_simps [simp]:
  "rc_Sequence (stamped m nxt rules rec) = length (mc_history m) + 1"
  "rc_From (stamped m nxt rules rec) = mc_current m"
  "rc_To (stamped m nxt rules rec) = nxt"
  "rc_At (stamped m nxt rules rec) = rc_At rec"
  "rc_GovernanceDecisionRef (stamped m nxt rules rec) = rc_GovernanceDecisionRef rec"
  by (simp_all add: stamped_def History_Len_def)

lemma Preserves_iff: "Preserves from to = None \<longleftrightarrow> keeps_dimensions from to"
  by (auto simp: Preserves_def keeps_dimensions_def)

lemma Check_declared: "Check d c = None \<Longrightarrow> declared_tuple d"
  by (simp add: Check_def Dimensions_Validate_iff split: if_splits)

lemma History_Append_guards:
  "History_Append h r = Inr h' \<Longrightarrow> rc_Sequence r = length h + 1 \<and> i_set (rc_At r) \<and> rc_RetentionClass r \<noteq> []"
  by (auto simp: History_Append_def split: if_splits)

lemma NewMachine_ok:
  "NewMachine profiles d0 ctx = Inr m \<Longrightarrow> machine_ok (assigned profiles) d0 m"
  by (auto simp: NewMachine_def machine_ok_def)

lemma Apply_ok:
  assumes "machine_ok ps d0 m" and "Apply m nxt ctx rec = Inr m'"
  shows "machine_ok ps d0 m'"
proof -
  obtain rules where r: "Preserves (mc_current m) nxt = None" "Check nxt ctx = None"
    "governed_move (mc_profiles m) (rc_GovernanceDecisionRef rec) (mc_current m) nxt"
    "History_Append (mc_history m) (stamped m nxt rules rec) = Inr (mc_history m @ [stamped m nxt rules rec])"
    "m' = m\<lparr>mc_history := mc_history m @ [stamped m nxt rules rec], mc_current := nxt\<rparr>"
    using assms(2) by (auto simp: Apply_Inr_iff)
  moreover have "record_ok ps (Suc (length (mc_history m))) (stamped m nxt rules rec)"
    using r assms(1) History_Append_guards [OF r(4)]
    by (auto simp: record_ok_def Preserves_iff machine_ok_def)
  ultimately show ?thesis
    using assms(1) by (auto simp: machine_ok_def chained_snoc nth_append less_Suc_eq)
qed

lemma reachable_machine_ok: "reachable_machine profiles d0 m \<Longrightarrow> machine_ok (assigned profiles) d0 m"
  by (induction rule: reachable_machine.induct) (auto intro: NewMachine_ok Apply_ok)

text \<open>
  C2: the invariant of the lifecycle machine. Whatever commands have been applied, the records of a
  machine form one chain from the initial tuple to the current one and are numbered from one without
  gaps; every record carries a timestamp and a retention class, ends in a tuple that the legality check accepts,
  loses no dimension, and moves each dimension only along an edge its profile declares, with a
  governance decision wherever the edge requires one.
\<close>

theorem machine_history_is_governed_chain:
  assumes "reachable_machine profiles d0 m"
  shows "chained d0 (mc_history m) (mc_current m)
    \<and> (\<forall>i<length (mc_history m). let r = mc_history m ! i in
         rc_Sequence r = i + 1 \<and> i_set (rc_At r) \<and> rc_RetentionClass r \<noteq> []
         \<and> (\<exists>c. Check (rc_To r) c = None) \<and> keeps_dimensions (rc_From r) (rc_To r)
         \<and> governed_move (assigned profiles) (rc_GovernanceDecisionRef r) (rc_From r) (rc_To r))"
  using reachable_machine_ok [OF assms] by (simp add: machine_ok_def record_ok_def Let_def)

subsection \<open>Replay\<close>

text \<open>
  A machine whose commands were judged in the contexts that \<open>ctx_at\<close> gives for the records they left.
\<close>

inductive recorded_machine :: "(Dimension \<rightharpoonup> Profile) option \<Rightarrow> Dimensions \<Rightarrow> ContextAt \<Rightarrow> Machine \<Rightarrow> bool"
  for profiles :: "(Dimension \<rightharpoonup> Profile) option" and d0 :: Dimensions and ctx_at :: ContextAt where
  seeded: "NewMachine profiles d0 (ctx_at (zero_Record\<lparr>rc_To := d0\<rparr>)) = Inr m \<Longrightarrow> recorded_machine profiles d0 ctx_at m"
| moved: "recorded_machine profiles d0 ctx_at m \<Longrightarrow> Apply m nxt (ctx_at (last (mc_history m'))) rec = Inr m'
    \<Longrightarrow> recorded_machine profiles d0 ctx_at m'"

lemma replay_records_snoc:
  "replay_records ctx m (rs @ [r]) =
     bind_res (replay_records ctx m rs) (\<lambda>m'. if rc_From r \<noteq> mc_current m' then Inl ErrHistoryImmutable
       else Apply m' (rc_To r) (ctx r) r)"
proof (induction rs arbitrary: m)
  case Nil
  then show ?case by (auto simp: bind_res_def split: sum.splits)
next
  case (Cons a rs)
  then show ?case by (auto simp: bind_res_def split: sum.splits)
qed

lemma stamped_again:
  assumes "History_Append (mc_history m) (stamped m nxt rules rec) = Inr h"
  shows "stamped m nxt rules (stamped m nxt rules rec) = stamped m nxt rules rec"
  using History_Append_guards [OF assms] by (simp add: stamped_def)

lemma Apply_recorded:
  assumes "Apply m nxt ctx rec = Inr m'"
  shows "mc_history m' = mc_history m @ [last (mc_history m')]"
    and "rc_From (last (mc_history m')) = mc_current m" and "rc_To (last (mc_history m')) = nxt"
    and "Apply m nxt ctx (last (mc_history m')) = Inr m'"
proof -
  obtain rules where r: "Preserves (mc_current m) nxt = None" "Check nxt ctx = None"
    "declaredEdges m (mc_current m) nxt = Inr rules"
    "governed_move (mc_profiles m) (rc_GovernanceDecisionRef rec) (mc_current m) nxt"
    "History_Append (mc_history m) (stamped m nxt rules rec) = Inr (mc_history m @ [stamped m nxt rules rec])"
    "m' = m\<lparr>mc_history := mc_history m @ [stamped m nxt rules rec], mc_current := nxt\<rparr>"
    using assms by (auto simp: Apply_Inr_iff)
  note again = stamped_again [OF r(5)]
  from r again show "mc_history m' = mc_history m @ [last (mc_history m')]"
    and "rc_From (last (mc_history m')) = mc_current m" and "rc_To (last (mc_history m')) = nxt"
    and "Apply m nxt ctx (last (mc_history m')) = Inr m'"
    by (simp_all add: Apply_Inr_iff)
qed

lemma Apply_profiles: "Apply m nxt ctx rec = Inr m' \<Longrightarrow> mc_profiles m' = mc_profiles m"
  by (auto simp: Apply_Inr_iff)

lemma recorded_machine_replay:
  "recorded_machine profiles d0 ctx_at m \<Longrightarrow>
     \<exists>m0. NewMachine profiles d0 (ctx_at (zero_Record\<lparr>rc_To := d0\<rparr>)) = Inr m0
        \<and> replay_records ctx_at m0 (mc_history m) = Inr m"
proof (induction rule: recorded_machine.induct)
  case (seeded m)
  then show ?case by (auto simp: NewMachine_def)
next
  case (moved m nxt m' rec)
  note rec = Apply_recorded [OF moved.hyps(2)]
  from moved.IH obtain m0 where m0: "NewMachine profiles d0 (ctx_at (zero_Record\<lparr>rc_To := d0\<rparr>)) = Inr m0"
    "replay_records ctx_at m0 (mc_history m) = Inr m"
    by blast
  have "replay_records ctx_at m0 (mc_history m @ [last (mc_history m')]) = Inr m'"
    using m0(2) rec(2-4) by (simp add: replay_records_snoc)
  with m0(1) rec(1) show ?case by auto
qed

lemma replay_records_legal:
  "replay_records ctx_at m rs = Inr m' \<Longrightarrow>
     chained (mc_current m) rs (mc_current m')
     \<and> (\<forall>r\<in>set rs. Check (rc_To r) (ctx_at r) = None \<and> keeps_dimensions (rc_From r) (rc_To r)
          \<and> governed_move (mc_profiles m) (rc_GovernanceDecisionRef r) (rc_From r) (rc_To r))"
proof (induction rs arbitrary: m)
  case (Cons r rs)
  then obtain m1 where m1: "rc_From r = mc_current m" "Apply m (rc_To r) (ctx_at r) r = Inr m1"
    "replay_records ctx_at m1 rs = Inr m'"
    by (auto split: if_splits)
  from m1(2) have "mc_profiles m1 = mc_profiles m" "mc_current m1 = rc_To r"
    "Check (rc_To r) (ctx_at r) = None" "keeps_dimensions (rc_From r) (rc_To r)"
    "governed_move (mc_profiles m) (rc_GovernanceDecisionRef r) (rc_From r) (rc_To r)"
    using m1(1) by (auto simp: Apply_Inr_iff Preserves_iff)
  then show ?case
    using Cons.IH [OF m1(3)] m1(1) by auto
qed simp

lemma NewMachine_fields:
  "NewMachine profiles d0 c = Inr m \<Longrightarrow> mc_profiles m = assigned profiles \<and> mc_current m = d0"
  by (auto simp: NewMachine_def)

text \<open>
  C13: replay. For every machine whose transitions were judged in the contexts that \<open>ctx_at\<close> resolves
  from the records, replaying its recorded history under the same profiles succeeds and rebuilds
  exactly its current tuple. Conversely, whatever records replay accepts, they form a chain from the
  initial tuple to the result, every recorded tuple passes the legality check in its own context, and
  every record keeps its dimensions and is a governed move.
\<close>

theorem replay_rebuilds_exactly_legal_histories:
  "(recorded_machine profiles d0 ctx_at m \<longrightarrow>
      Replay profiles d0 (mc_history m) (Some ctx_at) = Inr (mc_current m))
   \<and> (Replay profiles d0 rs (Some ctx_at) = Inr d \<longrightarrow>
      chained d0 rs d
      \<and> (\<forall>r\<in>set rs. Check (rc_To r) (ctx_at r) = None \<and> keeps_dimensions (rc_From r) (rc_To r)
           \<and> governed_move (assigned profiles) (rc_GovernanceDecisionRef r) (rc_From r) (rc_To r)))"
proof (intro conjI impI)
  assume "recorded_machine profiles d0 ctx_at m"
  then show "Replay profiles d0 (mc_history m) (Some ctx_at) = Inr (mc_current m)"
    using recorded_machine_replay by (fastforce simp: Replay_def Let_def)
next
  assume "Replay profiles d0 rs (Some ctx_at) = Inr d"
  then obtain m0 m' where "NewMachine profiles d0 (ctx_at (zero_Record\<lparr>rc_To := d0\<rparr>)) = Inr m0"
    "replay_records ctx_at m0 rs = Inr m'" "d = mc_current m'"
    by (auto simp: Replay_def Let_def)
  then show "chained d0 rs d"
    and "\<forall>r\<in>set rs. Check (rc_To r) (ctx_at r) = None \<and> keeps_dimensions (rc_From r) (rc_To r)
           \<and> governed_move (assigned profiles) (rc_GovernanceDecisionRef r) (rc_From r) (rc_To r)"
    using replay_records_legal NewMachine_fields by fastforce+
qed

subsection \<open>Terminal states\<close>

type_synonym command = "Dimensions \<times> Context \<times> TransitionRecord"

definition Apply_command :: "Machine \<Rightarrow> command \<Rightarrow> lifecycle_error + Machine" where
  "Apply_command m c = (case c of (nxt, ctx, rec) \<Rightarrow> Apply m nxt ctx rec)"

text \<open>A dimension that rests in a terminal state of its profile.\<close>

definition settled :: "(Dimension \<rightharpoonup> Profile) \<Rightarrow> Dimensions \<Rightarrow> Dimension \<Rightarrow> StateID \<Rightarrow> Machine \<Rightarrow> bool" where
  "settled ps d0 d s m \<longleftrightarrow> machine_ok ps d0 m \<and> d \<in> set AllDimensions
     \<and> (\<exists>p. ps d = Some p \<and> s \<in> set (pf_Terminal p)) \<and> Dimensions_State (mc_current m) d = s"

lemma assignment_check_publishable:
  "assignment_check ps d = None \<longleftrightarrow> (\<exists>p. ps d = Some p \<and> publishable p \<and> pf_Dimension p = d)"
  by (auto simp: assignment_check_def profile_valid_iff split: option.splits)

lemma publishable_terminal:
  "publishable p \<Longrightarrow> s \<in> set (pf_Terminal p) \<Longrightarrow> Profile_Rule p s s' = None"
  by (auto simp: publishable_def Profile_Rule_def find_None_iff)

lemma Apply_moves:
  "Apply m nxt ctx rec = Inr m' \<Longrightarrow>
     mc_current m' = nxt \<and> governed_move (mc_profiles m) (rc_GovernanceDecisionRef rec) (mc_current m) nxt"
  by (auto simp: Apply_Inr_iff)

lemma settled_step:
  assumes "settled ps d0 d s m" and "Apply m nxt ctx rec = Inr m'"
  shows "settled ps d0 d s m'"
proof -
  obtain p where p: "ps d = Some p" "s \<in> set (pf_Terminal p)" "publishable p" "d \<in> set AllDimensions"
    and ok: "machine_ok ps d0 m" "Dimensions_State (mc_current m) d = s"
    using assms(1) by (auto simp: settled_def machine_ok_def assignment_check_publishable)
  have "Dimensions_State nxt d = s"
    using Apply_moves [OF assms(2)] p ok publishable_terminal [OF p(3,2)]
    by (auto simp: governed_move_def machine_ok_def)
  then show ?thesis
    using assms Apply_moves [OF assms(2)] Apply_ok [OF ok(1) assms(2)] by (simp add: settled_def)
qed

interpretation machine_commands: command_system Apply_command "machine_ok ps d0" for ps d0
  by unfold_locales (auto simp: Apply_command_def intro: Apply_ok)

interpretation settled_commands: command_system Apply_command "settled ps d0 d s" for ps d0 d s
  by unfold_locales (auto simp: Apply_command_def intro: settled_step)

text \<open>
  C31: terminal states are final. Once a dimension of a machine rests in a state that its profile
  declares terminal, no sequence of accepted transitions moves that dimension again.
\<close>

theorem terminal_states_are_final:
  assumes "reachable_machine profiles d0 m" and "d \<in> set AllDimensions"
    and "assigned profiles d = Some p" and "Dimensions_State (mc_current m) d \<in> set (pf_Terminal p)"
    and "run_cmds Apply_command m cmds = Inr m'"
  shows "Dimensions_State (mc_current m') d = Dimensions_State (mc_current m) d"
proof -
  have "settled (assigned profiles) d0 d (Dimensions_State (mc_current m) d) m"
    using assms reachable_machine_ok by (simp add: settled_def)
  from settled_commands.run_keeps [OF this assms(5)] show ?thesis
    by (simp add: settled_def)
qed

lemma terminal_request_names:
  "state_id requestNames r \<in> set (pf_Terminal requestProfile) \<longleftrightarrow>
     r \<in> {RequestRejected, RequestWithdrawn, RequestCancelled, RequestSuperseded}"
  by (cases r) (simp_all add: state_id_def requestNames_def requestProfile_def)

lemma Check_keeps_rule: "Check d c = None \<Longrightarrow> \<not> breaks d c r"
  by (simp add: Check_def no_violation_iff split: if_splits)

lemma machine_ok_terminal_idle:
  assumes "machine_ok ps d0 m"
    and "dm_Request (mc_current m) \<in> {RequestRejected, RequestWithdrawn, RequestCancelled, RequestSuperseded}"
  shows "dm_Execution (mc_current m) \<noteq> ExecutionExecuting"
proof -
  obtain c where "Check (mc_current m) c = None"
    using assms(1) by (auto simp: machine_ok_def)
  from Check_keeps_rule [OF this, of RuleTerminalCannotExecute] assms(2) show ?thesis
    by auto
qed

text \<open>
  Under the kernel profiles, an intent whose request was rejected, withdrawn, cancelled or
  superseded stays so and never executes again, whatever transitions follow.
\<close>

theorem terminated_request_never_executes:
  assumes "reachable_machine None d0 m"
    and "dm_Request (mc_current m) \<in> {RequestRejected, RequestWithdrawn, RequestCancelled, RequestSuperseded}"
    and "run_cmds Apply_command m cmds = Inr m'"
  shows "dm_Request (mc_current m') = dm_Request (mc_current m)
    \<and> dm_Execution (mc_current m') \<noteq> ExecutionExecuting"
proof -
  let ?s = "state_id requestNames (dm_Request (mc_current m))"
  have "settled KernelProfiles d0 DimensionRequest ?s m"
    using assms(2) reachable_machine_ok [OF assms(1)] terminal_request_names
    by (simp add: settled_def assigned_def AllDimensions_def)
  from settled_commands.run_keeps [OF this assms(3)]
  have ok: "machine_ok KernelProfiles d0 m'"
    and "state_id requestNames (dm_Request (mc_current m')) = ?s"
    by (simp_all add: settled_def)
  moreover have "state_valid requestNames (dm_Request (mc_current m))"
    using assms(2) by (auto simp: state_valid_request)
  ultimately have same: "dm_Request (mc_current m') = dm_Request (mc_current m)"
    using state_id_inj_request by metis
  then show ?thesis
    using machine_ok_terminal_idle [OF ok] assms(2) by simp
qed

subsection \<open>Narrowing\<close>

definition narrowing :: "(Dimension \<rightharpoonup> Profile) \<Rightarrow> (Dimension \<rightharpoonup> Profile) \<Rightarrow> bool" where
  "narrowing ps bs \<longleftrightarrow>
     (\<forall>d\<in>set AllDimensions. case (ps d, bs d) of (Some p, Some b) \<Rightarrow> Narrows p b = None | _ \<Rightarrow> False)"

lemma narrowing_rule:
  assumes "narrowing ps bs" and "d \<in> set AllDimensions" and "ps d = Some p" and "Profile_Rule p a b = Some t"
  shows "\<exists>p' t'. bs d = Some p' \<and> Profile_Rule p' a b = Some t'"
proof -
  obtain p' where p': "bs d = Some p'" "Narrows p p' = None"
    using assms(1-3) by (auto simp: narrowing_def split: option.splits)
  have "(a, b) \<in> edge_rel (pf_Transitions p)"
    using assms(4) Profile_Rule_None [of p a b] by auto
  then have "Profile_Rule p' a b \<noteq> None"
    using p'(2) by (auto simp: Profile_Rule_None Narrows_iff)
  with p'(1) show ?thesis by auto
qed

lemma stamped_retained:
  "rc_RetentionClass rec \<noteq> [] \<Longrightarrow> stamped (m\<lparr>mc_profiles := ps\<rparr>) nxt rules rec = stamped m nxt rules' rec"
  by (simp add: stamped_def)

text \<open>
  C32: a domain profile that narrows the kernel's can only forbid. Every transition that a machine with
  narrowed profiles accepts is accepted by the machine with the base profiles, with the same record and
  the same result, provided that the record names its governance decision and its retention class.
\<close>

theorem narrowed_machine_refines_base:
  assumes "narrowing ps bs" and "mc_profiles m = ps" and "Apply m nxt ctx rec = Inr m'"
    and "rc_GovernanceDecisionRef rec \<noteq> []" and "rc_RetentionClass rec \<noteq> []"
  shows "Apply (m\<lparr>mc_profiles := bs\<rparr>) nxt ctx rec = Inr (m'\<lparr>mc_profiles := bs\<rparr>)"
proof -
  let ?b = "m\<lparr>mc_profiles := bs\<rparr>"
  obtain rules where r: "Preserves (mc_current m) nxt = None" "Check nxt ctx = None"
    "governed_move ps (rc_GovernanceDecisionRef rec) (mc_current m) nxt"
    "History_Append (mc_history m) (stamped m nxt rules rec) = Inr (mc_history m @ [stamped m nxt rules rec])"
    "m' = m\<lparr>mc_history := mc_history m @ [stamped m nxt rules rec], mc_current := nxt\<rparr>"
    using assms(2,3) by (auto simp: Apply_Inr_iff)
  have gov: "governed_move bs (rc_GovernanceDecisionRef rec) (mc_current m) nxt"
    using r(3) narrowing_rule [OF assms(1)] assms(4) unfolding governed_move_def by meson
  then obtain rules' where rules': "declaredEdges ?b (mc_current m) nxt = Inr rules'"
    using edges_of_moves_total [of bs "mc_current m" nxt AllDimensions]
    by (auto simp: governed_move_def declaredEdges_def)
  show ?thesis
    using r gov rules' stamped_retained [OF assms(5), where m = m and ps = bs and nxt = nxt and rules = rules' and rules' = rules]
    by (simp add: Apply_Inr_iff)
qed

subsection \<open>A concrete intent\<close>

definition demo_record :: TransitionRecord where
  "demo_record = zero_Record\<lparr>rc_At := \<lparr>i_set = True, i_sec = 0, i_nsec = 0\<rparr>, rc_Actor := ''u1''\<rparr>"

definition request_at :: "RequestState \<Rightarrow> Dimensions" where
  "request_at r = zero_Dimensions\<lparr>dm_Request := r\<rparr>"

definition demo_path :: "command list" where
  "demo_path = [(request_at RequestDraft, zero_Context, demo_record),
                (request_at RequestCancelled, zero_Context, demo_record)]"

definition demo_start :: "lifecycle_error + Machine" where
  "demo_start = NewMachine None zero_Dimensions zero_Context"

definition demo_machine :: Machine where
  "demo_machine = projr (run_cmds Apply_command (projr demo_start) demo_path)"

interpretation reachable_commands: command_system Apply_command "reachable_machine ps d0" for ps d0
  by unfold_locales (auto simp: Apply_command_def intro: reachable_machine.applied)

lemma demo_runs:
  "NewMachine None zero_Dimensions zero_Context = Inr (projr demo_start)"
  "run_cmds Apply_command (projr demo_start) demo_path = Inr demo_machine"
proof -
  have "\<not> isl demo_start" "\<not> isl (run_cmds Apply_command (projr demo_start) demo_path)"
    by code_simp+
  then show "NewMachine None zero_Dimensions zero_Context = Inr (projr demo_start)"
    "run_cmds Apply_command (projr demo_start) demo_path = Inr demo_machine"
    by (auto simp: demo_start_def demo_machine_def sum.collapse(2))
qed

lemma demo_current: "mc_current demo_machine = request_at RequestCancelled"
  by code_simp

lemma demo_length: "length (mc_history demo_machine) = 2"
  by code_simp

lemma demo_reachable: "reachable_machine None zero_Dimensions demo_machine"
  using demo_runs reachable_machine.created reachable_commands.run_keeps by blast

lemma recorded_run:
  "recorded_machine ps d0 (\<lambda>_. k) m \<Longrightarrow> run_cmds Apply_command m cs = Inr m'
   \<Longrightarrow> (\<And>c. c \<in> set cs \<Longrightarrow> fst (snd c) = k) \<Longrightarrow> recorded_machine ps d0 (\<lambda>_. k) m'"
proof (induction cs arbitrary: m)
  case (Cons c cs)
  then obtain m1 where m1: "Apply_command m c = Inr m1" "run_cmds Apply_command m1 cs = Inr m'"
    by auto
  then have "recorded_machine ps d0 (\<lambda>_. k) m1"
    using Cons.prems(1) Cons.prems(3) [of c]
    by (auto simp: Apply_command_def split: prod.splits intro: recorded_machine.moved)
  then show ?case
    using Cons m1(2) by auto
qed simp

lemma demo_recorded: "recorded_machine None zero_Dimensions (\<lambda>_. zero_Context) demo_machine"
  by (rule recorded_run [OF recorded_machine.seeded demo_runs(2)])
    (auto simp: demo_runs(1) demo_path_def)

text \<open>The demonstration intent has two records, the second numbered two.\<close>

theorem machine_history_is_governed_chain_witness:
  "chained zero_Dimensions (mc_history demo_machine) (request_at RequestCancelled)
   \<and> rc_Sequence (mc_history demo_machine ! 1) = 2 \<and> rc_RetentionClass (mc_history demo_machine ! 1) \<noteq> []"
  using machine_history_is_governed_chain [OF demo_reachable] demo_current demo_length
  by (simp add: Let_def)

theorem replay_rebuilds_exactly_legal_histories_witness:
  "Replay None zero_Dimensions (mc_history demo_machine) (Some (\<lambda>_. zero_Context)) = Inr (request_at RequestCancelled)
   \<and> chained zero_Dimensions (mc_history demo_machine) (request_at RequestCancelled)
   \<and> list_all (\<lambda>r. Check (rc_To r) zero_Context = None) (mc_history demo_machine)"
proof -
  have replayed: "Replay None zero_Dimensions (mc_history demo_machine) (Some (\<lambda>_. zero_Context)) = Inr (request_at RequestCancelled)"
    using replay_rebuilds_exactly_legal_histories [of None zero_Dimensions "\<lambda>_. zero_Context" demo_machine]
      demo_recorded demo_current by simp
  then show ?thesis
    using replay_rebuilds_exactly_legal_histories [of None zero_Dimensions "\<lambda>_. zero_Context" demo_machine
        "mc_history demo_machine" "request_at RequestCancelled"] by (simp add: list_all_iff)
qed

text \<open>Work may still be planned for a cancelled request, but the request stays cancelled.\<close>

definition demo_later :: "command list" where
  "demo_later = [((request_at RequestCancelled)\<lparr>dm_Execution := ExecutionNotPlanned\<rparr>, zero_Context, demo_record)]"

definition demo_after :: Machine where
  "demo_after = projr (run_cmds Apply_command demo_machine demo_later)"

lemma demo_after_runs: "run_cmds Apply_command demo_machine demo_later = Inr demo_after"
proof -
  have "\<not> isl (run_cmds Apply_command demo_machine demo_later)"
    by code_simp
  then show ?thesis
    by (simp add: demo_after_def sum.collapse(2))
qed

lemma demo_cancelled_terminal:
  "Dimensions_State (mc_current demo_machine) DimensionRequest \<in> set (pf_Terminal requestProfile)"
  by code_simp

theorem terminal_states_are_final_witness:
  "Dimensions_State (mc_current demo_after) DimensionRequest = ''CANCELLED''"
  using terminal_states_are_final [OF demo_reachable _ _ demo_cancelled_terminal demo_after_runs]
  by (simp add: assigned_def AllDimensions_def demo_current request_at_def state_id_def requestNames_def)

theorem terminated_request_never_executes_witness:
  "dm_Request (mc_current demo_after) = RequestCancelled \<and> dm_Execution (mc_current demo_after) \<noteq> ExecutionExecuting"
  using terminated_request_never_executes [OF demo_reachable _ demo_after_runs]
  by (simp add: demo_current request_at_def)

text \<open>A narrowing that forbids cancelling a draft.\<close>

definition strict_request :: Profile where
  "strict_request = requestProfile\<lparr>pf_ID := ''domain.request/v1'',
     pf_Transitions := filter (\<lambda>t. (tr_From t, tr_To t) \<noteq> (''DRAFT'', ''CANCELLED'')) (pf_Transitions requestProfile)\<rparr>"

definition strict_profiles :: "Dimension \<rightharpoonup> Profile" where
  "strict_profiles = KernelProfiles(DimensionRequest \<mapsto> strict_request)"

definition strict_machine :: Machine where
  "strict_machine = projr (NewMachine (Some strict_profiles) zero_Dimensions zero_Context)"

definition strict_record :: TransitionRecord where
  "strict_record = demo_record\<lparr>rc_GovernanceDecisionRef := ''g1'', rc_RetentionClass := ''R''\<rparr>"

lemma strict_narrowing: "narrowing strict_profiles KernelProfiles"
  by code_simp

lemma strict_applies:
  "\<not> isl (NewMachine (Some strict_profiles) zero_Dimensions zero_Context)
   \<and> \<not> isl (Apply strict_machine (request_at RequestDraft) zero_Context strict_record)"
  by code_simp

theorem narrowed_machine_refines_base_witness:
  "\<exists>m'. Apply (strict_machine\<lparr>mc_profiles := KernelProfiles\<rparr>) (request_at RequestDraft) zero_Context strict_record = Inr m'
     \<and> mc_current m' = request_at RequestDraft"
proof -
  obtain m' where m': "Apply strict_machine (request_at RequestDraft) zero_Context strict_record = Inr m'"
    using strict_applies by (cases "Apply strict_machine (request_at RequestDraft) zero_Context strict_record") auto
  have "NewMachine (Some strict_profiles) zero_Dimensions zero_Context = Inr strict_machine"
    using strict_applies by (simp add: strict_machine_def sum.collapse(2))
  then have "mc_profiles strict_machine = strict_profiles"
    by (auto dest: NewMachine_fields simp: assigned_def)
  from narrowed_machine_refines_base [OF strict_narrowing this m'] Apply_moves [OF m'] show ?thesis
    by (simp add: strict_record_def)
qed

subsection \<open>Narrowing and governance\<close>

text \<open>A profile with the kernel's states and edges in which no edge requires governance.\<close>

definition lax_request :: Profile where
  "lax_request = requestProfile\<lparr>pf_ID := ''domain.request/v1'',
     pf_Transitions := map (tr_RequiresGovernance_update (\<lambda>_. False)) (pf_Transitions requestProfile)\<rparr>"

definition lax_profiles :: "Dimension \<rightharpoonup> Profile" where
  "lax_profiles = KernelProfiles(DimensionRequest \<mapsto> lax_request)"

definition approve_in :: "(Dimension \<rightharpoonup> Profile) option \<Rightarrow> lifecycle_error + Machine" where
  "approve_in profiles = bind_res (NewMachine profiles (request_at RequestSubmitted) zero_Context)
     (\<lambda>m. Apply m (request_at RequestApproved) zero_Context demo_record)"

text \<open>
  C33: narrowing does not look at governance. The profile \<open>lax_request\<close> validates and passes \<open>Narrows\<close>
  against the kernel's request profile, yet with it a submitted request is approved by a record that
  names no governance decision, which the kernel's machine refuses as a bypass of governance.
\<close>

theorem narrowing_can_drop_governance:
  "Profile_Validate lax_request = None \<and> Narrows lax_request requestProfile = None
   \<and> rc_GovernanceDecisionRef demo_record = []
   \<and> approve_in None = Inl ErrGovernanceBypassed
   \<and> (\<exists>m. approve_in (Some lax_profiles) = Inr m \<and> dm_Request (mc_current m) = RequestApproved)"
proof -
  have "Profile_Validate lax_request = None" "Narrows lax_request requestProfile = None"
    "rc_GovernanceDecisionRef demo_record = []"
    by code_simp+
  moreover have "case approve_in None of Inl e \<Rightarrow> e = ErrGovernanceBypassed | Inr _ \<Rightarrow> False"
    by code_simp
  moreover have "case approve_in (Some lax_profiles) of Inl e \<Rightarrow> False | Inr m \<Rightarrow> dm_Request (mc_current m) = RequestApproved"
    by code_simp
  ultimately show ?thesis
    by (auto split: sum.splits)
qed

end
