(* ===== verification/Conflict_Footprint.thy ===== *)
theory Conflict_Footprint
  imports Values_Interval "HOL-Library.Sublist"
begin

text \<open>
  Package \<open>internal/transaction/conflict\<close>, files \<open>errors.go\<close> and \<open>footprint.go\<close>: field paths, alias
  tables, and the normalised write footprints that proposals declare.

  The identifier libraries \<open>L\<close> and the digest function \<open>sum256\<close> are parameters; a map from aliases
  to paths is an association list, whose length bounds the walk of \<open>Resolve\<close>. What is proved: \<open>Resolve\<close>
  returns on every table and is idempotent, the ancestor test is the strict prefix order on
  segments, two footprints overlap exactly when some field and some point of time lie in both, and
  the scope encoding determines the scope.
\<close>

datatype conflict_error =
    ErrInvalidFootprint | ErrInvalidCandidate | ErrNoOverlap
  | ErrInvalidIntent | ErrIntentConflict | ErrStaleBaseline string | ErrFence | ErrAlreadyTerminal
  | IntervalError verr | NilDereference

type_synonym FieldPath = string

definition FieldPath_Validate :: "FieldPath \<Rightarrow> conflict_error option" where
  "FieldPath_Validate p =
     first_err (reject (p = []) ErrInvalidFootprint)
       (err_loop (\<lambda>seg. reject (seg = []) ErrInvalidFootprint) (split CHR ''.'' p))"

definition IsAncestorOf :: "FieldPath \<Rightarrow> FieldPath \<Rightarrow> bool" where
  "IsAncestorOf p other =
     (let pSegs = split CHR ''.'' p; oSegs = split CHR ''.'' other in
      if length oSegs \<le> length pSegs then False
      else list_all (\<lambda>i. oSegs ! i = pSegs ! i) [0..<length pSegs])"

definition FieldPath_Overlaps :: "FieldPath \<Rightarrow> FieldPath \<Rightarrow> bool" where
  "FieldPath_Overlaps p other \<longleftrightarrow> p = other \<or> IsAncestorOf p other \<or> IsAncestorOf other p"

record FieldAliasTable =
  at_RuleRef :: string
  at_Version :: string
  at_Aliases :: "(FieldPath \<times> FieldPath) list"

function resolve_walk :: "(FieldPath \<times> FieldPath) list \<Rightarrow> FieldPath list \<Rightarrow> FieldPath \<Rightarrow> FieldPath" where
  "resolve_walk aliases seen cur =
     (case map_of aliases cur of
        None \<Rightarrow> cur
      | Some nxt \<Rightarrow> if nxt = cur \<or> cur \<in> set seen then cur else resolve_walk aliases (cur # seen) nxt)"
  by pat_completeness auto
termination
proof (relation "measure (\<lambda>(aliases, seen, cur). card (dom (map_of aliases) - set seen))", goal_cases)
  case (2 aliases seen cur nxt)
  then have "cur \<in> dom (map_of aliases) - set seen"
    by auto
  moreover have "dom (map_of aliases) - set (cur # seen) = (dom (map_of aliases) - set seen) - {cur}"
    by auto
  ultimately show ?case
    using card_Diff1_less [of "dom (map_of aliases) - set seen" cur] by (simp add: finite_dom_map_of)
qed simp

declare resolve_walk.simps [simp del]

definition Resolve :: "FieldAliasTable \<Rightarrow> FieldPath \<Rightarrow> FieldPath" where
  "Resolve t p = resolve_walk (at_Aliases t) [] p"

datatype Operation =
    OperationUnspecified | OperationCreate | OperationUpdate | OperationDelete | OperationUpsert
  | OperationOther string

fun Operation_text :: "Operation \<Rightarrow> string" where
  "Operation_text OperationUnspecified = []"
| "Operation_text OperationCreate = ''CREATE''"
| "Operation_text OperationUpdate = ''UPDATE''"
| "Operation_text OperationDelete = ''DELETE''"
| "Operation_text OperationUpsert = ''UPSERT''"
| "Operation_text (OperationOther s) = s"

definition Operation_Valid :: "Operation \<Rightarrow> bool" where
  "Operation_Valid op \<longleftrightarrow> op \<in> {OperationCreate, OperationUpdate, OperationDelete, OperationUpsert}"

record AuthorityScope =
  as_Domain :: string
  as_PolicyRef :: string

definition AuthorityScope_Validate :: "AuthorityScope \<Rightarrow> conflict_error option" where
  "AuthorityScope_Validate s = reject (as_Domain s = [] \<or> as_PolicyRef s = []) ErrInvalidFootprint"

record WriteFootprint =
  fp_Resource :: ResourceKey
  fp_Field :: FieldPath
  fp_Interval :: EffectiveInterval
  fp_Operation :: Operation
  fp_ExpectedRevision :: RevisionToken
  fp_Authority :: AuthorityScope

definition WriteFootprint_Validate :: "'u id_libs \<Rightarrow> WriteFootprint \<Rightarrow> conflict_error option" where
  "WriteFootprint_Validate L w =
     first_err (reject (ResourceKey_Validate L (fp_Resource w) \<noteq> None) ErrInvalidFootprint)
      (first_err (FieldPath_Validate (fp_Field w))
       (first_err (reject (EffectiveInterval_Validate (fp_Interval w) \<noteq> None) ErrInvalidFootprint)
        (first_err (reject (\<not> Operation_Valid (fp_Operation w)) ErrInvalidFootprint)
         (first_err (reject (\<not> rt_specified (fp_ExpectedRevision w)) ErrInvalidFootprint)
           (AuthorityScope_Validate (fp_Authority w))))))"

definition NormalizeFootprint :: "'u id_libs \<Rightarrow> WriteFootprint \<Rightarrow> FieldAliasTable \<Rightarrow> conflict_error + WriteFootprint" where
  "NormalizeFootprint L raw aliases =
     (let raw' = raw\<lparr>fp_Field := Resolve aliases (fp_Field raw)\<rparr>
      in guard_res (WriteFootprint_Validate L raw') (Inr raw'))"

definition WriteFootprint_Overlaps :: "'u id_libs \<Rightarrow> WriteFootprint \<Rightarrow> WriteFootprint \<Rightarrow> conflict_error + bool" where
  "WriteFootprint_Overlaps L w other =
     guard_res (WriteFootprint_Validate L w) (guard_res (WriteFootprint_Validate L other)
      (if \<not> ResourceKey_Equal (fp_Resource w) (fp_Resource other) then Inr False
       else if \<not> FieldPath_Overlaps (fp_Field w) (fp_Field other) then Inr False
       else (case Overlaps (fp_Interval w) (fp_Interval other) of Inl e \<Rightarrow> Inl (IntervalError e) | Inr b \<Rightarrow> Inr b)))"

subsection \<open>Canonical bytes and digests\<close>

definition enc_str :: "bytes \<Rightarrow> bytes" where
  "enc_str s = uvarint (length s) @ s"

definition footprintMagic :: string where
  "footprintMagic = ''hcmnext.transaction.conflict.write_footprint.v1''"

definition WriteFootprint_Canonical :: "'u id_libs \<Rightarrow> WriteFootprint \<Rightarrow> bytes" where
  "WriteFootprint_Canonical L w =
     (if WriteFootprint_Validate L w \<noteq> None then []
      else enc_str footprintMagic @ enc_str (ResourceKey_Canonical L (fp_Resource w)) @ enc_str (fp_Field w)
        @ enc_str (EffectiveInterval_Canonical (fp_Interval w)) @ enc_str (Operation_text (fp_Operation w))
        @ enc_str (RevisionToken_Canonical L (fp_ExpectedRevision w))
        @ enc_str (as_Domain (fp_Authority w)) @ enc_str (as_PolicyRef (fp_Authority w)))"

definition WriteFootprint_Digest :: "(bytes \<Rightarrow> bytes) \<Rightarrow> 'u id_libs \<Rightarrow> WriteFootprint \<Rightarrow> string" where
  "WriteFootprint_Digest sum256 L w =
     (let b = WriteFootprint_Canonical L w in if b = [] then [] else hex_encode (sum256 b))"

definition scope_bytes :: "'u id_libs \<Rightarrow> WriteFootprint \<Rightarrow> bytes" where
  "scope_bytes L w =
     enc_str ''hcmnext.transaction.conflict.write_scope.v1'' @ enc_str (ResourceKey_Canonical L (fp_Resource w))
     @ enc_str (fp_Field w) @ enc_str (EffectiveInterval_Canonical (fp_Interval w))
     @ enc_str (Operation_text (fp_Operation w)) @ enc_str (as_Domain (fp_Authority w))
     @ enc_str (as_PolicyRef (fp_Authority w))"

definition ScopeDigest :: "(bytes \<Rightarrow> bytes) \<Rightarrow> 'u id_libs \<Rightarrow> WriteFootprint \<Rightarrow> string" where
  "ScopeDigest sum256 L w =
     (if WriteFootprint_Validate L w \<noteq> None then [] else hex_encode (sum256 (scope_bytes L w)))"

subsection \<open>Alias resolution\<close>

lemma resolve_walk_fewer_seen:
  "set seen' \<subseteq> set seen \<Longrightarrow> (resolve_walk a seen cur \<in> set seen \<longrightarrow> resolve_walk a seen cur \<in> set seen')
   \<Longrightarrow> resolve_walk a seen' cur = resolve_walk a seen cur"
proof (induction a seen cur arbitrary: seen' rule: resolve_walk.induct)
  case (1 a seen cur)
  show ?case
  proof (cases "map_of a cur")
    case None
    then show ?thesis by (simp add: resolve_walk.simps)
  next
    case (Some nxt)
    show ?thesis
    proof (cases "nxt = cur \<or> cur \<in> set seen")
      case True
      then have "resolve_walk a seen cur = cur"
        using Some by (subst resolve_walk.simps) auto
      with True Some 1(3) show ?thesis
        by (subst resolve_walk.simps) auto
    next
      case False
      then have step: "resolve_walk a seen cur = resolve_walk a (cur # seen) nxt"
        "resolve_walk a seen' cur = resolve_walk a (cur # seen') nxt"
        using Some 1(2) by (subst resolve_walk.simps, auto)+
      have "resolve_walk a (cur # seen') nxt = resolve_walk a (cur # seen) nxt"
        using 1(2,3) False by (intro "1.IH" [OF Some]) (auto simp: step)
      with step show ?thesis by simp
    qed
  qed
qed

lemma resolve_walk_fixed:
  "(\<And>s. s \<in> set seen \<Longrightarrow> \<exists>seen'. s \<notin> set seen' \<and> resolve_walk a seen' s = resolve_walk a seen cur)
   \<Longrightarrow> resolve_walk a [] (resolve_walk a seen cur) = resolve_walk a seen cur"
proof (induction a seen cur rule: resolve_walk.induct)
  case (1 a seen cur)
  show ?case
  proof (cases "map_of a cur = None \<or> map_of a cur = Some cur")
    case True
    then have "resolve_walk a seen' cur = cur" for seen'
      by (subst resolve_walk.simps) auto
    then show ?thesis by simp
  next
    case False
    then obtain nxt where nxt: "map_of a cur = Some nxt" "nxt \<noteq> cur"
      by (cases "map_of a cur") auto
    show ?thesis
    proof (cases "cur \<in> set seen")
      case True
      then have stop: "resolve_walk a seen cur = cur"
        using nxt by (subst resolve_walk.simps) auto
      obtain seen' where s: "cur \<notin> set seen'" "resolve_walk a seen' cur = cur"
        using "1.prems" [OF True] stop by auto
      have "resolve_walk a [] cur = resolve_walk a seen' cur"
        by (rule resolve_walk_fewer_seen) (use s in auto)
      with s stop show ?thesis by simp
    next
      case False
      then have step: "resolve_walk a seen cur = resolve_walk a (cur # seen) nxt"
        using nxt by (subst resolve_walk.simps) auto
      have "resolve_walk a [] (resolve_walk a (cur # seen) nxt) = resolve_walk a (cur # seen) nxt"
      proof (rule "1.IH" [OF nxt(1)])
        show "\<not> (nxt = cur \<or> cur \<in> set seen)"
          using nxt False by simp
        show "\<exists>seen'. s \<notin> set seen' \<and> resolve_walk a seen' s = resolve_walk a (cur # seen) nxt"
          if "s \<in> set (cur # seen)" for s
          using that "1.prems" [of s] False step by auto
      qed
      with step show ?thesis by simp
    qed
  qed
qed

lemma Resolve_idem: "Resolve t (Resolve t p) = Resolve t p"
  unfolding Resolve_def by (rule resolve_walk_fixed) simp

subsection \<open>Field paths as segment prefixes\<close>

lemma IsAncestorOf_prefix: "IsAncestorOf p q \<longleftrightarrow> strict_prefix (split CHR ''.'' p) (split CHR ''.'' q)"
proof -
  have "strict_prefix xs ys \<longleftrightarrow> length xs < length ys \<and> (\<forall>i<length xs. ys ! i = xs ! i)" for xs ys :: "string list"
  proof
    assume "strict_prefix xs ys"
    then show "length xs < length ys \<and> (\<forall>i<length xs. ys ! i = xs ! i)"
      by (auto simp: strict_prefix_def prefix_def nth_append)
  next
    assume r: "length xs < length ys \<and> (\<forall>i<length xs. ys ! i = xs ! i)"
    then have "take (length xs) ys = xs"
      by (intro nth_equalityI) auto
    with r show "strict_prefix xs ys"
      by (metis take_is_prefix strict_prefix_def less_irrefl)
  qed
  then show ?thesis
    by (auto simp: IsAncestorOf_def Let_def list_all_iff)
qed

definition covers :: "FieldPath \<Rightarrow> FieldPath \<Rightarrow> bool" where
  "covers p f \<longleftrightarrow> prefix (split CHR ''.'' p) (split CHR ''.'' f)"

lemma split_inj: "split sep p = split sep q \<Longrightarrow> p = q"
  by (metis join_split)

lemma FieldPath_Overlaps_iff: "FieldPath_Overlaps p q \<longleftrightarrow> (\<exists>f. covers p f \<and> covers q f)"
proof
  assume "FieldPath_Overlaps p q"
  then show "\<exists>f. covers p f \<and> covers q f"
    by (auto simp: FieldPath_Overlaps_def IsAncestorOf_prefix covers_def strict_prefix_def)
next
  assume "\<exists>f. covers p f \<and> covers q f"
  then have "prefix (split CHR ''.'' p) (split CHR ''.'' q) \<or> prefix (split CHR ''.'' q) (split CHR ''.'' p)"
    using prefix_same_cases by (auto simp: covers_def)
  then show "FieldPath_Overlaps p q"
    using split_inj by (auto simp: FieldPath_Overlaps_def IsAncestorOf_prefix strict_prefix_def)
qed

lemma FieldPath_Overlaps_sym: "FieldPath_Overlaps p q \<longleftrightarrow> FieldPath_Overlaps q p"
  by (auto simp: FieldPath_Overlaps_def)

subsection \<open>Overlapping footprints\<close>

lemma ResourceKey_Equal_iff [simp]: "ResourceKey_Equal k l \<longleftrightarrow> k = l"
  by (cases k; cases l) (auto simp: ResourceKey_Equal_def)

lemma WriteFootprint_Validate_iff:
  "WriteFootprint_Validate L w = None \<longleftrightarrow>
     ResourceKey_Validate L (fp_Resource w) = None \<and> FieldPath_Validate (fp_Field w) = None
     \<and> EffectiveInterval_Validate (fp_Interval w) = None \<and> Operation_Valid (fp_Operation w)
     \<and> rt_specified (fp_ExpectedRevision w) \<and> AuthorityScope_Validate (fp_Authority w) = None"
  by (auto simp: WriteFootprint_Validate_def)

lemma WriteFootprint_Overlaps_sym:
  assumes "WriteFootprint_Validate L w = None" and "WriteFootprint_Validate L v = None"
  shows "WriteFootprint_Overlaps L v w = WriteFootprint_Overlaps L w v"
  using assms Overlaps_sym [of "fp_Interval w" "fp_Interval v"] FieldPath_Overlaps_sym
  by (auto simp: WriteFootprint_Overlaps_def WriteFootprint_Validate_iff)

text \<open>
  C6: overlap of write footprints. Two valid footprints overlap exactly when they name one resource,
  some field lies under both paths, whole segments compared, and some date or instant lies in both
  effective intervals; the answer does not depend on the order of the two. Only when resource and
  fields meet but one interval is of dates and the other of instants is the question refused.
\<close>

theorem footprint_overlap_iff_shared_write:
  assumes "WriteFootprint_Validate L w = None" and "WriteFootprint_Validate L v = None"
  shows "WriteFootprint_Overlaps L w v =
      (if fp_Resource w \<noteq> fp_Resource v \<or> \<not> (\<exists>f. covers (fp_Field w) f \<and> covers (fp_Field v) f) then Inr False
       else if iv_kind (fp_Interval w) \<noteq> iv_kind (fp_Interval v) then Inl (IntervalError (IvErr ErrIntervalKindMismatch))
       else Inr ((\<exists>d. ContainsDate (fp_Interval w) d = Inr True \<and> ContainsDate (fp_Interval v) d = Inr True)
               \<or> (\<exists>i. ContainsInstant (fp_Interval w) i = Inr True \<and> ContainsInstant (fp_Interval v) i = Inr True)))
    \<and> WriteFootprint_Overlaps L v w = WriteFootprint_Overlaps L w v"
proof -
  have "EffectiveInterval_Validate (fp_Interval w) = None" "EffectiveInterval_Validate (fp_Interval v) = None"
    using assms by (simp_all add: WriteFootprint_Validate_iff)
  from Overlaps_shared [OF this] WriteFootprint_Overlaps_sym [OF assms] show ?thesis
    using assms by (simp add: WriteFootprint_Overlaps_def FieldPath_Overlaps_iff)
qed

definition alias_rel :: "(FieldPath \<times> FieldPath) list \<Rightarrow> (FieldPath \<times> FieldPath) set" where
  "alias_rel a = {(p, q). map_of a p = Some q \<and> p \<noteq> q}"

lemma resolve_walk_reaches: "(cur, resolve_walk a seen cur) \<in> (alias_rel a)\<^sup>*"
proof (induction a seen cur rule: resolve_walk.induct)
  case (1 a seen cur)
  show ?case
  proof (cases "\<exists>nxt. map_of a cur = Some nxt \<and> nxt \<noteq> cur \<and> cur \<notin> set seen")
    case False
    then have "resolve_walk a seen cur = cur"
      by (subst resolve_walk.simps) (auto split: option.splits)
    then show ?thesis by simp
  next
    case True
    then obtain nxt where nxt: "map_of a cur = Some nxt" "nxt \<noteq> cur" "cur \<notin> set seen"
      by blast
    then have "resolve_walk a seen cur = resolve_walk a (cur # seen) nxt" "(cur, nxt) \<in> alias_rel a"
      by (subst resolve_walk.simps, auto simp: alias_rel_def)+
    moreover have "(nxt, resolve_walk a (cur # seen) nxt) \<in> (alias_rel a)\<^sup>*"
      using "1.IH" nxt by blast
    ultimately show ?thesis
      by (simp add: converse_rtrancl_into_rtrancl)
  qed
qed

lemma Resolve_along_alias:
  assumes "acyclic (alias_rel (at_Aliases t))" and "map_of (at_Aliases t) p = Some q"
  shows "Resolve t p = Resolve t q"
proof (cases "p = q")
  case False
  let ?w = "resolve_walk (at_Aliases t)"
  have edge: "(p, q) \<in> alias_rel (at_Aliases t)"
    using assms(2) False by (simp add: alias_rel_def)
  have "?w [p] q \<noteq> p"
    using resolve_walk_reaches [of q "at_Aliases t" "[p]"] edge assms(1)
    by (metis acyclic_def rtrancl_into_trancl2)
  then have "?w [] q = ?w [p] q"
    by (intro resolve_walk_fewer_seen) auto
  moreover have "?w [] p = ?w [p] q"
    using assms(2) False by (subst resolve_walk.simps) auto
  ultimately show ?thesis
    by (simp add: Resolve_def)
qed simp

text \<open>
  C22: alias resolution. On every table, cyclic ones included, \<open>Resolve\<close> returns a path that is reached
  from the given one along the aliases, and resolving the result again changes nothing. When no aliases
  form a cycle, an alias and the path it stands for resolve to the same canonical path, so that no
  spelling of a field escapes the comparison.
\<close>

theorem alias_resolution_is_canonical:
  "(p, Resolve t p) \<in> (alias_rel (at_Aliases t))\<^sup>* \<and> Resolve t (Resolve t p) = Resolve t p
   \<and> (acyclic (alias_rel (at_Aliases t)) \<and> map_of (at_Aliases t) p = Some q \<longrightarrow> Resolve t p = Resolve t q)"
  using resolve_walk_reaches Resolve_idem Resolve_along_alias by (simp add: Resolve_def)

theorem alias_resolution_is_canonical_witness:
  "Resolve \<lparr>at_RuleRef = ''r'', at_Version = ''1'', at_Aliases = [(''pay'', ''comp.pay''), (''salary'', ''pay'')]\<rparr> ''salary''
   = Resolve \<lparr>at_RuleRef = ''r'', at_Version = ''1'', at_Aliases = [(''pay'', ''comp.pay''), (''salary'', ''pay'')]\<rparr> ''pay''"
proof -
  let ?a = "[(''pay'', ''comp.pay''), (''salary'', ''pay'')]"
  have rel: "alias_rel ?a = {(''pay'', ''comp.pay''), (''salary'', ''pay'')}"
    by (auto simp: alias_rel_def split: if_splits)
  have "acyclic (alias_rel ?a)"
    unfolding rel by (simp add: acyclic_insert rtrancl_insert wf_acyclic)
  then show ?thesis
    using alias_resolution_is_canonical [of "''salary''" "\<lparr>at_RuleRef = ''r'', at_Version = ''1'', at_Aliases = ?a\<rparr>" "''pay''"]
    by simp
qed

subsection \<open>The encodings identify\<close>

lemma enc_str_append_inj: "enc_str a @ x = enc_str b @ y \<longleftrightarrow> a = b \<and> x = y"
proof
  assume "enc_str a @ x = enc_str b @ y"
  then have "length a = length b \<and> a @ x = b @ y"
    unfolding enc_str_def using uvarint_append_inj [of "length a" "a @ x" "length b" "b @ y"] by simp
  then show "a = b \<and> x = y"
    using append_eq_length_conv by blast
qed simp

lemma enc_str_inj: "enc_str a = enc_str b \<longleftrightarrow> a = b"
  using enc_str_append_inj [of a "[]" b "[]"] by simp

definition built_footprint :: "'u id_libs \<Rightarrow> WriteFootprint \<Rightarrow> bool" where
  "built_footprint L w \<longleftrightarrow> WriteFootprint_Validate L w = None \<and> built_interval (fp_Interval w)"

lemma Operation_text_inj: "Operation_Valid a \<Longrightarrow> Operation_Valid b \<Longrightarrow> Operation_text a = Operation_text b \<Longrightarrow> a = b"
  by (auto simp: Operation_Valid_def)

lemma ResourceKey_Canonical_inj:
  assumes "id_law L" "ResourceKey_Validate L k = None" "ResourceKey_Validate L l = None"
    and "ResourceKey_Canonical L k = ResourceKey_Canonical L l"
  shows "k = l"
  using resource_key.one_meaning [OF assms(1-3)] assms by (simp add: ResourceKey_MarshalText_def)

lemma scope_bytes_inj:
  assumes "id_law L" and "built_footprint L w" and "built_footprint L v" and "scope_bytes L w = scope_bytes L v"
  shows "v\<lparr>fp_ExpectedRevision := fp_ExpectedRevision w\<rparr> = w"
proof -
  have "fp_Resource w = fp_Resource v" "fp_Field w = fp_Field v" "fp_Interval w = fp_Interval v"
    "fp_Operation w = fp_Operation v" "as_Domain (fp_Authority w) = as_Domain (fp_Authority v)"
    "as_PolicyRef (fp_Authority w) = as_PolicyRef (fp_Authority v)"
    using assms ResourceKey_Canonical_inj [of L] interval_canonical_inj Operation_text_inj
    by (simp_all add: scope_bytes_def enc_str_append_inj enc_str_inj built_footprint_def WriteFootprint_Validate_iff)
  then show ?thesis
    by (cases w; cases v; cases "fp_Authority w"; cases "fp_Authority v") auto
qed

lemma scope_bytes_same_overlap:
  assumes "id_law L" and "built_footprint L w" and "built_footprint L v" and "scope_bytes L w = scope_bytes L v"
  shows "WriteFootprint_Overlaps L w v = Inr True"
proof -
  have same: "v = w\<lparr>fp_ExpectedRevision := fp_ExpectedRevision v\<rparr>"
    using scope_bytes_inj [OF assms] by (metis WriteFootprint.update_convs(5) WriteFootprint.surjective
        WriteFootprint.select_convs(5))
  have valid: "EffectiveInterval_Validate (fp_Interval w) = None"
    using assms(2) by (simp add: built_footprint_def WriteFootprint_Validate_iff)
  then have "Overlaps (fp_Interval w) (fp_Interval w) = Inr True"
  proof (cases rule: Validate_cases)
    case date
    then have "ContainsDate (fp_Interval w) (iv_startDate (fp_Interval w)) = Inr True"
      using valid date_line.start_within by (simp add: ContainsDate_within)
    then show ?thesis
      using valid by (auto simp: Overlaps_shared)
  next
    case instant
    then have "ContainsInstant (fp_Interval w) (iv_startInstant (fp_Interval w)) = Inr True"
      using valid instant_line.start_within by (simp add: ContainsInstant_within)
    then show ?thesis
      using valid by (auto simp: Overlaps_shared)
  qed
  moreover have "fp_Resource v = fp_Resource w" "fp_Field v = fp_Field w" "fp_Interval v = fp_Interval w"
    by (subst same, simp)+
  ultimately show ?thesis
    using assms(2,3) by (simp add: WriteFootprint_Overlaps_def built_footprint_def FieldPath_Overlaps_def)
qed

end
