(* ===== verification/Conflict_Classify.thy ===== *)
theory Conflict_Classify
  imports Conflict_Footprint "HOL-Library.Multiset"
begin

text \<open>
  Package \<open>internal/transaction/conflict\<close>, file \<open>classify.go\<close>: classification of two overlapping
  write candidates, and of every overlapping pair of a list.

  A merge rule's proof function is part of the input; a nil function is \<open>None\<close>, and its result
  \<open>(proof, ok)\<close> is an option. \<open>sort.Slice\<close> by rule reference is \<open>sort_key\<close>: the two agree when the
  references are distinct, which the statements about rule order assume.
\<close>

datatype ProposalState =
    ProposalStateUnspecified | ProposalPending | ProposalApproved | ProposalFutureDated | ProposalExecuted
  | ProposalStateOther string

fun ProposalState_text :: "ProposalState \<Rightarrow> string" where
  "ProposalState_text ProposalStateUnspecified = []"
| "ProposalState_text ProposalPending = ''PENDING''"
| "ProposalState_text ProposalApproved = ''APPROVED''"
| "ProposalState_text ProposalFutureDated = ''FUTURE_DATED''"
| "ProposalState_text ProposalExecuted = ''EXECUTED''"
| "ProposalState_text (ProposalStateOther s) = s"

definition ProposalState_Valid :: "ProposalState \<Rightarrow> bool" where
  "ProposalState_Valid s \<longleftrightarrow> s \<in> {ProposalPending, ProposalApproved, ProposalFutureDated, ProposalExecuted}"

record Candidate =
  cd_ProposalRevisionID :: string
  cd_Footprint :: WriteFootprint
  cd_State :: ProposalState
  cd_Priority :: int
  cd_RecordedAt :: Instant
  cd_SupersedesRevisionID :: string
  cd_DependsOnRevisionID :: string

definition Candidate_Validate :: "'u id_libs \<Rightarrow> Candidate \<Rightarrow> conflict_error option" where
  "Candidate_Validate L c =
     first_err (reject (cd_ProposalRevisionID c = []) ErrInvalidCandidate)
      (first_err (WriteFootprint_Validate L (cd_Footprint c))
       (first_err (reject (\<not> ProposalState_Valid (cd_State c)) ErrInvalidCandidate)
         (reject (\<not> i_set (cd_RecordedAt c)) ErrInvalidCandidate)))"

datatype Decision =
    DecisionUnspecified | DecisionCompatibleMerge | DecisionOrderedDependency | DecisionSupersession
  | DecisionHardConflict

record MergeRule =
  mr_RuleRef :: string
  mr_Version :: string
  mr_Proves :: "(Candidate \<Rightarrow> Candidate \<Rightarrow> string option) option"

record Classification =
  cl_Decision :: Decision
  cl_OwnerProposalRevisionID :: string
  cl_EvidenceRef :: string
  cl_Explanation :: string

definition supersession :: "Candidate \<Rightarrow> Candidate \<Rightarrow> Classification" where
  "supersession winner loser =
     \<lparr>cl_Decision = DecisionSupersession, cl_OwnerProposalRevisionID = cd_ProposalRevisionID winner,
      cl_EvidenceRef = ''supersedes:'' @ cd_ProposalRevisionID loser,
      cl_Explanation = cd_ProposalRevisionID winner @ '' declares it supersedes '' @ cd_ProposalRevisionID loser\<rparr>"

definition orderedDependency :: "Candidate \<Rightarrow> Candidate \<Rightarrow> Classification" where
  "orderedDependency prerequisite later =
     \<lparr>cl_Decision = DecisionOrderedDependency,
      cl_OwnerProposalRevisionID = cd_ProposalRevisionID prerequisite,
      cl_EvidenceRef = ''depends_on:'' @ cd_ProposalRevisionID prerequisite,
      cl_Explanation = cd_ProposalRevisionID later @ '' must commit after '' @ cd_ProposalRevisionID prerequisite\<rparr>"

fun first_proof :: "Candidate \<Rightarrow> Candidate \<Rightarrow> MergeRule list \<Rightarrow> (MergeRule \<times> string) option" where
  "first_proof x y [] = None"
| "first_proof x y (rule # rules) =
     (case mr_Proves rule of
        None \<Rightarrow> first_proof x y rules
      | Some proves \<Rightarrow> (case proves x y of Some proof \<Rightarrow> Some (rule, proof) | None \<Rightarrow> first_proof x y rules))"

definition merge_or_conflict :: "Candidate \<Rightarrow> Candidate \<Rightarrow> MergeRule list \<Rightarrow> Classification" where
  "merge_or_conflict x y rules =
     (case first_proof x y (sort_key mr_RuleRef rules) of
        Some (rule, proof) \<Rightarrow>
          \<lparr>cl_Decision = DecisionCompatibleMerge, cl_OwnerProposalRevisionID = [], cl_EvidenceRef = proof,
           cl_Explanation = ''merge rule '' @ mr_RuleRef rule @ ''@'' @ mr_Version rule @ '' proved ''
             @ cd_ProposalRevisionID x @ '' and '' @ cd_ProposalRevisionID y @ '' compatible''\<rparr>
      | None \<Rightarrow>
          \<lparr>cl_Decision = DecisionHardConflict, cl_OwnerProposalRevisionID = [],
           cl_EvidenceRef = ''overlap:'' @ cd_ProposalRevisionID x @ '','' @ cd_ProposalRevisionID y,
           cl_Explanation = cd_ProposalRevisionID x @ '' ('' @ ProposalState_text (cd_State x) @ '') and ''
             @ cd_ProposalRevisionID y @ '' ('' @ ProposalState_text (cd_State y) @ '') write overlapping ''
             @ fp_Field (cd_Footprint x) @ '' with no merge proof, dependency or supersession''\<rparr>)"

definition classify_pair :: "Candidate \<Rightarrow> Candidate \<Rightarrow> MergeRule list \<Rightarrow> Classification" where
  "classify_pair x y rules =
     (if cd_SupersedesRevisionID y = cd_ProposalRevisionID x then supersession y x
      else if cd_SupersedesRevisionID x = cd_ProposalRevisionID y then supersession x y
      else if cd_DependsOnRevisionID y = cd_ProposalRevisionID x then orderedDependency x y
      else if cd_DependsOnRevisionID x = cd_ProposalRevisionID y then orderedDependency y x
      else merge_or_conflict x y rules)"

definition ClassifyConflict :: "'u id_libs \<Rightarrow> Candidate \<Rightarrow> Candidate \<Rightarrow> MergeRule list \<Rightarrow> conflict_error + Classification" where
  "ClassifyConflict L a b rules =
     guard_res (Candidate_Validate L a) (guard_res (Candidate_Validate L b)
      (bind_res (WriteFootprint_Overlaps L (cd_Footprint a) (cd_Footprint b)) (\<lambda>overlap.
        if \<not> overlap then Inl ErrNoOverlap
        else if cd_ProposalRevisionID b < cd_ProposalRevisionID a then Inr (classify_pair b a rules)
        else Inr (classify_pair a b rules))))"

fun classify_with :: "'u id_libs \<Rightarrow> MergeRule list \<Rightarrow> Candidate \<Rightarrow> Candidate list \<Rightarrow> conflict_error + Classification list" where
  "classify_with L rules c [] = Inr []"
| "classify_with L rules c (d # ds) =
     bind_res (WriteFootprint_Overlaps L (cd_Footprint c) (cd_Footprint d)) (\<lambda>overlap.
       if \<not> overlap then classify_with L rules c ds
       else bind_res (ClassifyConflict L c d rules) (\<lambda>k.
         bind_res (classify_with L rules c ds) (\<lambda>ks. Inr (k # ks))))"

fun classify_pairs :: "'u id_libs \<Rightarrow> MergeRule list \<Rightarrow> Candidate list \<Rightarrow> conflict_error + Classification list" where
  "classify_pairs L rules [] = Inr []"
| "classify_pairs L rules (c # cs) =
     bind_res (classify_with L rules c cs) (\<lambda>ks. bind_res (classify_pairs L rules cs) (\<lambda>ls. Inr (ks @ ls)))"

definition ClassifyAll :: "'u id_libs \<Rightarrow> Candidate list \<Rightarrow> MergeRule list \<Rightarrow> conflict_error + Classification list" where
  "ClassifyAll L candidates rules =
     (if length candidates < 2 then Inr []
      else guard_res (err_loop (Candidate_Validate L) candidates) (classify_pairs L rules candidates))"

subsection \<open>Symmetry and the order of rules\<close>

lemma Candidate_Validate_footprint:
  "Candidate_Validate L c = None \<Longrightarrow> WriteFootprint_Validate L (cd_Footprint c) = None"
  by (simp add: Candidate_Validate_def)

lemma ClassifyConflict_sym:
  assumes "Candidate_Validate L a = None" and "Candidate_Validate L b = None"
    and "cd_ProposalRevisionID a \<noteq> cd_ProposalRevisionID b"
  shows "ClassifyConflict L a b rules = ClassifyConflict L b a rules"
proof -
  note fp = assms(1,2) [THEN Candidate_Validate_footprint]
  have "\<not> (cd_ProposalRevisionID b < cd_ProposalRevisionID a \<longleftrightarrow> cd_ProposalRevisionID a < cd_ProposalRevisionID b)"
    using assms(3) by (metis less_not_sym neq_iff)
  then show ?thesis
    using assms WriteFootprint_Overlaps_sym [OF fp] by (auto simp: ClassifyConflict_def)
qed

lemma sort_rules_order:
  assumes "mset rules = mset rules'" and "distinct (map mr_RuleRef rules)"
  shows "sort_key mr_RuleRef rules = sort_key mr_RuleRef rules'"
proof (rule properties_for_sort_key)
  show "mset (sort_key mr_RuleRef rules') = mset rules"
    using assms(1) by simp
  show "sorted (map mr_RuleRef (sort_key mr_RuleRef rules'))"
    by simp
  have inj: "inj_on mr_RuleRef (set rules)"
    using assms(2) by (simp add: distinct_map)
  have single: "filter (\<lambda>x. mr_RuleRef x = k) xs = replicate (count (mset xs) r) r"
    if "set xs \<subseteq> set rules" "r \<in> set rules" "mr_RuleRef r = k" for k r xs
    using that inj by (induction xs) (auto simp: inj_on_def)
  show "filter (\<lambda>x. mr_RuleRef r = mr_RuleRef x) (sort_key mr_RuleRef rules') = filter (\<lambda>x. mr_RuleRef r = mr_RuleRef x) rules"
    if "r \<in> set (sort_key mr_RuleRef rules')" for r
  proof -
    have "r \<in> set rules" "set rules' = set rules"
      using that assms(1) by (metis set_sort mset_eq_setD)+
    then show ?thesis
      using single [of "sort_key mr_RuleRef rules'" r "mr_RuleRef r"] single [of rules r "mr_RuleRef r"] assms(1)
      by (simp add: eq_commute [of "mr_RuleRef r"])
  qed
qed

definition declared_relation :: "Candidate \<Rightarrow> Candidate \<Rightarrow> (Candidate \<Rightarrow> string) \<Rightarrow> bool" where
  "declared_relation a b f \<longleftrightarrow> f a = cd_ProposalRevisionID b \<or> f b = cd_ProposalRevisionID a"

definition provable :: "Candidate \<Rightarrow> Candidate \<Rightarrow> MergeRule \<Rightarrow> string \<Rightarrow> bool" where
  "provable x y rule proof \<longleftrightarrow> (\<exists>f. mr_Proves rule = Some f \<and> f x y = Some proof)"

lemma first_proof_None: "first_proof x y rules = None \<longleftrightarrow> (\<forall>r\<in>set rules. \<forall>p. \<not> provable x y r p)"
  by (induction rules) (auto simp: provable_def split: option.splits)

lemma first_proof_Some: "first_proof x y rules = Some (r, p) \<Longrightarrow> r \<in> set rules \<and> provable x y r p"
  by (induction rules) (auto simp: provable_def split: option.splits)

definition expected_decision :: "Candidate \<Rightarrow> Candidate \<Rightarrow> MergeRule list \<Rightarrow> Decision" where
  "expected_decision x y rules =
     (if declared_relation x y cd_SupersedesRevisionID then DecisionSupersession
      else if declared_relation x y cd_DependsOnRevisionID then DecisionOrderedDependency
      else if \<exists>r\<in>set rules. \<exists>p. provable x y r p then DecisionCompatibleMerge
      else DecisionHardConflict)"

lemma classify_pair_decision: "cl_Decision (classify_pair x y rules) = expected_decision x y rules"
proof (cases "first_proof x y (sort_key mr_RuleRef rules)")
  case None
  then have "\<not> (\<exists>r\<in>set rules. \<exists>p. provable x y r p)"
    by (simp add: first_proof_None)
  with None show ?thesis
    by (auto simp: classify_pair_def expected_decision_def declared_relation_def supersession_def
        orderedDependency_def merge_or_conflict_def)
next
  case (Some rp)
  then have "\<exists>r\<in>set rules. \<exists>p. provable x y r p"
    using first_proof_Some [of x y "sort_key mr_RuleRef rules" "fst rp" "snd rp"] by auto
  with Some show ?thesis
    by (auto simp: classify_pair_def expected_decision_def declared_relation_def supersession_def
        orderedDependency_def merge_or_conflict_def split: prod.splits)
qed

lemma classify_pair_order:
  "mset rules = mset rules' \<Longrightarrow> distinct (map mr_RuleRef rules) \<Longrightarrow> classify_pair x y rules = classify_pair x y rules'"
  by (simp add: classify_pair_def merge_or_conflict_def sort_rules_order)

text \<open>
  C23: classification of two overlapping candidates with different revision ids. Whichever of them comes first
  and in whatever order the merge rules are listed, the decision is what the declarations say: a declared
  supersession first, then a declared dependency, then a merge if some rule proves one for the pair in the order
  of their ids, and otherwise a hard conflict. When no two rules have the same reference, the whole result is the
  same too; when two rules share a reference, the sort of the rules does not separate them, and which of them is
  cited depends on their order.
\<close>

theorem classification_deterministic_and_declared:
  assumes "Candidate_Validate L a = None" and "Candidate_Validate L b = None"
    and "cd_ProposalRevisionID a < cd_ProposalRevisionID b"
    and "WriteFootprint_Overlaps L (cd_Footprint a) (cd_Footprint b) = Inr True"
    and "mset rules' = mset rules"
  shows "\<exists>k k'. ClassifyConflict L a b rules = Inr k \<and> ClassifyConflict L b a rules' = Inr k'
    \<and> cl_Decision k = expected_decision a b rules \<and> cl_Decision k' = expected_decision a b rules
    \<and> (distinct (map mr_RuleRef rules) \<longrightarrow> k' = k)"
proof -
  have ab: "ClassifyConflict L a b rs = Inr (classify_pair a b rs)" for rs
    using assms(1-4) by (simp add: ClassifyConflict_def less_not_sym)
  have "ClassifyConflict L b a rules' = Inr (classify_pair a b rules')"
    using ClassifyConflict_sym [OF assms(2,1)] assms(3) ab [of rules'] by auto
  moreover have "expected_decision a b rules' = expected_decision a b rules"
    using mset_eq_setD [OF assms(5)] by (simp add: expected_decision_def)
  ultimately show ?thesis
    using ab [of rules] classify_pair_decision classify_pair_order [OF assms(5) [symmetric]] by auto
qed

subsection \<open>All pairs\<close>

lemma classify_with_set:
  "classify_with L rules c ds = Inr ks \<Longrightarrow>
     set ks = {k. \<exists>d\<in>set ds. WriteFootprint_Overlaps L (cd_Footprint c) (cd_Footprint d) = Inr True
                   \<and> ClassifyConflict L c d rules = Inr k}"
proof (induction ds arbitrary: ks)
  case (Cons d ds)
  then obtain ov where ov: "WriteFootprint_Overlaps L (cd_Footprint c) (cd_Footprint d) = Inr ov"
    by auto
  show ?case
  proof (cases ov)
    case True
    then obtain k ks' where "ks = k # ks'" "ClassifyConflict L c d rules = Inr k" "classify_with L rules c ds = Inr ks'"
      using Cons.prems ov by auto
    then show ?thesis
      using Cons.IH [of ks'] ov True by auto
  next
    case False
    then show ?thesis
      using Cons.IH Cons.prems ov by auto
  qed
qed simp

lemma classify_pairs_set:
  "classify_pairs L rules cs = Inr ks \<Longrightarrow>
     set ks = {k. \<exists>i j. i < j \<and> j < length cs
        \<and> WriteFootprint_Overlaps L (cd_Footprint (cs ! i)) (cd_Footprint (cs ! j)) = Inr True
        \<and> ClassifyConflict L (cs ! i) (cs ! j) rules = Inr k}"
proof (induction cs arbitrary: ks)
  case (Cons c cs)
  obtain k1 k2 where k: "classify_with L rules c cs = Inr k1" "classify_pairs L rules cs = Inr k2" "ks = k1 @ k2"
    using Cons.prems by auto
  have "set ks = set k1 \<union> set k2"
    using k(3) by simp
  then show ?case
    unfolding classify_with_set [OF k(1)] Cons.IH [OF k(2)]
    using ordered_pairs_Cons [where P = "\<lambda>a b. WriteFootprint_Overlaps L (cd_Footprint a) (cd_Footprint b) = Inr True
        \<and> ClassifyConflict L a b rules = Inr k" for k, of c cs] by auto
qed simp

text \<open>
  Classification of a list. When it succeeds on candidates, the returned classifications are exactly
  those of the overlapping pairs: no overlap is passed over and nothing else is classified.
\<close>

theorem classify_all_covers_every_overlap:
  assumes "ClassifyAll L cs rules = Inr ks"
  shows "set ks = {k. \<exists>i j. i < j \<and> j < length cs
        \<and> WriteFootprint_Overlaps L (cd_Footprint (cs ! i)) (cd_Footprint (cs ! j)) = Inr True
        \<and> ClassifyConflict L (cs ! i) (cs ! j) rules = Inr k}"
proof (cases "length cs < 2")
  case True
  then show ?thesis
    using assms by (auto simp: ClassifyAll_def)
next
  case False
  then have "classify_pairs L rules cs = Inr ks"
    using assms by (simp add: ClassifyAll_def)
  then show ?thesis
    by (rule classify_pairs_set)
qed

subsection \<open>Concrete candidates\<close>

definition demo_resource :: ResourceKey where
  "demo_resource = \<lparr>rk_Tenant = ''acme'', rk_ResourceType = ''employment'', rk_Segments = [''e1'']\<rparr>"

definition demo_revision :: "nat \<Rightarrow> RevisionToken" where
  "demo_revision n = \<lparr>rt_specified = True, rt_selector = revisionSelectorSequence, rt_stream = ''e1'',
     rt_sequence = n, rt_opaque = []\<rparr>"

definition demo_write :: "FieldPath \<Rightarrow> int \<Rightarrow> int \<Rightarrow> nat \<Rightarrow> WriteFootprint" where
  "demo_write field d1 d2 n = \<lparr>fp_Resource = demo_resource, fp_Field = field, fp_Interval = jan_interval d1 d2,
     fp_Operation = OperationUpdate, fp_ExpectedRevision = demo_revision n,
     fp_Authority = \<lparr>as_Domain = ''hr'', as_PolicyRef = ''p1''\<rparr>\<rparr>"

definition demo_candidate :: "string \<Rightarrow> ProposalState \<Rightarrow> WriteFootprint \<Rightarrow> Candidate" where
  "demo_candidate i st w = \<lparr>cd_ProposalRevisionID = i, cd_Footprint = w, cd_State = st, cd_Priority = 0,
     cd_RecordedAt = \<lparr>i_set = True, i_sec = 0, i_nsec = 0\<rparr>, cd_SupersedesRevisionID = [],
     cd_DependsOnRevisionID = []\<rparr>"

definition pay_candidate :: Candidate where
  "pay_candidate = demo_candidate ''a'' ProposalPending (demo_write ''comp.pay'' 1 10 1)"

definition comp_candidate :: Candidate where
  "comp_candidate = demo_candidate ''b'' ProposalApproved (demo_write ''comp'' 5 20 1)"

lemma demo_candidates_valid:
  "Candidate_Validate ref_libs pay_candidate = None" "Candidate_Validate ref_libs comp_candidate = None"
  by code_simp+

lemma demo_candidates_overlap:
  "WriteFootprint_Overlaps ref_libs (cd_Footprint pay_candidate) (cd_Footprint comp_candidate) = Inr True"
  by code_simp

theorem footprint_overlap_iff_shared_write_witness:
  "\<exists>f d. covers ''comp.pay'' f \<and> covers ''comp'' f
     \<and> ContainsDate (jan_interval 1 10) d = Inr True \<and> ContainsDate (jan_interval 5 20) d = Inr True"
proof -
  let ?w = "demo_write ''comp.pay'' 1 10 1" and ?v = "demo_write ''comp'' 5 20 1"
  have v: "WriteFootprint_Validate ref_libs ?w = None" "WriteFootprint_Validate ref_libs ?v = None"
    and o: "WriteFootprint_Overlaps ref_libs ?w ?v = Inr True"
    and k: "iv_kind (jan_interval 1 10) = iv_kind (jan_interval 5 20)"
    and n: "\<And>i. ContainsInstant (jan_interval 1 10) i \<noteq> Inr True"
    using demo_candidates_valid [THEN Candidate_Validate_footprint] demo_candidates_overlap
    by (auto simp: pay_candidate_def comp_candidate_def demo_candidate_def ContainsInstant_def jan_interval_def)
  have f: "fp_Interval ?w = jan_interval 1 10" "fp_Interval ?v = jan_interval 5 20" "fp_Field ?w = ''comp.pay''"
    "fp_Field ?v = ''comp''"
    by (simp_all add: demo_write_def)
  from footprint_overlap_iff_shared_write [OF v] show ?thesis
    unfolding f using o k n by (auto split: if_splits)
qed

theorem classification_deterministic_and_declared_witness:
  "\<exists>k. ClassifyConflict ref_libs pay_candidate comp_candidate [] = Inr k
     \<and> ClassifyConflict ref_libs comp_candidate pay_candidate [] = Inr k \<and> cl_Decision k = DecisionHardConflict"
proof -
  have "cd_ProposalRevisionID pay_candidate < cd_ProposalRevisionID comp_candidate"
    and "expected_decision pay_candidate comp_candidate [] = DecisionHardConflict"
    by (simp_all add: pay_candidate_def comp_candidate_def demo_candidate_def expected_decision_def
        declared_relation_def)
  then show ?thesis
    using classification_deterministic_and_declared [OF demo_candidates_valid _ demo_candidates_overlap, of "[]" "[]"]
    by auto
qed

theorem classify_all_covers_every_overlap_witness:
  "\<exists>ks. ClassifyAll ref_libs [pay_candidate, comp_candidate] [] = Inr ks
     \<and> classify_pair pay_candidate comp_candidate [] \<in> set ks"
proof -
  have "\<not> isl (ClassifyAll ref_libs [pay_candidate, comp_candidate] [])"
    by code_simp
  then obtain ks where ks: "ClassifyAll ref_libs [pay_candidate, comp_candidate] [] = Inr ks"
    by (cases "ClassifyAll ref_libs [pay_candidate, comp_candidate] []") auto
  have c: "ClassifyConflict ref_libs pay_candidate comp_candidate [] = Inr (classify_pair pay_candidate comp_candidate [])"
    using demo_candidates_valid demo_candidates_overlap
    by (simp add: ClassifyConflict_def) (simp add: pay_candidate_def comp_candidate_def demo_candidate_def)
  have "classify_pair pay_candidate comp_candidate [] \<in> set ks"
    unfolding classify_all_covers_every_overlap [OF ks]
    using c demo_candidates_overlap by (intro CollectI exI [of _ 0] exI [of _ 1]) simp
  with ks show ?thesis by blast
qed

text \<open>
  Two revisions that carry one revision id, one pending and one approved, are classified
  differently in the two orders: the explanation names them in the order of the call.
\<close>

theorem classification_asymmetric_for_equal_ids:
  "ClassifyConflict ref_libs (demo_candidate ''a'' ProposalPending (demo_write ''pay'' 1 10 1))
       (demo_candidate ''a'' ProposalApproved (demo_write ''pay'' 1 10 1)) []
   \<noteq> ClassifyConflict ref_libs (demo_candidate ''a'' ProposalApproved (demo_write ''pay'' 1 10 1))
       (demo_candidate ''a'' ProposalPending (demo_write ''pay'' 1 10 1)) []"
  by code_simp

end
