(* ===== verification/Conflict_Registry.thy ===== *)
theory Conflict_Registry
  imports Conflict_Classify "HOL-Library.AList" "HOL-Library.Word"
begin

text \<open>
  Package \<open>internal/transaction/conflict\<close>, files \<open>intent.go\<close> and \<open>fence.go\<close>: the registry of write
  intents, the commit fence, release, and the compact form of a footprint that a transaction plan
  carries.

  Every method runs under the registry's mutex, so an interleaving of callers is a sequence of
  operations. An operation returns its result and the registry after it, since a refused commit
  marks its intent. \<open>active\<close> is an association list in no particular order: the order in which
  \<open>range\<close> visits it is the parameter \<open>visit_order\<close>, one order for each time the loop starts. Fences and
  their counter are 64-bit words and the counter wraps around as \<open>uint64\<close> does. A method call on a missing
  intent, which Go would answer with a panic, is \<open>NilDereference\<close>; it is shown never to happen.
\<close>

subsection \<open>strings.TrimSpace\<close>

text \<open>\<open>blank s\<close> holds when \<open>s\<close> has only Unicode white space, that is when \<open>TrimSpace\<close> leaves nothing.\<close>

definition byte_at :: "string \<Rightarrow> nat \<Rightarrow> nat" where
  "byte_at s i = (if i < length s then of_char (s ! i) else 0)"

definition space_len :: "string \<Rightarrow> nat" where
  "space_len s =
     (if byte_at s 0 \<in> {9, 10, 11, 12, 13, 32} then 1
      else if byte_at s 0 = 0xC2 \<and> byte_at s 1 \<in> {0x85, 0xA0} then 2
      else if byte_at s 0 = 0xE1 \<and> byte_at s 1 = 0x9A \<and> byte_at s 2 = 0x80 then 3
      else if byte_at s 0 = 0xE2 \<and> byte_at s 1 = 0x80
        \<and> (0x80 \<le> byte_at s 2 \<and> byte_at s 2 \<le> 0x8A \<or> byte_at s 2 \<in> {0xA8, 0xA9, 0xAF}) then 3
      else if byte_at s 0 = 0xE2 \<and> byte_at s 1 = 0x81 \<and> byte_at s 2 = 0x9F then 3
      else if byte_at s 0 = 0xE3 \<and> byte_at s 1 = 0x80 \<and> byte_at s 2 = 0x80 then 3
      else 0)"

function blank :: "string \<Rightarrow> bool" where
  "blank s = (if s = [] then True else if space_len s = 0 then False else blank (drop (space_len s) s))"
  by pat_completeness auto
termination
  by (relation "measure length") auto

declare blank.simps [simp del]

subsection \<open>Write intents\<close>

datatype IntentStatus =
    IntentDraft | IntentSubmitted | IntentReserved | IntentCommitted | IntentReleased | IntentCancelled
  | IntentConflicted | IntentStatusOther string

definition IntentStatus_terminal :: "IntentStatus \<Rightarrow> bool" where
  "IntentStatus_terminal s \<longleftrightarrow>
     s = IntentCommitted \<or> s = IntentReleased \<or> s = IntentCancelled \<or> s = IntentConflicted"

record WriteIntent =
  wi_TenantID :: string
  wi_ID :: string
  wi_ProposalID :: string
  wi_Footprints :: "WriteFootprint list"
  wi_SnapshotDigest :: string
  wi_Status :: IntentStatus
  wi_Fence :: "64 word"

definition WriteIntent_Validate :: "'u id_libs \<Rightarrow> WriteIntent \<Rightarrow> conflict_error option" where
  "WriteIntent_Validate L i =
     first_err (reject (blank (wi_ID i)) ErrInvalidIntent)
      (first_err (reject (blank (wi_TenantID i)) ErrInvalidIntent)
       (first_err (reject (wi_Footprints i = []) ErrInvalidIntent)
        (first_err (err_loop (\<lambda>f. reject (WriteFootprint_Validate L f \<noteq> None) ErrInvalidIntent) (wi_Footprints i))
          (reject (wi_SnapshotDigest i = []) ErrInvalidIntent))))"

record Registry =
  rg_next :: "64 word"
  rg_items :: "string \<rightharpoonup> WriteIntent"
  rg_active :: "(string \<times> string) list"

definition NewRegistry :: Registry where
  "NewRegistry = \<lparr>rg_next = 0, rg_items = Map.empty, rg_active = []\<rparr>"

definition intentDigest :: "(bytes \<Rightarrow> bytes) \<Rightarrow> 'u id_libs \<Rightarrow> WriteIntent \<Rightarrow> string" where
  "intentDigest sum256 L i =
     wi_TenantID i @ [CHR 0x00] @ wi_ProposalID i @ [CHR 0x00] @ wi_SnapshotDigest i @ [CHR 0x00]
     @ concat (map (\<lambda>f. WriteFootprint_Digest sum256 L f @ [CHR 0x00]) (wi_Footprints i))"

definition Register :: "(bytes \<Rightarrow> bytes) \<Rightarrow> 'u id_libs \<Rightarrow> Registry \<Rightarrow> WriteIntent
    \<Rightarrow> (conflict_error + WriteIntent) \<times> Registry" where
  "Register sum256 L r i =
     (case WriteIntent_Validate L i of
        Some e \<Rightarrow> (Inl e, r)
      | None \<Rightarrow>
          (case rg_items r (wi_ID i) of
             Some old \<Rightarrow>
               (if intentDigest sum256 L old \<noteq> intentDigest sum256 L i then (Inl ErrIntentConflict, r)
                else (Inr old, r))
           | None \<Rightarrow>
               let stored = i\<lparr>wi_Status := IntentSubmitted\<rparr>
               in (Inr stored, r\<lparr>rg_items := (rg_items r)(wi_ID i \<mapsto> stored)\<rparr>)))"

subsection \<open>Commit requests and baselines\<close>

record StreamBaseline =
  sb_StreamKey :: string
  sb_ExpectedSequence :: nat

record WriteBaseline =
  wb_ResourceCanonical :: string
  wb_FieldPath :: FieldPath
  wb_StreamKey :: string
  wb_ExpectedSequence :: nat
  wb_AuthorityDomain :: string
  wb_SourceAuthorityDecision :: string
  wb_Operation :: Operation
  wb_EffectiveInterval :: EffectiveInterval

record CommitRequest =
  cr_TenantID :: string
  cr_IntentID :: string
  cr_SnapshotDigest :: string
  cr_Current :: "WriteFootprint list"
  cr_Streams :: "StreamBaseline list"
  cr_Writes :: "WriteBaseline list"
  cr_FootprintDigests :: "string list"

definition BaselineFromFootprint :: "'u id_libs \<Rightarrow> WriteFootprint \<Rightarrow> conflict_error + WriteBaseline" where
  "BaselineFromFootprint L f =
     guard_res (WriteFootprint_Validate L f)
      (let (sequence, ok) = RevisionToken_Sequence (fp_ExpectedRevision f) in
       if \<not> ok then Inl ErrInvalidFootprint
       else Inr \<lparr>wb_ResourceCanonical = ResourceKey_Canonical L (fp_Resource f), wb_FieldPath = fp_Field f,
                 wb_StreamKey = rt_stream (fp_ExpectedRevision f), wb_ExpectedSequence = sequence,
                 wb_AuthorityDomain = as_Domain (fp_Authority f),
                 wb_SourceAuthorityDecision = as_PolicyRef (fp_Authority f),
                 wb_Operation = fp_Operation f, wb_EffectiveInterval = fp_Interval f\<rparr>)"

definition WriteBaseline_Footprint :: "'u id_libs \<Rightarrow> WriteBaseline \<Rightarrow> conflict_error + WriteFootprint" where
  "WriteBaseline_Footprint L b =
     (case ResourceKey_UnmarshalText L (wb_ResourceCanonical b) of
        Inl _ \<Rightarrow> Inl ErrInvalidFootprint
      | Inr resource \<Rightarrow>
          (case NewSequenceRevision L (wb_StreamKey b) (wb_ExpectedSequence b) of
             Inl _ \<Rightarrow> Inl ErrInvalidFootprint
           | Inr revision \<Rightarrow>
               let f = \<lparr>fp_Resource = resource, fp_Field = wb_FieldPath b, fp_Interval = wb_EffectiveInterval b,
                        fp_Operation = wb_Operation b, fp_ExpectedRevision = revision,
                        fp_Authority = \<lparr>as_Domain = wb_AuthorityDomain b, as_PolicyRef = wb_SourceAuthorityDecision b\<rparr>\<rparr>
               in guard_res (WriteFootprint_Validate L f) (Inr f)))"

record CommitResult =
  co_Intent :: WriteIntent
  co_Fence :: "64 word"
  co_Decision :: Decision

subsection \<open>The commit fence\<close>

text \<open>
  The checks of \<open>ValidateAtCommit\<close> end in an error, in \<open>False\<close> when the intent is stale, or in \<open>True\<close>
  when the next check runs.
\<close>

definition same_revision :: "'u id_libs \<Rightarrow> WriteFootprint \<Rightarrow> WriteFootprint \<Rightarrow> bool" where
  "same_revision L want got \<longleftrightarrow>
     \<not> (RevisionToken_Canonical L (fp_ExpectedRevision want) = []
        \<or> RevisionToken_Canonical L (fp_ExpectedRevision got) = []
        \<or> RevisionToken_Canonical L (fp_ExpectedRevision want) \<noteq> RevisionToken_Canonical L (fp_ExpectedRevision got))"

fun observed :: "'u id_libs \<Rightarrow> WriteFootprint \<Rightarrow> WriteFootprint list \<Rightarrow> conflict_error + bool" where
  "observed L want [] = Inr False"
| "observed L want (got # rest) =
     bind_res (WriteFootprint_Overlaps L want got) (\<lambda>overlap.
       if overlap then Inr (same_revision L want got) else observed L want rest)"

fun all_pass :: "('a \<Rightarrow> conflict_error + bool) \<Rightarrow> 'a list \<Rightarrow> conflict_error + bool" where
  "all_pass f [] = Inr True"
| "all_pass f (x # xs) = bind_res (f x) (\<lambda>ok. if ok then all_pass f xs else Inr False)"

definition clear_of :: "'u id_libs \<Rightarrow> WriteFootprint \<Rightarrow> WriteFootprint \<Rightarrow> conflict_error + bool" where
  "clear_of L f g = bind_res (WriteFootprint_Overlaps L f g) (\<lambda>overlap. Inr (\<not> overlap))"

definition clear_of_owner :: "'u id_libs \<Rightarrow> (string \<rightharpoonup> WriteIntent) \<Rightarrow> string \<Rightarrow> WriteFootprint \<Rightarrow> string
    \<Rightarrow> conflict_error + bool" where
  "clear_of_owner L items self f otherID =
     (if otherID = self then Inr True
      else (case items otherID of
          None \<Rightarrow> Inl NilDereference
        | Some other \<Rightarrow> all_pass (clear_of L f) (wi_Footprints other)))"

type_synonym visit_order = "nat \<Rightarrow> (string \<times> string) list \<Rightarrow> (string \<times> string) list"

fun contention :: "'u id_libs \<Rightarrow> visit_order \<Rightarrow> Registry \<Rightarrow> string \<Rightarrow> nat \<Rightarrow> WriteFootprint list
    \<Rightarrow> conflict_error + bool" where
  "contention L vo r self n [] = Inr True"
| "contention L vo r self n (f # fs) =
     bind_res (all_pass (clear_of_owner L (rg_items r) self f) (map snd (vo n (rg_active r)))) (\<lambda>ok.
       if ok then contention L vo r self (Suc n) fs else Inr False)"

definition mark_stale :: "Registry \<Rightarrow> string \<Rightarrow> WriteIntent \<Rightarrow> (conflict_error + CommitResult) \<times> Registry" where
  "mark_stale r key i =
     (Inl (ErrStaleBaseline (wi_ID i)),
      r\<lparr>rg_items := (rg_items r)(key \<mapsto> i\<lparr>wi_Status := IntentConflicted\<rparr>)\<rparr>)"

definition commit_intent :: "(bytes \<Rightarrow> bytes) \<Rightarrow> 'u id_libs \<Rightarrow> Registry \<Rightarrow> string \<Rightarrow> WriteIntent
    \<Rightarrow> (conflict_error + CommitResult) \<times> Registry" where
  "commit_intent sum256 L r key i =
     (let n = rg_next r + 1; done = i\<lparr>wi_Fence := n, wi_Status := IntentCommitted\<rparr> in
      (Inr \<lparr>co_Intent = done, co_Fence = n, co_Decision = DecisionHardConflict\<rparr>,
       r\<lparr>rg_next := n, rg_items := (rg_items r)(key \<mapsto> done),
         rg_active := fold (\<lambda>f. AList.update (ScopeDigest sum256 L f) (wi_ID i)) (wi_Footprints i) (rg_active r)\<rparr>))"

definition ValidateAtCommit :: "(bytes \<Rightarrow> bytes) \<Rightarrow> 'u id_libs \<Rightarrow> visit_order \<Rightarrow> Registry \<Rightarrow> CommitRequest
    \<Rightarrow> (conflict_error + CommitResult) \<times> Registry" where
  "ValidateAtCommit sum256 L vo r req =
     (case rg_items r (cr_IntentID req) of
        None \<Rightarrow> (Inl ErrInvalidIntent, r)
      | Some i \<Rightarrow>
          if IntentStatus_terminal (wi_Status i) then (Inl ErrAlreadyTerminal, r)
          else if cr_Current req = [] then mark_stale r (cr_IntentID req) i
          else (case all_pass (\<lambda>want. observed L want (cr_Current req)) (wi_Footprints i) of
              Inl e \<Rightarrow> (Inl e, r)
            | Inr False \<Rightarrow> mark_stale r (cr_IntentID req) i
            | Inr True \<Rightarrow>
                (case contention L vo r (wi_ID i) 0 (wi_Footprints i) of
                   Inl e \<Rightarrow> (Inl e, r)
                 | Inr False \<Rightarrow> mark_stale r (cr_IntentID req) i
                 | Inr True \<Rightarrow> commit_intent sum256 L r (cr_IntentID req) i)))"

definition drop_scope :: "string \<Rightarrow> string \<Rightarrow> (string \<times> string) list \<Rightarrow> (string \<times> string) list" where
  "drop_scope owner scope active = (if map_of active scope = Some owner then AList.delete scope active else active)"

definition Release :: "(bytes \<Rightarrow> bytes) \<Rightarrow> 'u id_libs \<Rightarrow> Registry \<Rightarrow> string \<Rightarrow> 64 word
    \<Rightarrow> (conflict_error + WriteIntent) \<times> Registry" where
  "Release sum256 L r i fence =
     (case rg_items r i of
        None \<Rightarrow> (Inl ErrInvalidIntent, r)
      | Some w \<Rightarrow>
          if wi_Fence w \<noteq> fence \<or> fence = 0 then (Inl ErrFence, r)
          else if wi_Status w = IntentReleased then (Inr w, r)
          else if wi_Status w \<noteq> IntentCommitted \<and> wi_Status w \<noteq> IntentReserved then (Inl ErrAlreadyTerminal, r)
          else let freed = w\<lparr>wi_Status := IntentReleased\<rparr> in
            (Inr freed,
             r\<lparr>rg_items := (rg_items r)(i \<mapsto> freed),
               rg_active := fold (\<lambda>f. drop_scope i (ScopeDigest sum256 L f)) (wi_Footprints w) (rg_active r)\<rparr>))"

definition Lookup :: "Registry \<Rightarrow> string \<Rightarrow> WriteIntent option" where
  "Lookup r i = rg_items r i"

subsection \<open>What the checks decide\<close>

lemma all_pass_True: "all_pass f xs = Inr True \<longleftrightarrow> (\<forall>x\<in>set xs. f x = Inr True)"
  by (induction xs) auto

lemma clear_of_True: "clear_of L f g = Inr True \<longleftrightarrow> WriteFootprint_Overlaps L f g = Inr False"
  by (auto simp: clear_of_def)

lemma clear_of_owner_True:
  "clear_of_owner L items self f i = Inr True \<longleftrightarrow>
     i = self \<or> (\<exists>w. items i = Some w \<and> (\<forall>g\<in>set (wi_Footprints w). WriteFootprint_Overlaps L f g = Inr False))"
  by (auto simp: clear_of_owner_def all_pass_True clear_of_True split: option.splits)

definition fair_order :: "visit_order \<Rightarrow> bool" where
  "fair_order vo \<longleftrightarrow> (\<forall>n xs. set (vo n xs) = set xs)"

lemma contention_True:
  assumes "fair_order vo"
  shows "contention L vo r self n fs = Inr True \<longleftrightarrow>
    (\<forall>f\<in>set fs. \<forall>i\<in>snd ` set (rg_active r). clear_of_owner L (rg_items r) self f i = Inr True)"
  using assms by (induction fs arbitrary: n) (auto simp: all_pass_True fair_order_def)

lemma fold_update_scopes:
  "map_of (fold (\<lambda>f. AList.update (d f) v) fs al) k = (if k \<in> d ` set fs then Some v else map_of al k)"
  by (induction fs arbitrary: al) (auto simp: update_conv')

lemma fold_update_distinct:
  "distinct (map fst al) \<Longrightarrow> distinct (map fst (fold (\<lambda>f. AList.update (d f) v) fs al))"
  by (induction fs arbitrary: al) (auto simp: distinct_update)

lemma fold_drop_scopes:
  "map_of (fold (\<lambda>f. drop_scope i (d f)) fs al) k =
     (if k \<in> d ` set fs \<and> map_of al k = Some i then None else map_of al k)"
  by (induction fs arbitrary: al) (auto simp: drop_scope_def delete_conv')

lemma fold_drop_distinct:
  "distinct (map fst al) \<Longrightarrow> distinct (map fst (fold (\<lambda>f. drop_scope i (d f)) fs al))"
  by (induction fs arbitrary: al) (auto simp: drop_scope_def distinct_delete)

subsection \<open>Reachable registries\<close>

datatype registry_call =
  CallRegister WriteIntent | CallCommit visit_order CommitRequest | CallRelease string "64 word"

text \<open>
  The calls that Go code can make: the intervals of an intent come from the constructors of
  \<open>kernel/values\<close>, and \<open>range\<close> visits every entry.
\<close>

fun lawful_call :: "registry_call \<Rightarrow> bool" where
  "lawful_call (CallRegister i) \<longleftrightarrow>
     (\<forall>f\<in>set (wi_Footprints i). EffectiveInterval_Validate (fp_Interval f) = None \<longrightarrow> built_interval (fp_Interval f))"
| "lawful_call (CallCommit vo req) \<longleftrightarrow> fair_order vo"
| "lawful_call (CallRelease i n) \<longleftrightarrow> True"

fun after_call :: "(bytes \<Rightarrow> bytes) \<Rightarrow> 'u id_libs \<Rightarrow> Registry \<Rightarrow> registry_call \<Rightarrow> Registry" where
  "after_call h L r (CallRegister i) = snd (Register h L r i)"
| "after_call h L r (CallCommit vo req) = snd (ValidateAtCommit h L vo r req)"
| "after_call h L r (CallRelease i n) = snd (Release h L r i n)"

inductive reachable_registry :: "(bytes \<Rightarrow> bytes) \<Rightarrow> 'u id_libs \<Rightarrow> Registry \<Rightarrow> bool"
  for h :: "bytes \<Rightarrow> bytes" and L :: "'u id_libs" where
  fresh: "reachable_registry h L NewRegistry"
| called: "reachable_registry h L r \<Longrightarrow> lawful_call c \<Longrightarrow> reachable_registry h L (after_call h L r c)"

inductive_cases reachable_registryE: "reachable_registry h L r"

definition holds_at :: "Registry \<Rightarrow> IntentStatus \<Rightarrow> string \<Rightarrow> WriteIntent \<Rightarrow> bool" where
  "holds_at r st i w \<longleftrightarrow> rg_items r i = Some w \<and> wi_Status w = st"

definition registered :: "Registry \<Rightarrow> WriteFootprint set" where
  "registered r = \<Union> ((\<lambda>w. set (wi_Footprints w)) ` ran (rg_items r))"

definition collision_free :: "(bytes \<Rightarrow> bytes) \<Rightarrow> 'u id_libs \<Rightarrow> WriteFootprint set \<Rightarrow> bool" where
  "collision_free h L S \<longleftrightarrow>
     (\<forall>f\<in>S. \<forall>g\<in>S. ScopeDigest h L f = ScopeDigest h L g \<longrightarrow> scope_bytes L f = scope_bytes L g)"

text \<open>
  The invariant: an intent stands under its own id with valid footprints; the active scopes are exactly
  the scopes of the committed intents; and committed intents do not overlap. The fences of committed and
  released intents are a separate invariant (\<open>fences_ok\<close>), which holds until the counter wraps around.
\<close>

definition items_ok :: "'u id_libs \<Rightarrow> Registry \<Rightarrow> bool" where
  "items_ok L r \<longleftrightarrow> (\<forall>i w. rg_items r i = Some w \<longrightarrow>
     wi_ID w = i \<and> (\<forall>f\<in>set (wi_Footprints w). built_footprint L f)
     \<and> wi_Status w \<in> {IntentSubmitted, IntentCommitted, IntentReleased, IntentConflicted})"

definition active_ok :: "(bytes \<Rightarrow> bytes) \<Rightarrow> 'u id_libs \<Rightarrow> Registry \<Rightarrow> bool" where
  "active_ok h L r \<longleftrightarrow> distinct (map fst (rg_active r))
     \<and> (\<forall>k i. map_of (rg_active r) k = Some i \<longleftrightarrow>
          (\<exists>w. holds_at r IntentCommitted i w \<and> k \<in> ScopeDigest h L ` set (wi_Footprints w)))"

definition disjoint_ok :: "'u id_libs \<Rightarrow> Registry \<Rightarrow> bool" where
  "disjoint_ok L r \<longleftrightarrow> (\<forall>i j w v f g. holds_at r IntentCommitted i w \<and> holds_at r IntentCommitted j v \<and> i \<noteq> j
     \<and> f \<in> set (wi_Footprints w) \<and> g \<in> set (wi_Footprints v) \<longrightarrow> WriteFootprint_Overlaps L f g = Inr False)"

definition fenced :: "Registry \<Rightarrow> string \<Rightarrow> WriteIntent \<Rightarrow> bool" where
  "fenced r i w \<longleftrightarrow> rg_items r i = Some w \<and> wi_Status w \<in> {IntentCommitted, IntentReleased}"

definition fences_ok :: "Registry \<Rightarrow> bool" where
  "fences_ok r \<longleftrightarrow>
     (\<forall>i w. fenced r i w \<longrightarrow> 0 < wi_Fence w \<and> wi_Fence w \<le> rg_next r)
     \<and> (\<forall>i j w v. fenced r i w \<and> fenced r j v \<and> wi_Fence w = wi_Fence v \<longrightarrow> i = j)"

definition registry_ok :: "(bytes \<Rightarrow> bytes) \<Rightarrow> 'u id_libs \<Rightarrow> Registry \<Rightarrow> bool" where
  "registry_ok h L r \<longleftrightarrow> items_ok L r \<and> active_ok h L r \<and> disjoint_ok L r"

lemmas registry_ok_defs = registry_ok_def items_ok_def active_ok_def disjoint_ok_def holds_at_def

lemma active_owner:
  assumes "active_ok h L r" and "items_ok L r"
  shows "snd ` set (rg_active r) = {i. \<exists>w. holds_at r IntentCommitted i w \<and> wi_Footprints w \<noteq> []}"
proof (rule set_eqI)
  fix i
  have "distinct (map fst (rg_active r))"
    using assms(1) by (simp add: active_ok_def)
  then have "i \<in> snd ` set (rg_active r) \<longleftrightarrow> (\<exists>k. map_of (rg_active r) k = Some i)"
    by (force simp: map_of_eq_Some_iff)
  also have "\<dots> \<longleftrightarrow> (\<exists>k w. holds_at r IntentCommitted i w \<and> k \<in> ScopeDigest h L ` set (wi_Footprints w))"
    using assms(1) by (simp add: active_ok_def)
  also have "\<dots> \<longleftrightarrow> (\<exists>w. holds_at r IntentCommitted i w \<and> wi_Footprints w \<noteq> [])"
    by (metis ex_in_conv image_is_empty set_empty)
  finally show "i \<in> snd ` set (rg_active r) \<longleftrightarrow> i \<in> {i. \<exists>w. holds_at r IntentCommitted i w \<and> wi_Footprints w \<noteq> []}"
    by simp
qed

text \<open>
  What a commit decides, whatever the order in which the active scopes are visited.
\<close>

definition same_token :: "'u id_libs \<Rightarrow> RevisionToken \<Rightarrow> RevisionToken \<Rightarrow> bool" where
  "same_token L r s \<longleftrightarrow> (\<exists>t. RevisionToken_MarshalText L r = Inr t \<and> RevisionToken_MarshalText L s = Inr t)"

definition observed_current :: "'u id_libs \<Rightarrow> WriteFootprint list \<Rightarrow> WriteFootprint \<Rightarrow> bool" where
  "observed_current L current f \<longleftrightarrow> (\<exists>before g after. current = before @ g # after
     \<and> (\<forall>x\<in>set before. WriteFootprint_Overlaps L f x = Inr False) \<and> WriteFootprint_Overlaps L f g = Inr True
     \<and> same_token L (fp_ExpectedRevision f) (fp_ExpectedRevision g))"

definition observations_current :: "'u id_libs \<Rightarrow> WriteFootprint list \<Rightarrow> WriteIntent \<Rightarrow> bool" where
  "observations_current L current w \<longleftrightarrow> current \<noteq> [] \<and> (\<forall>f\<in>set (wi_Footprints w). observed_current L current f)"

lemma same_token_iff: "id_law L \<Longrightarrow> wf_token L r \<Longrightarrow> wf_token L s \<Longrightarrow> same_token L r s \<longleftrightarrow> r = s"
  unfolding same_token_def by (metis token_encode Inr_inject)

lemma same_revision_token: "same_revision L f g \<longleftrightarrow> same_token L (fp_ExpectedRevision f) (fp_ExpectedRevision g)"
proof -
  have "RevisionToken_Canonical L r \<noteq> [] \<longleftrightarrow> RevisionToken_Validate L r = None" for r
    by (auto simp: RevisionToken_Canonical_def revisionTokenPrefix_def Let_def)
  then show ?thesis
    by (auto simp: same_revision_def same_token_def RevisionToken_MarshalText_def)
qed

lemma observed_current_Cons:
  "observed_current L (g # gs) f \<longleftrightarrow>
     WriteFootprint_Overlaps L f g = Inr True \<and> same_token L (fp_ExpectedRevision f) (fp_ExpectedRevision g)
     \<or> WriteFootprint_Overlaps L f g = Inr False \<and> observed_current L gs f"
proof
  assume "observed_current L (g # gs) f"
  then obtain before x after where x: "g # gs = before @ x # after" "\<forall>y\<in>set before. WriteFootprint_Overlaps L f y = Inr False"
    "WriteFootprint_Overlaps L f x = Inr True" "same_token L (fp_ExpectedRevision f) (fp_ExpectedRevision x)"
    unfolding observed_current_def by blast
  then show "WriteFootprint_Overlaps L f g = Inr True \<and> same_token L (fp_ExpectedRevision f) (fp_ExpectedRevision g)
     \<or> WriteFootprint_Overlaps L f g = Inr False \<and> observed_current L gs f"
    by (cases before) (auto simp: observed_current_def)
next
  assume "WriteFootprint_Overlaps L f g = Inr True \<and> same_token L (fp_ExpectedRevision f) (fp_ExpectedRevision g)
     \<or> WriteFootprint_Overlaps L f g = Inr False \<and> observed_current L gs f"
  then show "observed_current L (g # gs) f"
  proof (elim disjE conjE)
    assume "WriteFootprint_Overlaps L f g = Inr True" "same_token L (fp_ExpectedRevision f) (fp_ExpectedRevision g)"
    then show ?thesis
      unfolding observed_current_def by (intro exI [of _ "[]"] exI [of _ g] exI [of _ gs]) simp
  next
    assume g: "WriteFootprint_Overlaps L f g = Inr False" and "observed_current L gs f"
    then obtain before x after where "gs = before @ x # after" "\<forall>y\<in>set before. WriteFootprint_Overlaps L f y = Inr False"
      "WriteFootprint_Overlaps L f x = Inr True" "same_token L (fp_ExpectedRevision f) (fp_ExpectedRevision x)"
      unfolding observed_current_def by blast
    with g show ?thesis
      unfolding observed_current_def by (intro exI [of _ "g # before"] exI [of _ x] exI [of _ after]) simp
  qed
qed

lemma observed_iff: "observed L f current = Inr True \<longleftrightarrow> observed_current L current f"
proof (induction current)
  case Nil
  then show ?case by (simp add: observed_current_def)
next
  case (Cons g gs)
  then show ?case
    by (cases "WriteFootprint_Overlaps L f g") (auto simp: observed_current_Cons same_revision_token bind_res_def)
qed

definition uncontended :: "'u id_libs \<Rightarrow> Registry \<Rightarrow> string \<Rightarrow> WriteIntent \<Rightarrow> bool" where
  "uncontended L r i w \<longleftrightarrow> (\<forall>j v. holds_at r IntentCommitted j v \<and> j \<noteq> i \<longrightarrow>
     (\<forall>f\<in>set (wi_Footprints w). \<forall>g\<in>set (wi_Footprints v). WriteFootprint_Overlaps L f g = Inr False))"

lemma contention_uncontended:
  assumes "active_ok h L r" and "items_ok L r" and "fair_order vo"
  shows "contention L vo r i 0 (wi_Footprints w) = Inr True \<longleftrightarrow> uncontended L r i w"
  unfolding contention_True [OF assms(3)] active_owner [OF assms(1,2)] clear_of_owner_True uncontended_def
  by (fastforce simp: holds_at_def)

lemma commit_succeeds_iff:
  assumes "active_ok h L r" and "items_ok L r" and "fair_order vo" and "rg_items r (cr_IntentID req) = Some w"
  shows "(\<exists>res. fst (ValidateAtCommit h L vo r req) = Inr res) \<longleftrightarrow>
     \<not> IntentStatus_terminal (wi_Status w) \<and> observations_current L (cr_Current req) w
     \<and> uncontended L r (cr_IntentID req) w"
proof -
  have "wi_ID w = cr_IntentID req"
    using assms(2,4) by (auto simp: items_ok_def)
  then show ?thesis
    using contention_uncontended [OF assms(1-3), of "cr_IntentID req" w] all_pass_True
      [of "\<lambda>f. observed L f (cr_Current req)" "wi_Footprints w"] assms(4)
    by (auto simp: ValidateAtCommit_def observations_current_def observed_iff mark_stale_def commit_intent_def Let_def
        split: sum.splits bool.splits)
qed

subsection \<open>Preservation\<close>

lemma items_okD:
  assumes "registry_ok h L r" and "rg_items r i = Some w"
  shows "wi_ID w = i" and "\<And>f. f \<in> set (wi_Footprints w) \<Longrightarrow> built_footprint L f"
    and "wi_Status w \<in> {IntentSubmitted, IntentCommitted, IntentReleased, IntentConflicted}"
  using assms by (simp_all add: registry_ok_def items_ok_def)

lemma fences_okD:
  assumes "fences_ok r"
  shows "fenced r i w \<Longrightarrow> 0 < wi_Fence w \<and> wi_Fence w \<le> rg_next r"
    and "fenced r i w \<Longrightarrow> fenced r j v \<Longrightarrow> wi_Fence w = wi_Fence v \<Longrightarrow> i = j"
  using assms unfolding fences_ok_def by blast+

lemma commit_registry_cases:
  assumes "active_ok h L r" and "items_ok L r" and "fair_order vo"
  obtains (same) "snd (ValidateAtCommit h L vo r req) = r"
  | (stale) w where "holds_at r IntentSubmitted (cr_IntentID req) w"
      "snd (ValidateAtCommit h L vo r req) = snd (mark_stale r (cr_IntentID req) w)"
  | (committed) w where "holds_at r IntentSubmitted (cr_IntentID req) w" "uncontended L r (cr_IntentID req) w"
      "snd (ValidateAtCommit h L vo r req) = snd (commit_intent h L r (cr_IntentID req) w)"
proof (cases "rg_items r (cr_IntentID req)")
  case None
  then show ?thesis
    using same by (simp add: ValidateAtCommit_def)
next
  case (Some w)
  have id: "wi_ID w = cr_IntentID req"
    and st: "\<not> IntentStatus_terminal (wi_Status w) \<Longrightarrow> holds_at r IntentSubmitted (cr_IntentID req) w"
    using assms(2) Some by (auto simp: items_ok_def holds_at_def IntentStatus_terminal_def)
  let ?after = "snd (ValidateAtCommit h L vo r req)"
  have "?after = r
      \<or> \<not> IntentStatus_terminal (wi_Status w) \<and> ?after = snd (mark_stale r (cr_IntentID req) w)
      \<or> \<not> IntentStatus_terminal (wi_Status w) \<and> contention L vo r (cr_IntentID req) 0 (wi_Footprints w) = Inr True
        \<and> ?after = snd (commit_intent h L r (cr_IntentID req) w)"
    using Some id by (simp add: ValidateAtCommit_def split: sum.splits bool.splits)
  then show ?thesis
    using st same stale committed contention_uncontended [OF assms, of "cr_IntentID req" w] by blast
qed

lemma fences_ok_update:
  assumes ok: "fences_ok r" and new: "\<And>j v. fenced r' j v \<longleftrightarrow> (if j = i then v = u else fenced r j v)"
    and le: "rg_next r \<le> rg_next r'" and u: "0 < wi_Fence u" "wi_Fence u \<le> rg_next r'"
    and other: "\<And>j v. fenced r j v \<Longrightarrow> j \<noteq> i \<Longrightarrow> wi_Fence v \<noteq> wi_Fence u"
  shows "fences_ok r'"
  unfolding fences_ok_def
proof (intro conjI allI impI)
  show "0 < wi_Fence w" "wi_Fence w \<le> rg_next r'" if "fenced r' j w" for j w
    using that ok le u unfolding new fences_ok_def by (metis order_trans)+
  show "j = k" if "fenced r' j w \<and> fenced r' k v \<and> wi_Fence w = wi_Fence v" for j k w v
    using that ok other unfolding new fences_ok_def by metis
qed

lemma mark_stale_ok:
  assumes "registry_ok h L r" and "holds_at r IntentSubmitted i w"
  shows "registry_ok h L (snd (mark_stale r i w))"
proof -
  let ?r = "snd (mark_stale r i w)"
  have held: "holds_at ?r IntentCommitted j v \<longleftrightarrow> holds_at r IntentCommitted j v" for j v
    using assms(2) by (auto simp: holds_at_def mark_stale_def)
  have "items_ok L ?r"
    using assms by (auto simp: registry_ok_defs mark_stale_def split: if_splits)
  moreover have "active_ok h L ?r" "disjoint_ok L ?r"
    using assms(1) by (auto simp: registry_ok_def active_ok_def disjoint_ok_def held)
      (auto simp: mark_stale_def)
  ultimately show ?thesis
    by (simp add: registry_ok_def)
qed

lemma Register_ok:
  assumes "registry_ok h L r" and "lawful_call (CallRegister i)"
  shows "registry_ok h L (snd (Register h L r i))"
proof (cases "WriteIntent_Validate L i = None \<and> rg_items r (wi_ID i) = None")
  case False
  then have "snd (Register h L r i) = r"
    by (auto simp: Register_def split: option.splits)
  with assms(1) show ?thesis by simp
next
  case True
  let ?w = "i\<lparr>wi_Status := IntentSubmitted\<rparr>"
  let ?r = "r\<lparr>rg_items := (rg_items r)(wi_ID i \<mapsto> ?w)\<rparr>"
  have reg: "snd (Register h L r i) = ?r"
    using True by (simp add: Register_def Let_def)
  have valid: "\<forall>f\<in>set (wi_Footprints i). built_footprint L f"
    using True assms(2) by (auto simp: WriteIntent_Validate_def built_footprint_def WriteFootprint_Validate_iff)
  have held: "holds_at ?r IntentCommitted j v \<longleftrightarrow> holds_at r IntentCommitted j v" for j v
    using True by (auto simp: holds_at_def)
  have "items_ok L ?r"
    using assms(1) valid by (auto simp: registry_ok_defs split: if_splits)
  moreover have "active_ok h L ?r" "disjoint_ok L ?r"
    using assms(1) by (auto simp: registry_ok_def active_ok_def disjoint_ok_def held)
  ultimately show ?thesis
    by (simp add: registry_ok_def reg)
qed

lemma Release_idle:
  assumes "items_ok L r" and "\<not> (\<exists>w. holds_at r IntentCommitted i w \<and> wi_Fence w = n \<and> n \<noteq> 0)"
  shows "snd (Release h L r i n) = r"
proof (cases "rg_items r i")
  case (Some w)
  then have "wi_Status w \<in> {IntentSubmitted, IntentCommitted, IntentReleased, IntentConflicted}"
    using assms(1) by (simp add: items_ok_def)
  then have "wi_Status w \<noteq> IntentReserved" "wi_Fence w = n \<Longrightarrow> n \<noteq> 0 \<Longrightarrow> wi_Status w \<noteq> IntentCommitted"
    using assms(2) Some by (auto simp: holds_at_def)
  with Some show ?thesis
    by (auto simp: Release_def)
qed (simp add: Release_def)

lemma Release_ok:
  assumes "registry_ok h L r"
  shows "registry_ok h L (snd (Release h L r i n))"
proof (cases "\<exists>w. holds_at r IntentCommitted i w \<and> wi_Fence w = n \<and> n \<noteq> 0")
  case False
  then have "snd (Release h L r i n) = r"
    using Release_idle [of L r] assms by (simp add: registry_ok_def)
  with assms show ?thesis by simp
next
  case True
  then obtain w where w: "holds_at r IntentCommitted i w" "wi_Fence w = n" "n \<noteq> 0"
    by blast
  let ?r = "snd (Release h L r i n)"
  have rel: "?r = r\<lparr>rg_items := (rg_items r)(i \<mapsto> w\<lparr>wi_Status := IntentReleased\<rparr>),
      rg_active := fold (\<lambda>f. drop_scope i (ScopeDigest h L f)) (wi_Footprints w) (rg_active r)\<rparr>"
    using w by (simp add: Release_def holds_at_def Let_def)
  have held: "holds_at ?r IntentCommitted j v \<longleftrightarrow> holds_at r IntentCommitted j v \<and> j \<noteq> i" for j v
    using w by (auto simp: holds_at_def rel)
  have "items_ok L ?r"
    using assms w by (auto simp: registry_ok_defs rel split: if_splits)
  moreover have "disjoint_ok L ?r"
    using assms by (auto simp: registry_ok_def disjoint_ok_def held)
  moreover have "active_ok h L ?r"
  proof -
    have act: "distinct (map fst (rg_active r))"
      "\<And>k j. map_of (rg_active r) k = Some j \<longleftrightarrow>
          (\<exists>v. holds_at r IntentCommitted j v \<and> k \<in> ScopeDigest h L ` set (wi_Footprints v))"
      using assms by (auto simp: registry_ok_def active_ok_def)
    have "map_of (rg_active ?r) k = Some j \<longleftrightarrow> map_of (rg_active r) k = Some j \<and> j \<noteq> i" for k j
      using act(2) [of k i] w(1) by (auto simp: rel fold_drop_scopes holds_at_def)
    then show ?thesis
      using act by (auto simp: active_ok_def held) (simp add: rel fold_drop_distinct)
  qed
  ultimately show ?thesis
    by (simp add: registry_ok_def)
qed

lemma active_ok_update:
  assumes act: "active_ok h L r"
    and held: "\<And>j v. holds_at r' IntentCommitted j v \<longleftrightarrow> (if j = i then v = u else holds_at r IntentCommitted j v)"
    and new: "rg_active r' = fold (\<lambda>f. AList.update (ScopeDigest h L f) i) (wi_Footprints u) (rg_active r)"
    and vacant: "\<And>v. \<not> holds_at r IntentCommitted i v"
    and apart: "\<And>j v f g. holds_at r IntentCommitted j v \<Longrightarrow> f \<in> set (wi_Footprints u) \<Longrightarrow> g \<in> set (wi_Footprints v)
      \<Longrightarrow> ScopeDigest h L f \<noteq> ScopeDigest h L g"
  shows "active_ok h L r'"
proof -
  let ?K = "ScopeDigest h L ` set (wi_Footprints u)"
  have old: "map_of (rg_active r) k = Some j \<longleftrightarrow>
      (\<exists>v. holds_at r IntentCommitted j v \<and> k \<in> ScopeDigest h L ` set (wi_Footprints v))" for k j
    using act by (simp add: active_ok_def)
  have m: "map_of (rg_active r') k = (if k \<in> ?K then Some i else map_of (rg_active r) k)" for k
    by (simp add: new fold_update_scopes)
  have "map_of (rg_active r') k = Some j \<longleftrightarrow>
      (\<exists>v. holds_at r' IntentCommitted j v \<and> k \<in> ScopeDigest h L ` set (wi_Footprints v))" for k j
  proof (cases "j = i")
    case True
    then show ?thesis
      using vacant by (simp add: m held old)
  next
    case False
    have "k \<notin> ?K" if "holds_at r IntentCommitted j v" "k \<in> ScopeDigest h L ` set (wi_Footprints v)" for v
    proof
      assume "k \<in> ?K"
      then obtain f where "f \<in> set (wi_Footprints u)" "k = ScopeDigest h L f"
        by (rule imageE)
      moreover from that(2) obtain g where "g \<in> set (wi_Footprints v)" "k = ScopeDigest h L g"
        by (rule imageE)
      ultimately show False
        using apart [OF that(1), of f g] by simp
    qed
    then have "k \<notin> ?K \<or> \<not> (\<exists>v. holds_at r IntentCommitted j v \<and> k \<in> ScopeDigest h L ` set (wi_Footprints v))"
      by blast
    with False show ?thesis
      by (elim disjE) (simp_all add: m held old)
  qed
  moreover have "distinct (map fst (rg_active r'))"
    using act by (simp add: active_ok_def new fold_update_distinct)
  ultimately show ?thesis
    by (simp add: active_ok_def)
qed

lemma commit_intent_ok:
  assumes ok: "registry_ok h L r" and w: "holds_at r IntentSubmitted i w" and un: "uncontended L r i w"
    and free: "collision_free h L (registered r)" and law: "id_law L"
  shows "registry_ok h L (snd (commit_intent h L r i w))"
proof -
  let ?r = "snd (commit_intent h L r i w)" and ?v = "w\<lparr>wi_Fence := rg_next r + 1, wi_Status := IntentCommitted\<rparr>"
  have com: "?r = r\<lparr>rg_next := rg_next r + 1, rg_items := (rg_items r)(i \<mapsto> ?v),
      rg_active := fold (\<lambda>f. AList.update (ScopeDigest h L f) i) (wi_Footprints w) (rg_active r)\<rparr>"
    using ok w by (auto simp: commit_intent_def Let_def registry_ok_defs)
  have held: "holds_at ?r IntentCommitted j v \<longleftrightarrow> (if j = i then v = ?v else holds_at r IntentCommitted j v)" for j v
    by (auto simp: holds_at_def com)
  have built: "built_footprint L f" "f \<in> registered r" if "rg_items r j = Some v" "f \<in> set (wi_Footprints v)" for j v f
    using ok that by (auto simp: registry_ok_defs registered_def ran_def)
  have clear: "WriteFootprint_Overlaps L f g = Inr False \<and> WriteFootprint_Overlaps L g f = Inr False
      \<and> ScopeDigest h L f \<noteq> ScopeDigest h L g"
    if "holds_at r IntentCommitted j v" "f \<in> set (wi_Footprints w)" "g \<in> set (wi_Footprints v)" for j v f g
  proof -
    have "j \<noteq> i"
      using w that(1) by (auto simp: holds_at_def)
    then have fg: "WriteFootprint_Overlaps L f g = Inr False"
      using un that by (auto simp: uncontended_def)
    have bf: "built_footprint L f" "f \<in> registered r" and bg: "built_footprint L g" "g \<in> registered r"
      using built w that by (auto simp: holds_at_def)
    have "scope_bytes L f \<noteq> scope_bytes L g"
      using scope_bytes_same_overlap [OF law bf(1) bg(1)] fg by auto
    then have "ScopeDigest h L f \<noteq> ScopeDigest h L g"
      using free bf(2) bg(2) unfolding collision_free_def by blast
    moreover have "WriteFootprint_Overlaps L g f = Inr False"
      using fg bf(1) bg(1) WriteFootprint_Overlaps_sym [of L f g] by (simp add: built_footprint_def)
    ultimately show ?thesis
      using fg by blast
  qed
  have "items_ok L ?r"
    using ok w by (auto simp: registry_ok_defs com split: if_splits)
  moreover have "disjoint_ok L ?r"
    using ok clear by (auto simp: registry_ok_def disjoint_ok_def held split: if_splits)
  moreover have "active_ok h L ?r"
  proof (rule active_ok_update [of h L r _ i ?v])
    show "\<not> holds_at r IntentCommitted i v" for v
      using w by (auto simp: holds_at_def)
    show "ScopeDigest h L f \<noteq> ScopeDigest h L g"
      if "holds_at r IntentCommitted j v" "f \<in> set (wi_Footprints ?v)" "g \<in> set (wi_Footprints v)" for j v f g
      using clear [of j v f g] that by simp
  qed (use ok in \<open>simp_all add: registry_ok_def held, simp_all add: com\<close>)
  ultimately show ?thesis
    by (simp add: registry_ok_def)
qed

lemma call_keeps_footprints:
  assumes "rg_items r i = Some w"
  shows "\<exists>w'. rg_items (after_call h L r c) i = Some w' \<and> wi_Footprints w' = wi_Footprints w"
proof (cases c)
  case (CallRegister x)
  then show ?thesis
    using assms by (auto simp: Register_def Let_def split: option.splits)
next
  case (CallCommit vo req)
  then show ?thesis
    using assms by (auto simp: ValidateAtCommit_def mark_stale_def commit_intent_def Let_def
        split: option.splits sum.splits bool.splits)
next
  case (CallRelease x n)
  then show ?thesis
    using assms by (auto simp: Release_def Let_def split: option.splits)
qed

lemma registered_mono: "registered r \<subseteq> registered (after_call h L r c)"
proof
  fix f
  assume "f \<in> registered r"
  then obtain i w where "rg_items r i = Some w" "f \<in> set (wi_Footprints w)"
    by (auto simp: registered_def ran_def)
  then show "f \<in> registered (after_call h L r c)"
    using call_keeps_footprints [of r i w h L c] by (auto simp: registered_def ran_def)
qed

lemma collision_free_mono: "collision_free h L S \<Longrightarrow> T \<subseteq> S \<Longrightarrow> collision_free h L T"
  unfolding collision_free_def by blast

lemma commit_ok:
  assumes "registry_ok h L r" and "fair_order vo" and "collision_free h L (registered r)" and "id_law L"
  shows "registry_ok h L (snd (ValidateAtCommit h L vo r req))"
proof -
  have "active_ok h L r" "items_ok L r"
    using assms(1) by (simp_all add: registry_ok_def)
  then show ?thesis
    using assms(2)
  proof (cases rule: commit_registry_cases [of h L r vo req])
    case same
    then show ?thesis using assms(1) by simp
  next
    case (stale w)
    then show ?thesis using mark_stale_ok [OF assms(1)] by simp
  next
    case (committed w)
    then show ?thesis using commit_intent_ok [OF assms(1)] assms(3,4) by simp
  qed
qed

lemma call_ok:
  assumes "registry_ok h L r" and "lawful_call c" and "collision_free h L (registered r)" and "id_law L"
  shows "registry_ok h L (after_call h L r c)"
  using assms commit_ok Register_ok Release_ok by (cases c) auto

lemma reachable_registry_ok:
  "reachable_registry h L r \<Longrightarrow> collision_free h L (registered r) \<Longrightarrow> id_law L \<Longrightarrow> registry_ok h L r"
proof (induction rule: reachable_registry.induct)
  case fresh
  then show ?case by (simp add: registry_ok_defs NewRegistry_def)
next
  case (called r c)
  have free: "collision_free h L (registered r)"
    using collision_free_mono [OF called.prems(1) registered_mono] .
  show ?case
    using call_ok [OF called.IH [OF free called.prems(2)] called.hyps(2) free called.prems(2)] .
qed

subsection \<open>No missing owner\<close>

lemma first_err_Some: "first_err c d = Some e \<Longrightarrow> c = Some e \<or> d = Some e"
  by (auto simp: first_err_def split: option.splits)

lemma err_loop_Some: "err_loop f xs = Some e \<Longrightarrow> \<exists>x\<in>set xs. f x = Some e"
  by (induction xs) (auto dest: first_err_Some)

lemma WriteFootprint_Validate_error: "WriteFootprint_Validate L w = Some e \<Longrightarrow> e = ErrInvalidFootprint"
  by (auto simp: WriteFootprint_Validate_def FieldPath_Validate_def AuthorityScope_Validate_def
      dest!: first_err_Some err_loop_Some)

lemma Overlaps_not_nil [simp]: "WriteFootprint_Overlaps L f g \<noteq> Inl NilDereference"
  by (auto simp: WriteFootprint_Overlaps_def guard_res_Inl_iff split: sum.splits
      dest!: WriteFootprint_Validate_error)

lemma all_pass_Inl: "all_pass f xs = Inl e \<Longrightarrow> \<exists>x\<in>set xs. f x = Inl e"
  by (induction xs) (auto simp: bind_res_Inl_iff split: if_splits)

lemma observed_not_nil [simp]: "observed L w gs \<noteq> Inl NilDereference"
  using Overlaps_not_nil by (induction gs) (auto simp: bind_res_Inl_iff)

lemma contention_not_nil:
  assumes "active_ok h L r" and "items_ok L r" and "fair_order vo"
  shows "contention L vo r self n fs \<noteq> Inl NilDereference"
proof -
  have "clear_of_owner L (rg_items r) self f i \<noteq> Inl NilDereference" if owner: "i \<in> snd ` set (rg_active r)" for f i
  proof -
    obtain w where "rg_items r i = Some w"
      using owner unfolding active_owner [OF assms(1,2)] by (auto simp: holds_at_def)
    then show ?thesis
      using Overlaps_not_nil by (auto simp: clear_of_owner_def clear_of_def bind_res_Inl_iff dest!: all_pass_Inl)
  qed
  moreover have "snd ` set (vo k (rg_active r)) = snd ` set (rg_active r)" for k
    using assms(3) by (simp add: fair_order_def)
  ultimately have "all_pass (clear_of_owner L (rg_items r) self f) (map snd (vo k (rg_active r))) \<noteq> Inl NilDereference" for f k
    using all_pass_Inl [of "clear_of_owner L (rg_items r) self f" "map snd (vo k (rg_active r))" NilDereference]
    by auto
  then show ?thesis
    by (induction fs arbitrary: n) (auto simp: bind_res_Inl_iff)
qed

lemma commit_not_nil:
  assumes "active_ok h L r" and "items_ok L r" and "fair_order vo"
  shows "fst (ValidateAtCommit h L vo r req) \<noteq> Inl NilDereference"
  using contention_not_nil [OF assms] observed_not_nil
  by (auto simp: ValidateAtCommit_def mark_stale_def commit_intent_def Let_def
      split: option.splits sum.splits bool.splits dest!: all_pass_Inl)

subsection \<open>Properties of the registry\<close>

text \<open>
  C4: safety of the commit fence. In every registry that calls can produce, two different committed
  intents never write the same field of one resource at the same time: no footprint of one overlaps a
  footprint of the other. It is assumed that the digests of the registered scopes do not collide.
\<close>

theorem committed_intents_never_overlap:
  assumes "reachable_registry h L r" and "collision_free h L (registered r)" and "id_law L"
    and "holds_at r IntentCommitted i w" and "holds_at r IntentCommitted j v" and "i \<noteq> j"
    and "f \<in> set (wi_Footprints w)" and "g \<in> set (wi_Footprints v)"
  shows "WriteFootprint_Overlaps L f g = Inr False"
  using reachable_registry_ok [OF assms(1-3)] assms(4-8) unfolding registry_ok_def disjoint_ok_def by blast

text \<open>
  C5: what a commit decides. The order in which the registry visits its active scopes does not matter: a
  registered intent is committed exactly when it is not yet terminal, for every footprint the first current
  observation that overlaps it carries a valid revision token with the same canonical text as the expected
  one (for the tokens that constructors return: the same token), and no other committed intent overlaps it;
  and the registry never runs into a missing owner. It is assumed that the digests of the registered scopes
  do not collide.
\<close>

theorem commit_decides_by_baseline_and_contention:
  assumes "reachable_registry h L r" and "collision_free h L (registered r)" and "id_law L"
    and "fair_order vo" and "rg_items r (cr_IntentID req) = Some w"
  shows "((\<exists>res. fst (ValidateAtCommit h L vo r req) = Inr res) \<longleftrightarrow>
      \<not> IntentStatus_terminal (wi_Status w) \<and> observations_current L (cr_Current req) w
      \<and> uncontended L r (cr_IntentID req) w)
    \<and> fst (ValidateAtCommit h L vo r req) \<noteq> Inl NilDereference"
  using reachable_registry_ok [OF assms(1-3)] assms(4,5) commit_succeeds_iff [of h L r vo req w]
    commit_not_nil [of h L r vo req] by (simp add: registry_ok_def)

definition status_moves :: "(IntentStatus \<times> IntentStatus) set" where
  "status_moves = {(IntentSubmitted, IntentCommitted), (IntentSubmitted, IntentConflicted),
     (IntentCommitted, IntentReleased)}"

lemma commit_moves:
  assumes "registry_ok h L r" and "fair_order vo" and "rg_items r i = Some w"
  shows "\<exists>w'. rg_items (snd (ValidateAtCommit h L vo r req)) i = Some w'
    \<and> (w' = w \<or> (wi_Status w, wi_Status w') \<in> status_moves \<and> w' = w\<lparr>wi_Status := wi_Status w', wi_Fence := wi_Fence w'\<rparr>)"
proof -
  have "active_ok h L r" "items_ok L r"
    using assms(1) by (simp_all add: registry_ok_def)
  then show ?thesis
    using assms(2)
    by (cases rule: commit_registry_cases [of h L r vo req])
      (use assms(3) in \<open>auto simp: mark_stale_def commit_intent_def Let_def holds_at_def status_moves_def\<close>)
qed

lemma release_moves:
  assumes "registry_ok h L r" and "rg_items r i = Some w"
  shows "\<exists>w'. rg_items (snd (Release h L r j n)) i = Some w'
    \<and> (w' = w \<or> (wi_Status w, wi_Status w') \<in> status_moves \<and> w' = w\<lparr>wi_Status := wi_Status w', wi_Fence := wi_Fence w'\<rparr>)"
  using items_okD(3) [OF assms] assms(2) by (auto simp: Release_def status_moves_def Let_def split: option.splits)

text \<open>
  C19: the life of a write intent. A call leaves every registered intent in place with its write set,
  tenant, proposal and snapshot, and either leaves its status too or moves it from submitted to
  committed or conflicted, or from committed to released. Nothing leaves released or conflicted.
  It is assumed that the digests of the registered scopes do not collide.
\<close>

theorem intent_status_machine:
  assumes "reachable_registry h L r" and "collision_free h L (registered r)" and "id_law L"
    and "lawful_call c" and "rg_items r i = Some w"
  shows "\<exists>w'. rg_items (after_call h L r c) i = Some w'
    \<and> (w' = w \<or> (wi_Status w, wi_Status w') \<in> status_moves \<and> w' = w\<lparr>wi_Status := wi_Status w', wi_Fence := wi_Fence w'\<rparr>)"
proof -
  note ok = reachable_registry_ok [OF assms(1-3)]
  show ?thesis
  proof (cases c)
    case (CallRegister x)
    then show ?thesis
      using assms(5) by (auto simp: Register_def Let_def split: option.splits)
  next
    case (CallCommit vo req)
    then show ?thesis
      using commit_moves [OF ok _ assms(5)] assms(4) by simp
  next
    case (CallRelease j n)
    then show ?thesis
      using release_moves [OF ok assms(5)] by simp
  qed
qed

subsection \<open>Fences\<close>

definition commits :: "(bytes \<Rightarrow> bytes) \<Rightarrow> 'u id_libs \<Rightarrow> Registry \<Rightarrow> registry_call \<Rightarrow> bool" where
  "commits h L r c \<longleftrightarrow>
     (case c of CallCommit vo req \<Rightarrow> \<not> isl (fst (ValidateAtCommit h L vo r req)) | _ \<Rightarrow> False)"

text \<open>The registries that calls reach with \<open>n\<close> successful commits.\<close>

inductive reachable_after :: "(bytes \<Rightarrow> bytes) \<Rightarrow> 'u id_libs \<Rightarrow> nat \<Rightarrow> Registry \<Rightarrow> bool"
  for h :: "bytes \<Rightarrow> bytes" and L :: "'u id_libs" where
  fresh: "reachable_after h L 0 NewRegistry"
| called: "reachable_after h L n r \<Longrightarrow> lawful_call c
    \<Longrightarrow> reachable_after h L (if commits h L r c then Suc n else n) (after_call h L r c)"

lemma reachable_after_reachable: "reachable_after h L n r \<Longrightarrow> reachable_registry h L r"
  by (induction rule: reachable_after.induct) (auto intro: reachable_registry.intros)

lemma commit_result:
  assumes "fst (ValidateAtCommit h L vo r req) = Inr res"
  shows "\<exists>w. rg_items r (cr_IntentID req) = Some w
      \<and> ValidateAtCommit h L vo r req = commit_intent h L r (cr_IntentID req) w" and "co_Fence res = rg_next r + 1"
proof -
  show ex: "\<exists>w. rg_items r (cr_IntentID req) = Some w
      \<and> ValidateAtCommit h L vo r req = commit_intent h L r (cr_IntentID req) w"
    using assms by (auto simp: ValidateAtCommit_def mark_stale_def split: option.splits if_splits sum.splits bool.splits)
  show "co_Fence res = rg_next r + 1"
    using assms ex by (auto simp: commit_intent_def Let_def)
qed

lemma refused_commit:
  assumes "isl (fst (ValidateAtCommit h L vo r req))"
  shows "snd (ValidateAtCommit h L vo r req) = r
    \<or> (\<exists>w. rg_items r (cr_IntentID req) = Some w \<and> \<not> IntentStatus_terminal (wi_Status w)
        \<and> snd (ValidateAtCommit h L vo r req) = snd (mark_stale r (cr_IntentID req) w))"
  using assms by (auto simp: ValidateAtCommit_def commit_intent_def Let_def split: option.splits sum.splits bool.splits)

lemma call_next: "rg_next (after_call h L r c) = (if commits h L r c then rg_next r + 1 else rg_next r)"
proof (cases c)
  case (CallRegister i)
  then show ?thesis by (simp add: commits_def Register_def Let_def split: option.splits)
next
  case (CallCommit vo req)
  show ?thesis
  proof (cases "fst (ValidateAtCommit h L vo r req)")
    case (Inl e)
    then show ?thesis
      using refused_commit [of h L vo r req] by (auto simp: CallCommit commits_def mark_stale_def)
  next
    case (Inr res)
    then show ?thesis
      using commit_result(1) [OF Inr] by (auto simp: CallCommit commits_def commit_intent_def Let_def)
  qed
next
  case (CallRelease i n)
  then show ?thesis by (simp add: commits_def Release_def Let_def split: option.splits)
qed

lemma fences_same: "fences_ok r \<Longrightarrow> (\<And>j v. fenced r' j v \<longleftrightarrow> fenced r j v) \<Longrightarrow> rg_next r' = rg_next r \<Longrightarrow> fences_ok r'"
  by (simp add: fences_ok_def)

lemma Release_fences:
  assumes "fences_ok r" and "items_ok L r"
  shows "fences_ok (snd (Release h L r i n))"
proof (cases "\<exists>w. holds_at r IntentCommitted i w \<and> wi_Fence w = n \<and> n \<noteq> 0")
  case False
  then have "snd (Release h L r i n) = r"
    by (rule Release_idle [OF assms(2)])
  with assms(1) show ?thesis by simp
next
  case True
  then obtain w where w: "rg_items r i = Some w" "wi_Status w = IntentCommitted" "wi_Fence w = n" "n \<noteq> 0"
    by (auto simp: holds_at_def)
  have rel: "rg_items (snd (Release h L r i n)) = (rg_items r)(i \<mapsto> w\<lparr>wi_Status := IntentReleased\<rparr>)"
    "rg_next (snd (Release h L r i n)) = rg_next r"
    using w by (simp_all add: Release_def Let_def)
  have mine: "fenced r i w"
    using w by (simp add: fenced_def)
  show ?thesis
  proof (rule fences_ok_update [of r _ i "w\<lparr>wi_Status := IntentReleased\<rparr>"])
    show "wi_Fence v \<noteq> wi_Fence (w\<lparr>wi_Status := IntentReleased\<rparr>)" if "fenced r j v" "j \<noteq> i" for j v
      using fences_okD(2) [OF assms(1) that(1) mine] that(2) by auto
  qed (use assms(1) fences_okD(1) [OF assms(1) mine] in \<open>auto simp: rel fenced_def\<close>)
qed

lemma call_fences:
  assumes "fences_ok r" and "items_ok L r" and "commits h L r c \<Longrightarrow> rg_next r < rg_next r + 1"
  shows "fences_ok (after_call h L r c)"
proof (cases c)
  case (CallRegister i)
  show ?thesis
  proof (rule fences_same [OF assms(1)])
    show "fenced (after_call h L r c) j v \<longleftrightarrow> fenced r j v" for j v
      by (cases "rg_items r (wi_ID i)"; cases "WriteIntent_Validate L i") (auto simp: CallRegister Register_def Let_def fenced_def)
    show "rg_next (after_call h L r c) = rg_next r"
      using call_next [of h L r c] by (simp add: commits_def CallRegister)
  qed
next
  case (CallCommit vo req)
  show ?thesis
  proof (cases "fst (ValidateAtCommit h L vo r req)")
    case (Inl e)
    then have "snd (ValidateAtCommit h L vo r req) = r
        \<or> (\<exists>w. rg_items r (cr_IntentID req) = Some w \<and> \<not> IntentStatus_terminal (wi_Status w)
          \<and> snd (ValidateAtCommit h L vo r req) = snd (mark_stale r (cr_IntentID req) w))"
      by (intro refused_commit) simp
    then show ?thesis
    proof (elim disjE exE conjE)
      fix w
      assume w: "rg_items r (cr_IntentID req) = Some w" "\<not> IntentStatus_terminal (wi_Status w)"
        "snd (ValidateAtCommit h L vo r req) = snd (mark_stale r (cr_IntentID req) w)"
      then have "fenced (after_call h L r c) j v \<longleftrightarrow> fenced r j v" for j v
        by (auto simp: CallCommit mark_stale_def fenced_def IntentStatus_terminal_def)
      moreover have "rg_next (after_call h L r c) = rg_next r"
        using w(3) by (simp add: CallCommit mark_stale_def)
      ultimately show ?thesis
        by (rule fences_same [OF assms(1)])
    qed (simp add: CallCommit assms(1))
  next
    case (Inr res)
    then obtain w where w: "ValidateAtCommit h L vo r req = commit_intent h L r (cr_IntentID req) w"
      using commit_result(1) by blast
    let ?v = "w\<lparr>wi_Fence := rg_next r + 1, wi_Status := IntentCommitted\<rparr>"
    have new: "rg_items (after_call h L r c) = (rg_items r)(cr_IntentID req \<mapsto> ?v)" "rg_next (after_call h L r c) = rg_next r + 1"
      by (simp_all add: CallCommit w commit_intent_def Let_def)
    have less: "rg_next r < rg_next r + 1"
      using assms(3) by (simp add: CallCommit commits_def Inr)
    show ?thesis
    proof (rule fences_ok_update [OF assms(1), of _ "cr_IntentID req" ?v])
      show "wi_Fence v \<noteq> wi_Fence ?v" if "fenced r j v" for j v
        using fences_okD(1) [OF assms(1) that] less by auto
    qed (use less in \<open>auto simp: new fenced_def word_gt_0\<close>)
  qed
next
  case (CallRelease i n)
  then show ?thesis using Release_fences [OF assms(1,2)] by simp
qed

lemma reachable_after_fences:
  "reachable_after h L n r \<Longrightarrow> n < 2 ^ 64 \<Longrightarrow> collision_free h L (registered r) \<Longrightarrow> id_law L
   \<Longrightarrow> unat (rg_next r) = n \<and> fences_ok r"
proof (induction rule: reachable_after.induct)
  case fresh
  then show ?case by (simp add: fences_ok_def fenced_def NewRegistry_def)
next
  case (called n r c)
  have free: "collision_free h L (registered r)"
    using collision_free_mono [OF called.prems(2) registered_mono] .
  have "items_ok L r"
    using reachable_registry_ok [OF reachable_after_reachable [OF called.hyps(1)] free called.prems(3)]
    by (simp add: registry_ok_def)
  moreover have ih: "unat (rg_next r) = n" "fences_ok r"
    using called.IH [OF _ free called.prems(3)] called.prems(1) by (auto split: if_splits)
  moreover have "unat (rg_next r + 1) = Suc n" "rg_next r < rg_next r + 1" if "commits h L r c"
    using that called.prems(1) ih(1) by (simp_all add: unat_word_ariths word_less_nat_alt)
  ultimately show ?case
    using call_fences [of r L h c] by (simp add: call_next)
qed

text \<open>
  C21: fences. A registry that has made \<open>n\<close> commits hands out the fence \<open>n + 1\<close> at the next one, as long as
  that number is below 2 to the 64, where the 64-bit counter of the code wraps around; it is larger than the
  fence of every committed or released intent, and a successful release is made by the only intent that holds
  the presented fence. It is assumed that the digests of the registered scopes do not collide.
\<close>

theorem fences_are_fresh_and_exclusive:
  assumes "reachable_after h L n r" and "n + 1 < 2 ^ 64" and "collision_free h L (registered r)" and "id_law L"
  shows "(fst (ValidateAtCommit h L vo r req) = Inr res
      \<longrightarrow> unat (co_Fence res) = n + 1 \<and> (fenced r j v \<longrightarrow> wi_Fence v < co_Fence res))
    \<and> (fst (Release h L r i k) = Inr w \<and> fenced r j v \<and> wi_Fence v = k \<longrightarrow> j = i)"
proof -
  have ok: "unat (rg_next r) = n" "fences_ok r"
    using reachable_after_fences [OF assms(1) _ assms(3,4)] assms(2) by simp_all
  have up: "unat (rg_next r + 1) = n + 1" "rg_next r < rg_next r + 1"
    using ok(1) assms(2) by (simp_all add: unat_word_ariths word_less_nat_alt)
  have items: "items_ok L r"
    using reachable_registry_ok [OF reachable_after_reachable [OF assms(1)] assms(3,4)] by (simp add: registry_ok_def)
  have "unat (co_Fence res) = n + 1 \<and> (fenced r j v \<longrightarrow> wi_Fence v < co_Fence res)"
    if "fst (ValidateAtCommit h L vo r req) = Inr res"
  proof -
    have "co_Fence res = rg_next r + 1"
      using that by (rule commit_result(2))
    then show ?thesis
      using up fences_okD(1) [OF ok(2), of j v] by (auto intro: order_le_less_trans)
  qed
  moreover have "j = i" if rel: "fst (Release h L r i k) = Inr w" and v: "fenced r j v" "wi_Fence v = k"
  proof -
    obtain u where u: "rg_items r i = Some u" "wi_Fence u = k"
      "wi_Status u \<in> {IntentCommitted, IntentReleased, IntentReserved}"
      using rel by (auto simp: Release_def Let_def split: option.splits if_splits)
    moreover have "wi_Status u \<noteq> IntentReserved"
      using items u(1) by (fastforce simp: items_ok_def)
    ultimately have "fenced r i u" "wi_Fence v = wi_Fence u"
      using v(2) by (auto simp: fenced_def)
    then show ?thesis
      using fences_okD(2) [OF ok(2) v(1)] by blast
  qed
  ultimately show ?thesis by blast
qed

lemma Release_held:
  assumes "fst (Release h L r i n) = Inr w" and "holds_at (snd (Release h L r i n)) IntentCommitted j v"
  shows "j \<noteq> i \<and> holds_at r IntentCommitted j v"
  using assms by (auto simp: Release_def holds_at_def Let_def split: option.splits if_splits)

text \<open>
  C20: release unblocks. After the holder of a fence releases it, a submitted intent that overlapped no
  committed intent but the released one is committed as soon as a request observes its baseline.
  It is assumed that the digests of the registered scopes do not collide.
\<close>

theorem release_unblocks_contender:
  assumes "reachable_registry h L r" and "collision_free h L (registered r)" and "id_law L" and "fair_order vo"
    and "fst (Release h L r i n) = Inr released" and "snd (Release h L r i n) = r'"
    and "holds_at r' IntentSubmitted (cr_IntentID req) w" and "observations_current L (cr_Current req) w"
    and "\<And>j v. holds_at r IntentCommitted j v \<Longrightarrow> j \<noteq> i \<Longrightarrow> list_all (\<lambda>f. list_all (\<lambda>g.
          WriteFootprint_Overlaps L f g = Inr False) (wi_Footprints v)) (wi_Footprints w)"
  shows "\<exists>res. fst (ValidateAtCommit h L vo r' req) = Inr res"
proof -
  have ok: "registry_ok h L r'"
    using Release_ok [OF reachable_registry_ok [OF assms(1-3)], of i n] assms(6) by simp
  have "uncontended L r' (cr_IntentID req) w"
    using assms(5,6,9) Release_held [OF assms(5)] by (auto simp: uncontended_def list_all_iff)
  moreover have "rg_items r' (cr_IntentID req) = Some w" "\<not> IntentStatus_terminal (wi_Status w)"
    using assms(7) by (auto simp: holds_at_def IntentStatus_terminal_def)
  ultimately show ?thesis
    using commit_succeeds_iff [of h L r' vo req w] ok assms(4,8) by (simp add: registry_ok_def)
qed

subsection \<open>A concrete registry\<close>

lemma hex_digit_inj: "a < 16 \<Longrightarrow> b < 16 \<Longrightarrow> hex_digit a = hex_digit b \<Longrightarrow> a = b"
  unfolding hex_digit_def by (subst (asm) nth_eq_iff_index_eq) simp_all

lemma hex_encode_inj: "hex_encode a = hex_encode b \<Longrightarrow> a = b"
proof (induction a arbitrary: b)
  case Nil
  then show ?case by (cases b) (simp_all add: hex_encode_def)
next
  case (Cons c cs)
  then obtain d ds where b: "b = d # ds"
    by (cases b) (simp_all add: hex_encode_def)
  have lt: "of_char x div 16 < (16 :: nat)" "of_char x mod 16 < (16 :: nat)" for x :: char
    using of_char_mod_256 [of x, where ?'a = nat] by (simp_all add: div_less_iff_less_mult)
  have "hex_digit (of_char c div 16) = hex_digit (of_char d div 16)"
    "hex_digit (of_char c mod 16) = hex_digit (of_char d mod 16)" "hex_encode cs = hex_encode ds"
    using Cons.prems b by (simp_all add: hex_encode_def)
  then have "of_char c div 16 = (of_char d div 16 :: nat)" "of_char c mod 16 = (of_char d mod 16 :: nat)" "cs = ds"
    using hex_digit_inj lt Cons.IH by blast+
  then have "of_char c = (of_char d :: nat)" "cs = ds"
    by (metis div_mult_mod_eq)+
  then show ?case
    by (simp add: b)
qed

lemma call_items_from:
  assumes "rg_items (after_call h L r c) i = Some w'"
  shows "(\<exists>w. rg_items r i = Some w \<and> wi_Footprints w' = wi_Footprints w)
    \<or> (\<exists>x. c = CallRegister x \<and> i = wi_ID x \<and> WriteIntent_Validate L x = None \<and> wi_Footprints w' = wi_Footprints x)"
proof (cases c)
  case (CallRegister x)
  then show ?thesis
    using assms by (auto simp: Register_def Let_def split: option.splits if_splits)
next
  case (CallCommit vo req)
  then show ?thesis
    using assms by (auto simp: ValidateAtCommit_def mark_stale_def commit_intent_def Let_def
        split: option.splits sum.splits bool.splits if_splits)
next
  case (CallRelease x n)
  then show ?thesis
    using assms by (auto simp: Release_def Let_def split: option.splits if_splits)
qed

lemma reachable_items_valid:
  "reachable_registry h L r \<Longrightarrow> f \<in> registered r \<Longrightarrow> WriteFootprint_Validate L f = None"
proof (induction rule: reachable_registry.induct)
  case fresh
  then show ?case by (simp add: registered_def NewRegistry_def)
next
  case (called r c)
  then obtain i w' where w': "rg_items (after_call h L r c) i = Some w'" "f \<in> set (wi_Footprints w')"
    by (auto simp: registered_def ran_def)
  from call_items_from [OF w'(1)] show ?case
  proof (elim disjE exE conjE)
    fix w
    assume "rg_items r i = Some w" "wi_Footprints w' = wi_Footprints w"
    then have "f \<in> registered r"
      using w'(2) by (auto simp: registered_def ran_def)
    then show ?case by (rule called.IH)
  next
    fix x
    assume "WriteIntent_Validate L x = None" "wi_Footprints w' = wi_Footprints x"
    then show ?case
      using w'(2) by (auto simp: WriteIntent_Validate_def)
  qed
qed

lemma collision_free_plain:
  assumes "reachable_registry h L r"
  shows "collision_free (\<lambda>b. b) L (registered r)"
  using reachable_items_valid [OF assms] hex_encode_inj by (simp add: collision_free_def ScopeDigest_def)

definition run_calls :: "registry_call list \<Rightarrow> Registry" where
  "run_calls cs = fold (\<lambda>c r. after_call (\<lambda>b. b) ref_libs r c) cs NewRegistry"

lemma run_calls_reachable:
  assumes "list_all lawful_call cs"
  shows "reachable_registry (\<lambda>b. b) ref_libs (run_calls cs)"
proof -
  have "reachable_registry (\<lambda>b. b) ref_libs r \<Longrightarrow> list_all lawful_call cs
      \<Longrightarrow> reachable_registry (\<lambda>b. b) ref_libs (fold (\<lambda>c r. after_call (\<lambda>b. b) ref_libs r c) cs r)" for r
    by (induction cs arbitrary: r) (auto intro: reachable_registry.called)
  then show ?thesis
    unfolding run_calls_def using assms reachable_registry.fresh by blast
qed

lemma run_calls_after:
  assumes "list_all lawful_call cs"
  shows "\<exists>n \<le> length cs. reachable_after (\<lambda>b. b) ref_libs n (run_calls cs)"
proof -
  have "reachable_after (\<lambda>b. b) ref_libs m r \<Longrightarrow> list_all lawful_call cs
      \<Longrightarrow> \<exists>n \<le> m + length cs. reachable_after (\<lambda>b. b) ref_libs n (fold (\<lambda>c r. after_call (\<lambda>b. b) ref_libs r c) cs r)" for m r
  proof (induction cs arbitrary: m r)
    case (Cons c cs)
    then obtain n where n: "n \<le> (if commits (\<lambda>b. b) ref_libs r c then Suc m else m) + length cs"
      "reachable_after (\<lambda>b. b) ref_libs n (fold (\<lambda>c r. after_call (\<lambda>b. b) ref_libs r c) (c # cs) r)"
      using Cons.IH [OF reachable_after.called [OF Cons.prems(1), of c]] by auto
    then have "n \<le> m + length (c # cs)"
      by (auto split: if_splits)
    with n(2) show ?case by blast
  qed auto
  from this [OF reachable_after.fresh assms] show ?thesis
    by (simp add: run_calls_def)
qed

fun call_ids :: "registry_call \<Rightarrow> string set" where
  "call_ids (CallRegister x) = {wi_ID x}"
| "call_ids _ = {}"

lemma run_calls_ids:
  assumes "rg_items (run_calls cs) i = Some w"
  shows "i \<in> \<Union> (call_ids ` set cs)"
proof -
  have "rg_items (fold (\<lambda>c r. after_call (\<lambda>b. b) ref_libs r c) cs r) i = Some w
      \<Longrightarrow> rg_items r i \<noteq> None \<or> i \<in> \<Union> (call_ids ` set cs)" for r
  proof (induction cs arbitrary: r)
    case (Cons c cs)
    then have "rg_items (after_call (\<lambda>b. b) ref_libs r c) i \<noteq> None \<or> i \<in> \<Union> (call_ids ` set cs)"
      by simp
    then show ?case
      using call_items_from [of "\<lambda>b. b" ref_libs r c i] by fastforce
  qed simp
  from this [of NewRegistry] show ?thesis
    using assms by (simp add: run_calls_def NewRegistry_def)
qed

lemma jan_built: "EffectiveInterval_Validate (jan_interval m n) = None \<Longrightarrow> built_interval (jan_interval m n)"
  by (simp add: built_interval_def)
    (simp add: jan_interval_def zero_EffectiveInterval_def zero_Instant_def int64_range_def byte_policy_def)

definition demo_intent :: "string \<Rightarrow> WriteFootprint \<Rightarrow> WriteIntent" where
  "demo_intent i f = \<lparr>wi_TenantID = ''acme'', wi_ID = i, wi_ProposalID = ''p'', wi_Footprints = [f],
     wi_SnapshotDigest = ''s'', wi_Status = IntentDraft, wi_Fence = 0\<rparr>"

definition demo_request :: "string \<Rightarrow> WriteFootprint \<Rightarrow> CommitRequest" where
  "demo_request i f = \<lparr>cr_TenantID = ''acme'', cr_IntentID = i, cr_SnapshotDigest = ''s'', cr_Current = [f],
     cr_Streams = [], cr_Writes = [], cr_FootprintDigests = []\<rparr>"

definition early_write :: WriteFootprint where
  "early_write = demo_write ''comp.pay'' 1 10 1"

definition late_write :: WriteFootprint where
  "late_write = demo_write ''comp.pay'' 10 20 1"

definition parent_write :: WriteFootprint where
  "parent_write = demo_write ''comp'' 5 8 1"

definition demo_registers :: "registry_call list" where
  "demo_registers = [CallRegister (demo_intent ''a'' early_write), CallRegister (demo_intent ''b'' parent_write),
     CallRegister (demo_intent ''c'' late_write)]"

abbreviation demo_commit :: "string \<Rightarrow> WriteFootprint \<Rightarrow> registry_call" where
  "demo_commit i f \<equiv> CallCommit (\<lambda>_ xs. xs) (demo_request i f)"

definition after_first :: Registry where
  "after_first = run_calls (demo_registers @ [demo_commit ''a'' early_write])"

lemma demo_lawful: "list_all lawful_call demo_registers" "lawful_call (demo_commit i f)"
  by (simp_all add: demo_registers_def demo_intent_def early_write_def parent_write_def late_write_def demo_write_def
      jan_built fair_order_def)

lemma after_first_reachable: "reachable_registry (\<lambda>b. b) ref_libs after_first"
  unfolding after_first_def by (rule run_calls_reachable) (simp add: demo_lawful del: lawful_call.simps)

lemma after_first_after: "\<exists>n. n + 1 < 2 ^ 64 \<and> reachable_after (\<lambda>b. b) ref_libs n after_first"
proof -
  obtain n where "n \<le> length (demo_registers @ [demo_commit ''a'' early_write])" "reachable_after (\<lambda>b. b) ref_libs n after_first"
    using run_calls_after [of "demo_registers @ [demo_commit ''a'' early_write]"] demo_lawful
    by (auto simp: after_first_def simp del: lawful_call.simps)
  then show ?thesis
    by (intro exI [of _ n]) (simp add: demo_registers_def)
qed

definition brief :: "Registry \<Rightarrow> string \<Rightarrow> (IntentStatus \<times> 64 word \<times> WriteFootprint list) option" where
  "brief r i = map_option (\<lambda>w. (wi_Status w, wi_Fence w, wi_Footprints w)) (rg_items r i)"

lemma brief_Some:
  "brief r i = Some (st, n, fs) \<longleftrightarrow> (\<exists>w. rg_items r i = Some w \<and> wi_Status w = st \<and> wi_Fence w = n \<and> wi_Footprints w = fs)"
  by (auto simp: brief_def)

lemma after_first_brief:
  "brief after_first ''a'' = Some (IntentCommitted, 1, [early_write])
   \<and> brief after_first ''b'' = Some (IntentSubmitted, 0, [parent_write])
   \<and> brief after_first ''c'' = Some (IntentSubmitted, 0, [late_write])"
  by code_simp

lemma demo_overlaps:
  "WriteFootprint_Overlaps ref_libs late_write early_write = Inr False"
  "WriteFootprint_Overlaps ref_libs early_write late_write = Inr False"
  by code_simp+

lemma demo_observed:
  "observed_current ref_libs [late_write] late_write" "observed_current ref_libs [parent_write] parent_write"
  unfolding observed_iff [symmetric] by code_simp+

lemma after_first_committed:
  assumes "holds_at after_first IntentCommitted i w"
  shows "i = ''a'' \<and> wi_Footprints w = [early_write]"
proof -
  have "i \<in> {''a'', ''b'', ''c''}"
    using assms run_calls_ids [of _ i w] unfolding holds_at_def after_first_def
    by (fastforce simp: demo_registers_def demo_intent_def)
  moreover have "brief after_first i = Some (IntentCommitted, wi_Fence w, wi_Footprints w)"
    using assms by (simp add: holds_at_def brief_def)
  ultimately show ?thesis
    using after_first_brief by auto
qed

lemma commit_effect:
  assumes "fst (ValidateAtCommit h L vo r req) = Inr res" and "rg_items r (cr_IntentID req) = Some w"
  shows "snd (ValidateAtCommit h L vo r req) = snd (commit_intent h L r (cr_IntentID req) w)"
  using assms by (auto simp: ValidateAtCommit_def mark_stale_def split: if_splits sum.splits bool.splits)

lemma plain_order: "fair_order (\<lambda>_ xs. xs)"
  by (simp add: fair_order_def)

lemmas first_facts = after_first_reachable collision_free_plain [OF after_first_reachable] ref_libs_law

lemma late_intent:
  obtains w where "rg_items after_first ''c'' = Some w" "wi_Status w = IntentSubmitted" "wi_Footprints w = [late_write]"
    "observations_current ref_libs [late_write] w" "uncontended ref_libs after_first ''c'' w"
proof -
  obtain w where w: "rg_items after_first ''c'' = Some w" "wi_Status w = IntentSubmitted" "wi_Footprints w = [late_write]"
    using after_first_brief by (auto simp: brief_Some)
  moreover have "observations_current ref_libs [late_write] w" "uncontended ref_libs after_first ''c'' w"
    using w(3) demo_overlaps demo_observed after_first_committed by (auto simp: observations_current_def uncontended_def)
  ultimately show ?thesis using that by blast
qed

theorem commit_decides_by_baseline_and_contention_witness:
  "\<exists>res. fst (ValidateAtCommit (\<lambda>b. b) ref_libs (\<lambda>_ xs. xs) after_first (demo_request ''c'' late_write)) = Inr res"
proof (rule late_intent)
  fix w
  assume "rg_items after_first ''c'' = Some w" "wi_Status w = IntentSubmitted"
    "observations_current ref_libs [late_write] w" "uncontended ref_libs after_first ''c'' w"
  then show ?thesis
    using commit_decides_by_baseline_and_contention [OF first_facts plain_order, of "demo_request ''c'' late_write" w]
    by (simp add: demo_request_def IntentStatus_terminal_def)
qed

text \<open>The registry after the second commit.\<close>

definition after_both :: Registry where
  "after_both = after_call (\<lambda>b. b) ref_libs after_first (demo_commit ''c'' late_write)"

lemma after_both_reachable: "reachable_registry (\<lambda>b. b) ref_libs after_both"
  unfolding after_both_def by (intro reachable_registry.called after_first_reachable demo_lawful)

lemma late_commit:
  obtains w res where "rg_items after_first ''c'' = Some w" "wi_Status w = IntentSubmitted" "wi_Footprints w = [late_write]"
    "fst (ValidateAtCommit (\<lambda>b. b) ref_libs (\<lambda>_ xs. xs) after_first (demo_request ''c'' late_write)) = Inr res"
    "after_both = snd (commit_intent (\<lambda>b. b) ref_libs after_first ''c'' w)"
proof (rule late_intent)
  fix w
  assume w: "rg_items after_first ''c'' = Some w" "wi_Status w = IntentSubmitted" "wi_Footprints w = [late_write]"
    "observations_current ref_libs [late_write] w" "uncontended ref_libs after_first ''c'' w"
  have "registry_ok (\<lambda>b. b) ref_libs after_first"
    by (rule reachable_registry_ok [OF first_facts])
  then obtain res where res: "fst (ValidateAtCommit (\<lambda>b. b) ref_libs (\<lambda>_ xs. xs) after_first (demo_request ''c'' late_write)) = Inr res"
    using commit_succeeds_iff [of "\<lambda>b. b" ref_libs after_first "\<lambda>_ xs. xs" "demo_request ''c'' late_write" w] w plain_order
    by (auto simp: registry_ok_def demo_request_def IntentStatus_terminal_def)
  moreover have "cr_IntentID (demo_request ''c'' late_write) = ''c''"
    by (simp add: demo_request_def)
  ultimately show ?thesis
    using w that commit_effect [OF res] by (simp add: after_both_def)
qed

lemma after_both_committed:
  obtains u v where "holds_at after_both IntentCommitted ''a'' u" "wi_Footprints u = [early_write]"
    "holds_at after_both IntentCommitted ''c'' v" "wi_Footprints v = [late_write]"
proof (rule late_commit)
  fix w
  assume w: "wi_Footprints w = [late_write]" "after_both = snd (commit_intent (\<lambda>b. b) ref_libs after_first ''c'' w)"
  obtain u where "rg_items after_first ''a'' = Some u" "wi_Status u = IntentCommitted" "wi_Footprints u = [early_write]"
    using after_first_brief by (auto simp: brief_Some)
  with w(1) show ?thesis
    by (intro that [of u "w\<lparr>wi_Fence := rg_next after_first + 1, wi_Status := IntentCommitted\<rparr>"])
      (simp_all add: w(2) holds_at_def commit_intent_def Let_def)
qed

theorem committed_intents_never_overlap_witness:
  "WriteFootprint_Overlaps ref_libs early_write late_write = Inr False
   \<and> (\<exists>u v. holds_at after_both IntentCommitted ''a'' u \<and> holds_at after_both IntentCommitted ''c'' v)"
proof (rule after_both_committed)
  fix u v
  assume uv: "holds_at after_both IntentCommitted ''a'' u" "wi_Footprints u = [early_write]"
    "holds_at after_both IntentCommitted ''c'' v" "wi_Footprints v = [late_write]"
  have "WriteFootprint_Overlaps ref_libs early_write late_write = Inr False"
    using uv by (intro committed_intents_never_overlap [OF after_both_reachable
          collision_free_plain [OF after_both_reachable] ref_libs_law uv(1,3)]) simp_all
  with uv show ?thesis by blast
qed

theorem intent_status_machine_witness:
  "\<exists>w w'. rg_items after_first ''c'' = Some w \<and> rg_items after_both ''c'' = Some w'
     \<and> wi_Footprints w' = wi_Footprints w \<and> (wi_Status w' = wi_Status w \<or> (wi_Status w, wi_Status w') \<in> status_moves)"
proof (rule late_commit)
  fix w
  assume w: "rg_items after_first ''c'' = Some w"
  obtain w' where w': "rg_items after_both ''c'' = Some w'" "w' = w \<or> (wi_Status w, wi_Status w') \<in> status_moves
      \<and> w' = w\<lparr>wi_Status := wi_Status w', wi_Fence := wi_Fence w'\<rparr>"
    using intent_status_machine [OF first_facts demo_lawful(2) w] unfolding after_both_def by blast
  then have "wi_Footprints w' = wi_Footprints w"
    by (metis WriteIntent.select_convs(4) WriteIntent.surjective WriteIntent.update_convs(6,7))
  with w w' show ?thesis
    by blast
qed

theorem fences_are_fresh_and_exclusive_witness:
  "\<exists>res. fst (ValidateAtCommit (\<lambda>b. b) ref_libs (\<lambda>_ xs. xs) after_first (demo_request ''c'' late_write)) = Inr res
     \<and> 1 < co_Fence res"
proof (rule late_commit)
  fix res
  assume res: "fst (ValidateAtCommit (\<lambda>b. b) ref_libs (\<lambda>_ xs. xs) after_first (demo_request ''c'' late_write)) = Inr res"
  obtain u where u: "fenced after_first ''a'' u" "wi_Fence u = 1"
    using after_first_brief by (auto simp: brief_Some fenced_def)
  obtain n where n: "reachable_after (\<lambda>b. b) ref_libs n after_first" "n + 1 < 2 ^ 64"
    using after_first_after by blast
  have "wi_Fence u < co_Fence res"
    using fences_are_fresh_and_exclusive [OF n first_facts(2,3), THEN conjunct1] res u(1) by blast
  with res u(2) show ?thesis by auto
qed

theorem release_unblocks_contender_witness:
  "\<exists>res. fst (ValidateAtCommit (\<lambda>b. b) ref_libs (\<lambda>_ xs. xs) (snd (Release (\<lambda>b. b) ref_libs after_first ''a'' 1))
      (demo_request ''b'' parent_write)) = Inr res"
proof -
  obtain u w where u: "rg_items after_first ''a'' = Some u" "wi_Status u = IntentCommitted" "wi_Fence u = 1"
    and w: "rg_items after_first ''b'' = Some w" "wi_Status w = IntentSubmitted" "wi_Footprints w = [parent_write]"
    using after_first_brief by (auto simp: brief_Some)
  have rel: "fst (Release (\<lambda>b. b) ref_libs after_first ''a'' 1) = Inr (u\<lparr>wi_Status := IntentReleased\<rparr>)"
    "holds_at (snd (Release (\<lambda>b. b) ref_libs after_first ''a'' 1)) IntentSubmitted (cr_IntentID (demo_request ''b'' parent_write)) w"
    using u w by (simp_all add: Release_def Let_def holds_at_def demo_request_def)
  show ?thesis
  proof (rule release_unblocks_contender [OF first_facts plain_order rel(1) refl rel(2)])
    show "observations_current ref_libs (cr_Current (demo_request ''b'' parent_write)) w"
      using w(3) demo_observed by (simp add: observations_current_def demo_request_def)
  qed (use after_first_committed in blast)
qed

subsection \<open>Baselines carry footprints\<close>

lemma wf_token_sequence:
  assumes "id_law L" and "wf_token L t" and "rt_specified t" and "rt_selector t = revisionSelectorSequence"
  shows "NewSequenceRevision L (rt_stream t) (rt_sequence t) = Inr t"
proof -
  have "validateStream L (rt_stream t) = None" "rt_opaque t = []" "nfc_String L (rt_stream t) = rt_stream t"
    using assms nfc_lawD(1) [OF assms(1)] by (auto simp: wf_token_def RevisionToken_Validate_def)
  then show ?thesis
    using assms(3,4) by (cases t) (simp add: NewSequenceRevision_def)
qed

lemma resource_text:
  assumes "id_law L" and "ResourceKey_Validate L k = None"
  shows "ResourceKey_UnmarshalText L (ResourceKey_Canonical L k) = Inr k"
  using resource_key.unmarshal_iff [OF assms(1)] assms(2) by (simp add: ResourceKey_MarshalText_def)

lemma footprint_eta:
  "\<lparr>fp_Resource = fp_Resource f, fp_Field = fp_Field f, fp_Interval = fp_Interval f, fp_Operation = fp_Operation f,
    fp_ExpectedRevision = fp_ExpectedRevision f,
    fp_Authority = \<lparr>as_Domain = as_Domain (fp_Authority f), as_PolicyRef = as_PolicyRef (fp_Authority f)\<rparr>\<rparr> = f"
  by simp

text \<open>
  The compact form of a footprint. A valid footprint at a sequence revision survives the conversion to
  a baseline and back, a footprint at any other revision is refused, and a baseline from which a footprint
  can be rebuilt is the baseline of that footprint up to the normal form of its stream name.
\<close>

theorem baseline_roundtrip:
  assumes "id_law L"
  shows "(WriteFootprint_Validate L f = None \<and> wf_token L (fp_ExpectedRevision f) \<longrightarrow>
      (if rt_selector (fp_ExpectedRevision f) = revisionSelectorSequence
       then bind_res (BaselineFromFootprint L f) (WriteBaseline_Footprint L) = Inr f
       else BaselineFromFootprint L f = Inl ErrInvalidFootprint))
    \<and> (WriteBaseline_Footprint L b = Inr g \<longrightarrow>
      BaselineFromFootprint L g = Inr (b\<lparr>wb_StreamKey := nfc_String L (wb_StreamKey b)\<rparr>))"
proof (intro conjI impI; (elim conjE)?)
  assume f: "WriteFootprint_Validate L f = None" "wf_token L (fp_ExpectedRevision f)"
  have spec: "rt_specified (fp_ExpectedRevision f)" and key: "ResourceKey_Validate L (fp_Resource f) = None"
    using f(1) by (simp_all add: WriteFootprint_Validate_iff)
  show "if rt_selector (fp_ExpectedRevision f) = revisionSelectorSequence
      then bind_res (BaselineFromFootprint L f) (WriteBaseline_Footprint L) = Inr f
      else BaselineFromFootprint L f = Inl ErrInvalidFootprint"
  proof (cases "rt_selector (fp_ExpectedRevision f) = revisionSelectorSequence")
    case True
    then show ?thesis
      using f spec resource_text [OF assms key] wf_token_sequence [OF assms f(2) spec True]
      by (simp add: BaselineFromFootprint_def WriteBaseline_Footprint_def RevisionToken_Sequence_def Let_def footprint_eta)
  next
    case False
    then show ?thesis
      using f(1) by (simp add: BaselineFromFootprint_def RevisionToken_Sequence_def)
  qed
next
  assume "WriteBaseline_Footprint L b = Inr g"
  then obtain k where k: "ResourceKey_UnmarshalText L (wb_ResourceCanonical b) = Inr k"
    and g: "WriteFootprint_Validate L g = None" "fp_Resource g = k" "fp_Field g = wb_FieldPath b"
      "fp_Interval g = wb_EffectiveInterval b" "fp_Operation g = wb_Operation b"
      "fp_Authority g = \<lparr>as_Domain = wb_AuthorityDomain b, as_PolicyRef = wb_SourceAuthorityDecision b\<rparr>"
    and rev: "fp_ExpectedRevision g = \<lparr>rt_specified = True, rt_selector = revisionSelectorSequence,
        rt_stream = nfc_String L (wb_StreamKey b), rt_sequence = wb_ExpectedSequence b, rt_opaque = []\<rparr>"
    by (auto simp: WriteBaseline_Footprint_def Let_def NewSequenceRevision_def split: sum.splits)
  have "ResourceKey_Canonical L k = wb_ResourceCanonical b"
    using resource_key.decode [OF assms k] by (simp add: ResourceKey_MarshalText_def)
  with g rev show "BaselineFromFootprint L g = Inr (b\<lparr>wb_StreamKey := nfc_String L (wb_StreamKey b)\<rparr>)"
    by (simp add: BaselineFromFootprint_def RevisionToken_Sequence_def)
qed

lemma demo_writes_valid:
  "WriteFootprint_Validate ref_libs early_write = None" "WriteFootprint_Validate ref_libs late_write = None"
  by code_simp+

lemma demo_revision_wf: "wf_token ref_libs (demo_revision 1)"
  unfolding wf_token_def
proof (intro conjI exI)
  show "RevisionToken_Validate ref_libs (demo_revision 1) = None"
    by code_simp
  show "rt_opaque (demo_revision 1) = EncodeToString []"
    by code_simp
qed (simp_all add: demo_revision_def ref_libs_def)

theorem baseline_roundtrip_witness:
  "bind_res (BaselineFromFootprint ref_libs early_write) (WriteBaseline_Footprint ref_libs) = Inr early_write"
proof -
  have "fp_ExpectedRevision early_write = demo_revision 1" "rt_selector (demo_revision 1) = revisionSelectorSequence"
    by (simp_all add: early_write_def demo_write_def demo_revision_def)
  then show ?thesis
    using baseline_roundtrip [OF ref_libs_law, THEN conjunct1, of early_write] demo_writes_valid(1) demo_revision_wf
    by (simp del: bind_res_Inr_iff)
qed

subsection \<open>Retries with another write set\<close>

definition two_writes :: WriteIntent where
  "two_writes = \<lparr>wi_TenantID = ''acme'', wi_ID = ''i'', wi_ProposalID = ''p'', wi_Footprints = [early_write, late_write],
     wi_SnapshotDigest = ''s'', wi_Status = IntentDraft, wi_Fence = 0\<rparr>"

definition one_write :: "(bytes \<Rightarrow> bytes) \<Rightarrow> WriteIntent" where
  "one_write h = two_writes\<lparr>wi_Footprints := [late_write],
     wi_SnapshotDigest := ''s'' @ [CHR 0x00] @ WriteFootprint_Digest h ref_libs early_write\<rparr>"

text \<open>
  C30: the digest that recognises a retry does not separate the snapshot from the write set. Two valid
  intents with one id, one of which writes early and late and the other only late, have the same
  digest when the second's snapshot ends in the digest of the missing footprint; registering the
  second after the first reports success and returns the first.
\<close>

theorem retry_digest_confuses_write_sets:
  "WriteIntent_Validate ref_libs two_writes = None \<and> WriteIntent_Validate ref_libs (one_write h) = None
   \<and> wi_ID (one_write h) = wi_ID two_writes \<and> wi_Footprints (one_write h) \<noteq> wi_Footprints two_writes
   \<and> fst (Register h ref_libs (snd (Register h ref_libs NewRegistry two_writes)) (one_write h))
       = Inr (two_writes\<lparr>wi_Status := IntentSubmitted\<rparr>)"
proof -
  have not_blank: "\<not> blank ''i''" "\<not> blank ''acme''"
    by code_simp+
  have digest: "intentDigest h ref_libs (two_writes\<lparr>wi_Status := IntentSubmitted\<rparr>) = intentDigest h ref_libs (one_write h)"
    by (simp add: intentDigest_def one_write_def two_writes_def)
  have v: "WriteIntent_Validate ref_libs two_writes = None" "WriteIntent_Validate ref_libs (one_write h) = None"
    using not_blank demo_writes_valid by (simp_all add: WriteIntent_Validate_def one_write_def two_writes_def)
  moreover have "wi_ID (one_write h) = wi_ID two_writes" "wi_Footprints (one_write h) \<noteq> wi_Footprints two_writes"
    by (simp_all add: one_write_def two_writes_def)
  moreover have "fst (Register h ref_libs (snd (Register h ref_libs NewRegistry two_writes)) (one_write h))
       = Inr (two_writes\<lparr>wi_Status := IntentSubmitted\<rparr>)"
    using v calculation(3) digest by (simp add: Register_def NewRegistry_def Let_def)
  ultimately show ?thesis by blast
qed

end
