(* ===== verification/Conflict_Preflight.thy ===== *)
theory Conflict_Preflight
  imports Conflict_Registry "HOL-Library.Product_Lexorder"
begin

text \<open>
  Package \<open>internal/transaction/conflict\<close>, file \<open>reevaluate.go\<close>: the execution-time comparison of the
  intents pinned at approval with the current ones.

  The maps from ids to intents keep the last intent of an id; their keys are collected and sorted, so
  the order in which Go visits them does not show. The map from scopes to ids is visited without being
  sorted by scope: that order is the parameter \<open>scope_order\<close>, and \<open>sort.Slice\<close>, which compares only the
  ids of an overlap, keeps it among overlaps of the same two intents. The reason text of an overlap is
  dropped.
\<close>

datatype PreflightVerdict =
  PreflightClear | PreflightReapprovalRequired | PreflightReplanRequired | PreflightBlocked

fun PreflightVerdict_text :: "PreflightVerdict \<Rightarrow> string" where
  "PreflightVerdict_text PreflightClear = ''CLEAR''"
| "PreflightVerdict_text PreflightReapprovalRequired = ''REAPPROVAL_REQUIRED''"
| "PreflightVerdict_text PreflightReplanRequired = ''REPLAN_REQUIRED''"
| "PreflightVerdict_text PreflightBlocked = ''BLOCKED''"

record ReevaluateRequest =
  rq_PolicyVersion :: string
  rq_Pinned :: "WriteIntent list"
  rq_Current :: "WriteIntent list"

text \<open>
  The text of a reason quotes two ids with Go's \<open>%q\<close>; it is kept as the arguments of its format.
\<close>

datatype overlap_reason = ContendForScope string string string

record OverlapExplanation =
  ox_IntentA :: string
  ox_IntentB :: string
  ox_ScopeDigest :: string
  ox_Reason :: overlap_reason

record ExecutionPreflight =
  ep_PolicyVersion :: string
  ep_Verdict :: PreflightVerdict
  ep_New :: "string list"
  ep_Missing :: "string list"
  ep_Changed :: "string list"
  ep_Overlaps :: "OverlapExplanation list"
  ep_Digest :: string

definition by_id :: "WriteIntent list \<Rightarrow> string \<rightharpoonup> WriteIntent" where
  "by_id intents = map_of (rev (map (\<lambda>i. (wi_ID i, i)) intents))"

definition ids_of :: "WriteIntent list \<Rightarrow> string list" where
  "ids_of intents = sort (remdups (map wi_ID intents))"

definition new_ids :: "WriteIntent list \<Rightarrow> WriteIntent list \<Rightarrow> string list" where
  "new_ids pinned current = filter (\<lambda>i. by_id pinned i = None) (ids_of current)"

definition changed_ids :: "(bytes \<Rightarrow> bytes) \<Rightarrow> 'u id_libs \<Rightarrow> WriteIntent list \<Rightarrow> WriteIntent list \<Rightarrow> string list" where
  "changed_ids sum256 L pinned current =
     filter (\<lambda>i. case (by_id pinned i, by_id current i) of
         (Some p, Some c) \<Rightarrow> intentDigest sum256 L p \<noteq> intentDigest sum256 L c
       | _ \<Rightarrow> False) (ids_of pinned)"

definition scopes_of :: "(bytes \<Rightarrow> bytes) \<Rightarrow> 'u id_libs \<Rightarrow> WriteIntent \<Rightarrow> string list" where
  "scopes_of sum256 L w = filter (\<lambda>s. s \<noteq> []) (remdups (map (ScopeDigest sum256 L) (wi_Footprints w)))"

definition current_scopes :: "(bytes \<Rightarrow> bytes) \<Rightarrow> 'u id_libs \<Rightarrow> WriteIntent list \<Rightarrow> string \<Rightarrow> string list" where
  "current_scopes sum256 L current i = (case by_id current i of None \<Rightarrow> [] | Some w \<Rightarrow> scopes_of sum256 L w)"

definition scope_keys :: "(bytes \<Rightarrow> bytes) \<Rightarrow> 'u id_libs \<Rightarrow> WriteIntent list \<Rightarrow> string list" where
  "scope_keys sum256 L current = remdups (concat (map (current_scopes sum256 L current) (ids_of current)))"

definition contenders :: "(bytes \<Rightarrow> bytes) \<Rightarrow> 'u id_libs \<Rightarrow> WriteIntent list \<Rightarrow> string \<Rightarrow> string list" where
  "contenders sum256 L current scope =
     filter (\<lambda>i. scope \<in> set (current_scopes sum256 L current i)) (ids_of current)"

fun explain_pairs :: "(string \<Rightarrow> bool) \<Rightarrow> string \<Rightarrow> string list \<Rightarrow> OverlapExplanation list" where
  "explain_pairs is_pinned scope [] = []"
| "explain_pairs is_pinned scope (a # ids) =
     map (\<lambda>b. \<lparr>ox_IntentA = a, ox_IntentB = b, ox_ScopeDigest = scope,
         ox_Reason = ContendForScope a b scope\<rparr>)
       (filter (\<lambda>b. \<not> (is_pinned a \<and> is_pinned b)) ids)
     @ explain_pairs is_pinned scope ids"

definition overlaps_found :: "(bytes \<Rightarrow> bytes) \<Rightarrow> 'u id_libs \<Rightarrow> (string list \<Rightarrow> string list)
    \<Rightarrow> WriteIntent list \<Rightarrow> WriteIntent list \<Rightarrow> OverlapExplanation list" where
  "overlaps_found sum256 L scope_order pinned current =
     sort_key (\<lambda>x. (ox_IntentA x, ox_IntentB x))
       (concat (map (\<lambda>scope. explain_pairs (\<lambda>i. by_id pinned i \<noteq> None) scope (contenders sum256 L current scope))
         (scope_order (scope_keys sum256 L current))))"

definition verdict_of :: "OverlapExplanation list \<Rightarrow> string list \<Rightarrow> string list \<Rightarrow> string list \<Rightarrow> PreflightVerdict" where
  "verdict_of overlaps new missing changed =
     (if overlaps \<noteq> [] then PreflightBlocked
      else if new \<noteq> [] then PreflightReapprovalRequired
      else if missing \<noteq> [] \<or> changed \<noteq> [] then PreflightReplanRequired
      else PreflightClear)"

definition preflight_bytes :: "string \<Rightarrow> ExecutionPreflight \<Rightarrow> bytes" where
  "preflight_bytes policy outcome =
     join (CHR 0x00)
       ([''preflight'', policy, PreflightVerdict_text (ep_Verdict outcome),
         ''new:'' @ join CHR '','' (ep_New outcome), ''missing:'' @ join CHR '','' (ep_Missing outcome),
         ''changed:'' @ join CHR '','' (ep_Changed outcome)]
        @ map (\<lambda>x. ''overlap:'' @ ox_IntentA x @ [CHR 0x01] @ ox_IntentB x @ [CHR 0x01] @ ox_ScopeDigest x)
            (ep_Overlaps outcome))"

definition preflightDigest :: "(bytes \<Rightarrow> bytes) \<Rightarrow> string \<Rightarrow> ExecutionPreflight \<Rightarrow> string" where
  "preflightDigest sum256 policy outcome = ''sha256:'' @ hex_encode (sum256 (preflight_bytes policy outcome))"

definition ReevaluatePreflight :: "(bytes \<Rightarrow> bytes) \<Rightarrow> 'u id_libs \<Rightarrow> (string list \<Rightarrow> string list)
    \<Rightarrow> ReevaluateRequest \<Rightarrow> conflict_error + ExecutionPreflight" where
  "ReevaluatePreflight sum256 L scope_order req =
     guard_res (reject (blank (rq_PolicyVersion req)) ErrInvalidIntent)
      (guard_res (err_loop (WriteIntent_Validate L) (rq_Pinned req))
       (guard_res (err_loop (WriteIntent_Validate L) (rq_Current req))
        (let new = new_ids (rq_Pinned req) (rq_Current req);
             missing = new_ids (rq_Current req) (rq_Pinned req);
             changed = changed_ids sum256 L (rq_Pinned req) (rq_Current req);
             overlaps = overlaps_found sum256 L scope_order (rq_Pinned req) (rq_Current req);
             outcome = \<lparr>ep_PolicyVersion = rq_PolicyVersion req, ep_Verdict = verdict_of overlaps new missing changed,
               ep_New = new, ep_Missing = missing, ep_Changed = changed, ep_Overlaps = overlaps, ep_Digest = []\<rparr>
         in Inr (outcome\<lparr>ep_Digest := preflightDigest sum256 (rq_PolicyVersion req) outcome\<rparr>))))"

subsection \<open>What blocks\<close>

lemma by_id_None: "by_id intents i = None \<longleftrightarrow> i \<notin> wi_ID ` set intents"
  by (simp add: by_id_def map_of_eq_None_iff image_image)

lemma set_ids_of [simp]: "set (ids_of intents) = wi_ID ` set intents"
  by (simp add: ids_of_def)

lemma distinct_ids_of [simp]: "distinct (ids_of intents)"
  by (simp add: ids_of_def)

lemma by_id_ID: "by_id intents i = Some w \<Longrightarrow> wi_ID w = i \<and> w \<in> set intents"
  by (auto simp: by_id_def dest!: map_of_SomeD)

lemma explain_pairs_nonempty:
  "distinct ids \<Longrightarrow> explain_pairs pin scope ids \<noteq> [] \<longleftrightarrow>
     (\<exists>a\<in>set ids. \<exists>b\<in>set ids. a \<noteq> b \<and> \<not> (pin a \<and> pin b))"
proof (induction ids)
  case (Cons a ids)
  have "explain_pairs pin scope (a # ids) \<noteq> [] \<longleftrightarrow> (\<exists>b\<in>set ids. \<not> (pin a \<and> pin b)) \<or> explain_pairs pin scope ids \<noteq> []"
    by (auto simp: filter_empty_conv)
  also have "\<dots> \<longleftrightarrow> (\<exists>x\<in>set (a # ids). \<exists>b\<in>set (a # ids). x \<noteq> b \<and> \<not> (pin x \<and> pin b))"
    using Cons by auto
  finally show ?case .
qed simp

definition same_scope_pair :: "(bytes \<Rightarrow> bytes) \<Rightarrow> 'u id_libs \<Rightarrow> WriteIntent list \<Rightarrow> WriteIntent list \<Rightarrow> bool" where
  "same_scope_pair sum256 L pinned current \<longleftrightarrow>
     (\<exists>a b w v f g. by_id current a = Some w \<and> by_id current b = Some v \<and> a \<noteq> b
        \<and> (a \<notin> wi_ID ` set pinned \<or> b \<notin> wi_ID ` set pinned)
        \<and> f \<in> set (wi_Footprints w) \<and> g \<in> set (wi_Footprints v)
        \<and> ScopeDigest sum256 L f = ScopeDigest sum256 L g \<and> ScopeDigest sum256 L f \<noteq> [])"

lemma current_scopes_mem:
  "s \<in> set (current_scopes h L current i) \<longleftrightarrow>
     (\<exists>w f. by_id current i = Some w \<and> f \<in> set (wi_Footprints w) \<and> s = ScopeDigest h L f \<and> s \<noteq> [])"
  by (cases "by_id current i") (auto simp: current_scopes_def scopes_of_def)

lemma overlaps_found_iff:
  assumes "\<And>xs. set (scope_order xs) = set xs"
  shows "overlaps_found h L scope_order pinned current \<noteq> [] \<longleftrightarrow> same_scope_pair h L pinned current"
proof -
  let ?pin = "\<lambda>i. by_id pinned i \<noteq> None" and ?c = "contenders h L current"
  have "overlaps_found h L scope_order pinned current \<noteq> []
      \<longleftrightarrow> (\<exists>s\<in>set (scope_keys h L current). explain_pairs ?pin s (?c s) \<noteq> [])"
    by (simp add: overlaps_found_def assms sort_key_const flip: set_empty)
  also have "\<dots> \<longleftrightarrow> (\<exists>s. \<exists>a\<in>set (?c s). \<exists>b\<in>set (?c s). a \<noteq> b \<and> \<not> (?pin a \<and> ?pin b))"
  proof -
    have "distinct (?c s)" for s
      by (simp add: contenders_def)
    moreover have "a \<in> set (?c s) \<Longrightarrow> s \<in> set (scope_keys h L current)" for a s
      by (auto simp: contenders_def scope_keys_def)
    ultimately show ?thesis
      by (auto simp: explain_pairs_nonempty)
  qed
  also have "\<dots> \<longleftrightarrow> same_scope_pair h L pinned current"
  proof -
    have "a \<in> set (?c s) \<longleftrightarrow> (\<exists>w f. by_id current a = Some w \<and> f \<in> set (wi_Footprints w)
        \<and> s = ScopeDigest h L f \<and> s \<noteq> [])" for a s
      using by_id_ID by (fastforce simp: contenders_def current_scopes_mem)
    then show ?thesis
      by (auto simp: same_scope_pair_def by_id_None) metis+
  qed
  finally show ?thesis .
qed

lemma new_ids_empty: "new_ids pinned current = [] \<longleftrightarrow> wi_ID ` set current \<subseteq> wi_ID ` set pinned"
  by (auto simp: new_ids_def filter_empty_conv by_id_None)

lemma changed_ids_empty:
  "changed_ids h L pinned current = [] \<longleftrightarrow>
     (\<forall>i p c. by_id pinned i = Some p \<and> by_id current i = Some c \<longrightarrow> intentDigest h L p = intentDigest h L c)"
proof -
  have "changed_ids h L pinned current = [] \<longleftrightarrow> (\<forall>i\<in>wi_ID ` set pinned. \<forall>p c.
      by_id pinned i = Some p \<and> by_id current i = Some c \<longrightarrow> intentDigest h L p = intentDigest h L c)"
    unfolding changed_ids_def filter_empty_conv set_ids_of by (rule ball_cong) (auto split: option.splits)
  moreover have "by_id pinned i = Some p \<Longrightarrow> i \<in> wi_ID ` set pinned" for i p
    using by_id_ID by blast
  ultimately show ?thesis
    by blast
qed

text \<open>
  C24: execution preflight. For a request with a policy version and valid intents the evaluation returns,
  and its verdict, which does not depend on the order of visits, is: blocked when two current intents, not
  both pinned, declare one scope; otherwise reapproval when some current intent was not pinned; otherwise
  replanning when a pinned intent is gone or changed its digest; and clear when the two sets agree.
\<close>

theorem preflight_verdict_exact:
  assumes "\<And>xs. set (scope_order xs) = set xs" and "\<not> blank (rq_PolicyVersion req)"
    and "list_all (\<lambda>w. WriteIntent_Validate L w = None) (rq_Pinned req @ rq_Current req)"
  shows "\<exists>out. ReevaluatePreflight h L scope_order req = Inr out \<and> ep_Verdict out =
    (if same_scope_pair h L (rq_Pinned req) (rq_Current req) then PreflightBlocked
     else if \<not> wi_ID ` set (rq_Current req) \<subseteq> wi_ID ` set (rq_Pinned req) then PreflightReapprovalRequired
     else if \<not> wi_ID ` set (rq_Pinned req) \<subseteq> wi_ID ` set (rq_Current req)
       \<or> (\<exists>i p c. by_id (rq_Pinned req) i = Some p \<and> by_id (rq_Current req) i = Some c
            \<and> intentDigest h L p \<noteq> intentDigest h L c) then PreflightReplanRequired
     else PreflightClear)"
proof -
  have v: "verdict_of (overlaps_found h L scope_order p c) (new_ids p c) (new_ids c p) (changed_ids h L p c) =
    (if same_scope_pair h L p c then PreflightBlocked
     else if \<not> wi_ID ` set c \<subseteq> wi_ID ` set p then PreflightReapprovalRequired
     else if \<not> wi_ID ` set p \<subseteq> wi_ID ` set c
       \<or> (\<exists>i x y. by_id p i = Some x \<and> by_id c i = Some y \<and> intentDigest h L x \<noteq> intentDigest h L y) then PreflightReplanRequired
     else PreflightClear)" for p c
    using overlaps_found_iff [OF assms(1), of h L p c] new_ids_empty [of p c] new_ids_empty [of c p]
      changed_ids_empty [of h L p c] by (simp add: verdict_of_def)
  have "err_loop (WriteIntent_Validate L) (rq_Pinned req) = None" "err_loop (WriteIntent_Validate L) (rq_Current req) = None"
    using assms(3) by (auto simp: list_all_iff)
  then show ?thesis
    using assms(2) by (simp add: ReevaluatePreflight_def Let_def v)
qed

subsection \<open>Overlaps that are not the same scope\<close>

lemma demo_intents_valid:
  "WriteIntent_Validate ref_libs (demo_intent ''a'' early_write) = None"
  "WriteIntent_Validate ref_libs (demo_intent ''b'' parent_write) = None"
  by code_simp+

definition late_arrival :: ReevaluateRequest where
  "late_arrival = \<lparr>rq_PolicyVersion = ''v1'', rq_Pinned = [demo_intent ''a'' early_write],
     rq_Current = [demo_intent ''a'' early_write, demo_intent ''b'' parent_write]\<rparr>"

lemma late_arrival_valid:
  "\<not> blank (rq_PolicyVersion late_arrival)"
  "list_all (\<lambda>w. WriteIntent_Validate ref_libs w = None) (rq_Pinned late_arrival @ rq_Current late_arrival)"
proof -
  have "\<not> blank ''v1''" by code_simp
  then show "\<not> blank (rq_PolicyVersion late_arrival)"
    by (simp add: late_arrival_def)
qed (simp add: late_arrival_def demo_intents_valid)

lemma late_arrival_scopes:
  assumes "ScopeDigest h ref_libs early_write \<noteq> ScopeDigest h ref_libs parent_write"
  shows "\<not> same_scope_pair h ref_libs (rq_Pinned late_arrival) (rq_Current late_arrival)"
    and "\<not> wi_ID ` set (rq_Current late_arrival) \<subseteq> wi_ID ` set (rq_Pinned late_arrival)"
  using assms by (auto simp: same_scope_pair_def late_arrival_def by_id_def demo_intent_def split: if_splits)

lemma late_arrival_overlap: "WriteFootprint_Overlaps ref_libs early_write parent_write = Inr True"
  by code_simp

lemma early_parent_scopes: "ScopeDigest (\<lambda>b. b) ref_libs early_write \<noteq> ScopeDigest (\<lambda>b. b) ref_libs parent_write"
  by code_simp

theorem preflight_verdict_exact_witness:
  "\<exists>out. ReevaluatePreflight (\<lambda>b. b) ref_libs (\<lambda>xs. xs) late_arrival = Inr out
     \<and> ep_Verdict out = PreflightReapprovalRequired"
  using preflight_verdict_exact [of "\<lambda>xs. xs", OF refl late_arrival_valid, of "\<lambda>b. b"]
    late_arrival_scopes [OF early_parent_scopes] by simp

text \<open>
  C28: the evaluation compares scopes for equality only. An intent that arrives after approval and writes
  a parent field inside the approved interval overlaps the pinned intent, yet the preflight is not
  blocked, whatever order it visits: it asks for reapproval and names no overlap.
\<close>

theorem preflight_misses_overlap:
  assumes "\<And>xs. set (scope_order xs) = set xs"
    and "ScopeDigest h ref_libs early_write \<noteq> ScopeDigest h ref_libs parent_write"
  shows "WriteFootprint_Overlaps ref_libs early_write parent_write = Inr True
    \<and> (\<exists>out. ReevaluatePreflight h ref_libs scope_order late_arrival = Inr out
         \<and> ep_Verdict out = PreflightReapprovalRequired \<and> ep_Overlaps out = [])"
proof -
  note none = late_arrival_scopes [OF assms(2)]
  have "err_loop (WriteIntent_Validate ref_libs) (rq_Pinned late_arrival) = None"
    "err_loop (WriteIntent_Validate ref_libs) (rq_Current late_arrival) = None"
    using late_arrival_valid(2) by (auto simp: list_all_iff)
  moreover have "overlaps_found h ref_libs scope_order (rq_Pinned late_arrival) (rq_Current late_arrival) = []"
    using overlaps_found_iff [OF assms(1)] none(1) by blast
  moreover have "new_ids (rq_Pinned late_arrival) (rq_Current late_arrival) \<noteq> []"
    using none(2) new_ids_empty by blast
  ultimately show ?thesis
    using late_arrival_overlap late_arrival_valid(1)
    by (simp add: ReevaluatePreflight_def Let_def verdict_of_def)
qed

theorem preflight_misses_overlap_witness:
  "\<exists>out. ReevaluatePreflight (\<lambda>b. b) ref_libs (\<lambda>xs. xs) late_arrival = Inr out
     \<and> ep_Verdict out = PreflightReapprovalRequired \<and> ep_Overlaps out = []"
  using preflight_misses_overlap [of "\<lambda>xs. xs", OF refl early_parent_scopes] by blast

subsection \<open>Two shared scopes\<close>

definition both_writes :: "string \<Rightarrow> WriteIntent" where
  "both_writes i = two_writes\<lparr>wi_ID := i\<rparr>"

definition twin_request :: ReevaluateRequest where
  "twin_request = \<lparr>rq_PolicyVersion = ''v1'', rq_Pinned = [], rq_Current = [both_writes ''a'', both_writes ''b'']\<rparr>"

lemma twin_valid:
  "\<not> blank (rq_PolicyVersion twin_request)" "rq_Pinned twin_request = []"
  "err_loop (WriteIntent_Validate ref_libs) (rq_Current twin_request) = None"
proof -
  have "\<not> blank ''v1''" "\<not> blank ''a''" "\<not> blank ''b''" "\<not> blank ''acme''"
    by code_simp+
  then show "\<not> blank (rq_PolicyVersion twin_request)"
    "err_loop (WriteIntent_Validate ref_libs) (rq_Current twin_request) = None"
    using demo_writes_valid
    by (simp_all add: twin_request_def both_writes_def two_writes_def WriteIntent_Validate_def)
qed (simp add: twin_request_def)

lemma twin_overlaps:
  assumes "ScopeDigest h ref_libs early_write = s" and "ScopeDigest h ref_libs late_write = t"
    and "s \<noteq> t" "s \<noteq> []" "t \<noteq> []" and "scope_order [s, t] = [x, y]" and "{x, y} = {s, t}"
  shows "overlaps_found h ref_libs scope_order [] (rq_Current twin_request)
    = [\<lparr>ox_IntentA = ''a'', ox_IntentB = ''b'', ox_ScopeDigest = x, ox_Reason = ContendForScope ''a'' ''b'' x\<rparr>,
       \<lparr>ox_IntentA = ''a'', ox_IntentB = ''b'', ox_ScopeDigest = y, ox_Reason = ContendForScope ''a'' ''b'' y\<rparr>]"
proof -
  have ids: "ids_of (rq_Current twin_request) = [''a'', ''b'']"
    by (simp add: ids_of_def twin_request_def both_writes_def two_writes_def)
  have sc: "current_scopes h ref_libs (rq_Current twin_request) i = [s, t]" if "i \<in> {''a'', ''b''}" for i
    using that assms(1-5)
    by (auto simp: current_scopes_def by_id_def twin_request_def both_writes_def two_writes_def scopes_of_def)
  have "scope_keys h ref_libs (rq_Current twin_request) = [s, t]"
    using assms(3) by (simp add: scope_keys_def ids sc)
  moreover have "contenders h ref_libs (rq_Current twin_request) z = [''a'', ''b'']" if "z \<in> {x, y}" for z
    using that assms(7) by (auto simp: contenders_def ids sc)
  ultimately show ?thesis
    by (simp add: overlaps_found_def assms(6) by_id_def)
qed

text \<open>
  C29: the digest of an evaluation depends on the order in which the scopes are visited. Two current intents
  that share two scopes give two overlaps with the same ids, which sorting by ids leaves in the order of
  the visit, so two evaluations of one request hash different bytes.
\<close>

theorem preflight_digest_depends_on_visit_order:
  assumes "ScopeDigest h ref_libs early_write \<noteq> ScopeDigest h ref_libs late_write"
    and "length (ScopeDigest h ref_libs early_write) = length (ScopeDigest h ref_libs late_write)"
  shows "\<exists>out out'. ReevaluatePreflight h ref_libs (\<lambda>xs. xs) twin_request = Inr out
    \<and> ReevaluatePreflight h ref_libs rev twin_request = Inr out'
    \<and> preflight_bytes (rq_PolicyVersion twin_request) out \<noteq> preflight_bytes (rq_PolicyVersion twin_request) out'"
proof -
  let ?s = "ScopeDigest h ref_libs early_write" and ?t = "ScopeDigest h ref_libs late_write"
  have ne: "?s \<noteq> []" "?t \<noteq> []"
    using assms by auto
  note over = twin_overlaps [OF refl refl assms(1) ne]
  show ?thesis
    using over [of "\<lambda>xs. xs" ?s ?t] over [of rev ?t ?s] twin_valid assms
    by (simp add: ReevaluatePreflight_def Let_def verdict_of_def preflight_bytes_def insert_commute)
qed

theorem preflight_digest_depends_on_visit_order_witness:
  "\<exists>out out'. ReevaluatePreflight (\<lambda>b. b) ref_libs (\<lambda>xs. xs) twin_request = Inr out
    \<and> ReevaluatePreflight (\<lambda>b. b) ref_libs rev twin_request = Inr out'
    \<and> preflight_bytes (rq_PolicyVersion twin_request) out \<noteq> preflight_bytes (rq_PolicyVersion twin_request) out'"
proof -
  have "ScopeDigest (\<lambda>b. b) ref_libs early_write \<noteq> ScopeDigest (\<lambda>b. b) ref_libs late_write"
    "length (ScopeDigest (\<lambda>b. b) ref_libs early_write) = length (ScopeDigest (\<lambda>b. b) ref_libs late_write)"
    by code_simp+
  from preflight_digest_depends_on_visit_order [OF this] show ?thesis .
qed

end
