(* ===== verification/Go_Search.thy ===== *)
theory Go_Search
  imports Go_Std
begin

text \<open>
  Binary search (\<open>sort.Search\<close>) and the slices that are kept sorted by a string key: a lookup that
  searches for the key and an insertion that replaces the entry of the key or shifts the tail. On a sorted slice
  both are those of a finite map.
\<close>

function search_loop :: "(nat \<Rightarrow> bool) \<Rightarrow> nat \<Rightarrow> nat \<Rightarrow> nat" where
  "search_loop f i j =
     (if i < j then let h = (i + j) div 2 in if f h then search_loop f i h else search_loop f (Suc h) j
      else i)"
  by pat_completeness auto
termination
  by (relation "measure (\<lambda>(_, i, j). j - i)") auto

declare search_loop.simps [simp del]

definition Search :: "nat \<Rightarrow> (nat \<Rightarrow> bool) \<Rightarrow> nat" where
  "Search n f = search_loop f 0 n"

definition slice_pos :: "('a \<Rightarrow> string) \<Rightarrow> 'a list \<Rightarrow> string \<Rightarrow> nat" where
  "slice_pos key xs k = Search (length xs) (\<lambda>i. key (xs ! i) \<ge> k)"

definition slice_get :: "('a \<Rightarrow> string) \<Rightarrow> 'a list \<Rightarrow> string \<Rightarrow> 'a option" where
  "slice_get key xs k =
     (let i = slice_pos key xs k in if i < length xs \<and> key (xs ! i) = k then Some (xs ! i) else None)"

definition slice_set :: "('a \<Rightarrow> string) \<Rightarrow> 'a list \<Rightarrow> 'a \<Rightarrow> 'a list" where
  "slice_set key xs x =
     (let i = slice_pos key xs (key x) in
      if i < length xs \<and> key (xs ! i) = key x then xs[i := x] else take i xs @ x # drop i xs)"

definition sorted_slice :: "('a \<Rightarrow> string) \<Rightarrow> 'a list \<Rightarrow> bool" where
  "sorted_slice key xs \<longleftrightarrow> sorted_wrt (<) (map key xs)"

lemma search_loop_bounds:
  assumes "i \<le> j" and "\<And>a b. a \<le> b \<Longrightarrow> b < n \<Longrightarrow> f a \<Longrightarrow> f b" and "j \<le> n"
    and "\<And>a. a < i \<Longrightarrow> \<not> f a" and "\<And>a. j \<le> a \<Longrightarrow> a < n \<Longrightarrow> f a"
  shows "search_loop f i j \<le> n \<and> (\<forall>a < search_loop f i j. \<not> f a) \<and> (\<forall>a. search_loop f i j \<le> a \<and> a < n \<longrightarrow> f a)"
  using assms
proof (induction f i j rule: search_loop.induct)
  case (1 f i j)
  let ?h = "(i + j) div 2"
  show ?case
  proof (cases "i < j")
    case False
    then have "search_loop f i j = i"
      by (simp add: search_loop.simps [of f i j])
    moreover have "i = j"
      using False "1.prems"(1) by simp
    ultimately show ?thesis
      using "1.prems"(3,4,5) by simp
  next
    case True
    then have h: "i \<le> ?h" "?h < j" by auto
    show ?thesis
    proof (cases "f ?h")
      case f: True
      have eq: "search_loop f i j = search_loop f i ?h"
        using True f by (simp add: search_loop.simps [of f i j] Let_def)
      have up: "f a" if "?h \<le> a" "a < n" for a
        using that f by (rule "1.prems"(2))
      have "?h \<le> n"
        using h "1.prems"(3) by linarith
      show ?thesis
        unfolding eq
        by (rule "1.IH"(1) [OF True refl f]) (use \<open>?h \<le> n\<close> h(1) up "1.prems"(2,4) in blast)+
    next
      case nf: False
      have eq: "search_loop f i j = search_loop f (Suc ?h) j"
        using True nf by (simp add: search_loop.simps [of f i j] Let_def)
      have down: "\<not> f a" if "a < Suc ?h" for a
      proof
        assume "f a"
        moreover have "a \<le> ?h" "?h < n"
          using that h "1.prems"(3) by linarith+
        ultimately show False
          using nf "1.prems"(2) by blast
      qed
      have "Suc ?h \<le> j"
        using h by linarith
      show ?thesis
        unfolding eq
        by (rule "1.IH"(2) [OF True refl nf]) (use \<open>Suc ?h \<le> j\<close> down "1.prems"(2,3,5) in blast)+
    qed
  qed
qed

lemma slice_pos_split:
  assumes "sorted_slice key xs"
  shows "slice_pos key xs k \<le> length xs
    \<and> (\<forall>x \<in> set (take (slice_pos key xs k) xs). key x < k) \<and> (\<forall>x \<in> set (drop (slice_pos key xs k) xs). k \<le> key x)"
proof -
  have mono: "key (xs ! a) \<le> key (xs ! b)" if "a \<le> b" "b < length xs" for a b
    using that assms by (cases "a = b") (auto simp: sorted_slice_def sorted_wrt_iff_nth_less less_imp_le)
  have "slice_pos key xs k \<le> length xs \<and> (\<forall>a < slice_pos key xs k. \<not> k \<le> key (xs ! a))
    \<and> (\<forall>a. slice_pos key xs k \<le> a \<and> a < length xs \<longrightarrow> k \<le> key (xs ! a))"
    unfolding slice_pos_def Search_def
    by (rule search_loop_bounds) (use mono in \<open>auto intro: order_trans\<close>)
  then show ?thesis
    by (auto simp: in_set_conv_nth not_le less_imp_le)
qed

lemma sorted_slice_unique:
  "sorted_slice key xs \<Longrightarrow> x \<in> set xs \<Longrightarrow> y \<in> set xs \<Longrightarrow> key x = key y \<Longrightarrow> x = y"
  unfolding sorted_slice_def
  by (metis strict_sorted_iff distinct_map inj_onD)

lemma slice_get_iff:
  assumes "sorted_slice key xs"
  shows "slice_get key xs k = Some x \<longleftrightarrow> x \<in> set xs \<and> key x = k"
proof
  assume "slice_get key xs k = Some x"
  then show "x \<in> set xs \<and> key x = k"
    by (auto simp: slice_get_def Let_def split: if_splits dest: nth_mem)
next
  assume x: "x \<in> set xs \<and> key x = k"
  let ?i = "slice_pos key xs k"
  have "x \<in> set (take ?i xs) \<union> set (drop ?i xs)"
    using x by (metis append_take_drop_id set_append)
  then have d: "x \<in> set (drop ?i xs)"
    using slice_pos_split [OF assms, of k] x by auto
  then have i: "?i < length xs"
    by (metis drop_all empty_iff empty_set not_le)
  then have dd: "drop ?i xs = xs ! ?i # drop (Suc ?i) xs"
    by (simp add: Cons_nth_drop_Suc)
  have "key (xs ! ?i) \<le> k"
  proof (cases "x = xs ! ?i")
    case False
    have "sorted_wrt (<) (map key (drop ?i xs))"
      using assms by (metis sorted_slice_def append_take_drop_id map_append sorted_wrt_append)
    then show ?thesis
      using d x False by (auto simp: dd)
  qed (use x in simp)
  moreover have "k \<le> key (xs ! ?i)"
    using slice_pos_split [OF assms, of k] by (simp add: dd)
  ultimately have k: "key (xs ! ?i) = k" by simp
  then have "xs ! ?i = x"
    using x i sorted_slice_unique [OF assms] by (metis nth_mem)
  then show "slice_get key xs k = Some x"
    using i k by (simp add: slice_get_def Let_def)
qed


lemma slice_get_None:
  "sorted_slice key xs \<Longrightarrow> slice_get key xs k = None \<longleftrightarrow> k \<notin> key ` set xs"
  by (auto simp: slice_get_iff image_iff simp flip: not_Some_eq)

lemma sorted_slice_append:
  "sorted_slice key (xs @ ys) \<longleftrightarrow>
     sorted_slice key xs \<and> sorted_slice key ys \<and> (\<forall>x \<in> set xs. \<forall>y \<in> set ys. key x < key y)"
  by (simp add: sorted_slice_def sorted_wrt_append)

lemma sorted_slice_Cons:
  "sorted_slice key (x # xs) \<longleftrightarrow> (\<forall>y \<in> set xs. key x < key y) \<and> sorted_slice key xs"
  by (simp add: sorted_slice_def)

lemma slice_set_spec:
  assumes "sorted_slice key xs"
  shows "sorted_slice key (slice_set key xs x)
    \<and> set (slice_set key xs x) = insert x {y \<in> set xs. key y \<noteq> key x}"
proof -
  let ?i = "slice_pos key xs (key x)"
  note sp = slice_pos_split [OF assms, of "key x"]
  have xs: "xs = take ?i xs @ drop ?i xs" by simp
  have parts: "sorted_slice key (take ?i xs)" "sorted_slice key (drop ?i xs)"
    using assms xs by (metis sorted_slice_append)+
  have sets: "set xs = set (take ?i xs) \<union> set (drop ?i xs)"
    by (metis xs set_append)
  show ?thesis
  proof (cases "?i < length xs \<and> key (xs ! ?i) = key x")
    case True
    then have d: "drop ?i xs = xs ! ?i # drop (Suc ?i) xs"
      by (simp add: Cons_nth_drop_Suc)
    have eq: "slice_set key xs x = take ?i xs @ x # drop (Suc ?i) xs"
      using True by (simp add: slice_set_def Let_def upd_conv_take_nth_drop)
    have "\<forall>y \<in> set (drop (Suc ?i) xs). key x < key y" "sorted_slice key (drop (Suc ?i) xs)"
      using parts(2) True by (auto simp: d sorted_slice_Cons)
    then show ?thesis
      using sp parts(1) sets True unfolding eq
      by (auto simp: sorted_slice_append sorted_slice_Cons d intro: less_trans [of _ "key x"])
  next
    case False
    then have eq: "slice_set key xs x = take ?i xs @ x # drop ?i xs"
      by (auto simp: slice_set_def Let_def)
    have "key y \<noteq> key x" if "y \<in> set (drop ?i xs)" for y
    proof
      assume "key y = key x"
      then have "slice_get key xs (key x) = Some y"
        using that sets by (simp add: slice_get_iff [OF assms])
      then show False
        using False by (auto simp: slice_get_def Let_def split: if_splits)
    qed
    then have "\<forall>y \<in> set (drop ?i xs). key x < key y"
      using sp by (metis order_le_imp_less_or_eq)
    then show ?thesis
      using sp parts sets unfolding eq
      by (auto simp: sorted_slice_append sorted_slice_Cons intro: less_trans [of _ "key x"])
  qed
qed

lemmas sorted_slice_set = slice_set_spec [THEN conjunct1]
lemmas set_slice_set = slice_set_spec [THEN conjunct2]

lemma slice_get_set:
  assumes "sorted_slice key xs"
  shows "slice_get key (slice_set key xs x) k = (if k = key x then Some x else slice_get key xs k)"
proof (cases "k = key x")
  case True
  then show ?thesis
    by (simp add: slice_get_iff [OF sorted_slice_set [OF assms]] set_slice_set [OF assms])
next
  case False
  have "slice_get key (slice_set key xs x) k = Some y \<longleftrightarrow> slice_get key xs k = Some y" for y
    using False by (auto simp: slice_get_iff [OF sorted_slice_set [OF assms]] slice_get_iff [OF assms]
      set_slice_set [OF assms])
  then show ?thesis
    using False by (metis not_Some_eq)
qed

end
