(* ===== verification/Workflow_State.thy ===== *)
theory Workflow_State
  imports Lifecycle_Rules Go_Search Go_Codec "HOL-Library.Word"
begin

text \<open>
  Package \<open>internal/workflow/frontier\<close>, files \<open>errors.go\<close>, \<open>state.go\<close>, \<open>outcome.go\<close> and
  \<open>transition.go\<close>, with the step types of \<open>internal/workflow/steptype.go\<close>: the snapshot of a workflow
  instance, its seeding from a compiled plan, and the vocabulary of outcomes and transitions.

  A Go string type with declared constants is a datatype whose last constructor holds an undeclared text. Of the
  compiled plan and its nodes the fields that the package reads are kept. \<open>uint32\<close> and \<open>uint64\<close> are words of
  their width. A deep copy is the identity on values. The detail text of a
  refusal is dropped; its code and its node are kept.
\<close>

subsection \<open>Refusals\<close>

datatype Code =
  CodeInvalidPlan | CodePlanMismatch | CodeUnknownNode | CodeNodeNotActive | CodeAlreadyComplete
  | CodeUnknownOutcome | CodeMissingRoute | CodeNoMatchingRoute | CodeNoFailureRoute
  | CodeAwaitNotAdmitted | CodeJoinNotDeclared | CodeInvalidJoinDeclaration | CodeMissingTerminal
  | CodeTerminalMismatch | CodeTerminalFrontierRemains | CodeInvalidState

datatype frontier_error = refuse Code string

subsection \<open>Step types\<close>

datatype StepType =
  StepCapability | StepDecision | StepTransform | StepObserve | StepEnd | StepApproval | StepTask
  | StepWait | StepSignal | StepCompensate | StepParallel | StepJoin | StepSubworkflow | StepOther string

fun StepType_text :: "StepType \<Rightarrow> string" where
  "StepType_text StepCapability = ''CAPABILITY''"
| "StepType_text StepDecision = ''DECISION''"
| "StepType_text StepTransform = ''TRANSFORM''"
| "StepType_text StepObserve = ''OBSERVE''"
| "StepType_text StepEnd = ''END''"
| "StepType_text StepApproval = ''APPROVAL''"
| "StepType_text StepTask = ''TASK''"
| "StepType_text StepWait = ''WAIT''"
| "StepType_text StepSignal = ''SIGNAL''"
| "StepType_text StepCompensate = ''COMPENSATE''"
| "StepType_text StepParallel = ''PARALLEL''"
| "StepType_text StepJoin = ''JOIN''"
| "StepType_text StepSubworkflow = ''SUBWORKFLOW''"
| "StepType_text (StepOther s) = s"

datatype Phase = PhaseP1A | PhaseP1B | PhaseStructural | PhaseOther string

record Conformance =
  cf_Type :: StepType
  cf_Phase :: Phase
  cf_Outcomes :: "string list"
  cf_AuthorRoutes :: bool
  cf_Terminal :: bool
  cf_RequiresCapability :: bool
  cf_MayCarryEffect :: bool
  cf_FanOutRoute :: string

definition conformance :: "StepType \<Rightarrow> Phase \<Rightarrow> string list \<Rightarrow> Conformance" where
  "conformance t ph outcomes =
     \<lparr>cf_Type = t, cf_Phase = ph, cf_Outcomes = outcomes, cf_AuthorRoutes = False, cf_Terminal = False,
      cf_RequiresCapability = False, cf_MayCarryEffect = False, cf_FanOutRoute = []\<rparr>"

definition conformanceTable :: "(StepType \<times> Conformance) list" where
  "conformanceTable =
     [(StepCapability, (conformance StepCapability PhaseP1A [''SUCCEEDED'', ''REJECTED'', ''UNKNOWN'', ''AMBIGUOUS''])
         \<lparr>cf_RequiresCapability := True, cf_MayCarryEffect := True\<rparr>),
      (StepDecision, (conformance StepDecision PhaseP1A [''UNKNOWN''])\<lparr>cf_AuthorRoutes := True\<rparr>),
      (StepTransform, conformance StepTransform PhaseP1A [''SUCCEEDED'', ''FAILED'']),
      (StepObserve, (conformance StepObserve PhaseP1A [''PASS'', ''FAIL'', ''UNKNOWN'', ''PARTIAL''])
         \<lparr>cf_RequiresCapability := True\<rparr>),
      (StepEnd, (conformance StepEnd PhaseP1A [])\<lparr>cf_Terminal := True\<rparr>),
      (StepApproval, conformance StepApproval PhaseP1B
         [''APPROVED'', ''REJECTED'', ''INVALIDATED'', ''EXPIRED'', ''CANCELLED'']),
      (StepTask, conformance StepTask PhaseP1B [''SUCCEEDED'', ''REJECTED'', ''EXPIRED'', ''CANCELLED'']),
      (StepWait, conformance StepWait PhaseP1B [''SUCCEEDED'', ''LATE'', ''CANCELLED'']),
      (StepSignal, conformance StepSignal PhaseP1B [''SUCCEEDED'', ''TIMED_OUT'', ''CANCELLED'']),
      (StepCompensate, (conformance StepCompensate PhaseP1B [''COMPENSATED'', ''PARTIAL'', ''FAILED'', ''REPAIR_REQUIRED''])
         \<lparr>cf_RequiresCapability := True, cf_MayCarryEffect := True\<rparr>),
      (StepParallel, (conformance StepParallel PhaseStructural [''SUCCEEDED'', ''FAILED''])
         \<lparr>cf_FanOutRoute := ''SUCCEEDED''\<rparr>),
      (StepJoin, conformance StepJoin PhaseStructural [''SUCCEEDED'', ''PARTIAL'', ''FAILED'']),
      (StepSubworkflow, (conformance StepSubworkflow PhaseStructural
         [''SUCCEEDED'', ''REJECTED'', ''CANCELLED'', ''COMPENSATED'', ''ALREADY_COMPLETED'', ''CANNOT_CANCEL''])
         \<lparr>cf_MayCarryEffect := True\<rparr>)]"

definition ConformanceFor :: "StepType \<Rightarrow> Conformance option" where
  "ConformanceFor t = map_of conformanceTable t"

definition StepTypes :: "StepType list" where
  "StepTypes = sort_key StepType_text (map fst conformanceTable)"

definition StepType_Valid :: "StepType \<Rightarrow> bool" where
  "StepType_Valid t \<longleftrightarrow> ConformanceFor t \<noteq> None"

fun Phase_rank :: "Phase \<Rightarrow> int" where
  "Phase_rank PhaseP1A = 0"
| "Phase_rank PhaseP1B = 1"
| "Phase_rank PhaseStructural = 2"
| "Phase_rank (PhaseOther _) = -1"

definition Phase_admits :: "Phase \<Rightarrow> StepType \<Rightarrow> bool" where
  "Phase_admits p t = (case ConformanceFor t of None \<Rightarrow> False | Some c \<Rightarrow> Phase_rank p \<ge> Phase_rank (cf_Phase c))"

subsection \<open>The compiled plan\<close>

record Terminal =
  tm_NodeID :: string
  tm_TerminalCode :: string
  tm_RuntimeStatus :: string
  tm_Dimensions :: Dimensions
  tm_OutstandingObligationRefs :: "string list"
  tm_RepairRefs :: "string list"
  tm_IncidentRefs :: "string list"

record CompiledDecision =
  cd_Routes :: "string list"
  cd_DefaultRoute :: string

record CompiledNode =
  cn_ID :: string
  cn_Type :: StepType
  cn_Decision :: "CompiledDecision option"
  cn_Terminal :: "Terminal option"
  cn_Retry :: "32 word option"
  cn_FailureRoute :: string

record Edge =
  ed_From :: string
  ed_To :: string
  ed_RouteKey :: string

record CompiledWorkflow =
  cw_WorkflowID :: string
  cw_Version :: "32 word"
  cw_StartNodeID :: string
  cw_Nodes :: "CompiledNode list"
  cw_Edges :: "Edge list"
  cw_digest :: string

definition CompiledWorkflow_Node :: "CompiledWorkflow \<Rightarrow> string \<Rightarrow> CompiledNode option" where
  "CompiledWorkflow_Node p i = find (\<lambda>n. cn_ID n = i) (cw_Nodes p)"

subsection \<open>The snapshot of an instance\<close>

datatype NodeState =
  NodeReady | NodeRunning | NodeWaiting | NodeRetrying | NodeSucceeded | NodeFailed | NodeSkipped
  | NodeOverridden | NodeCompensated | NodeCancelled | NodeStateOther string

fun NodeState_text :: "NodeState \<Rightarrow> string" where
  "NodeState_text NodeReady = ''READY''"
| "NodeState_text NodeRunning = ''RUNNING''"
| "NodeState_text NodeWaiting = ''WAITING''"
| "NodeState_text NodeRetrying = ''RETRYING''"
| "NodeState_text NodeSucceeded = ''SUCCEEDED''"
| "NodeState_text NodeFailed = ''FAILED''"
| "NodeState_text NodeSkipped = ''SKIPPED''"
| "NodeState_text NodeOverridden = ''OVERRIDDEN''"
| "NodeState_text NodeCompensated = ''COMPENSATED''"
| "NodeState_text NodeCancelled = ''CANCELLED''"
| "NodeState_text (NodeStateOther s) = s"

fun NodeState_Active :: "NodeState \<Rightarrow> bool" where
  "NodeState_Active NodeReady = True"
| "NodeState_Active NodeRunning = True"
| "NodeState_Active NodeWaiting = True"
| "NodeState_Active NodeRetrying = True"
| "NodeState_Active _ = False"

fun NodeState_Valid :: "NodeState \<Rightarrow> bool" where
  "NodeState_Valid (NodeStateOther _) = False"
| "NodeState_Valid _ = True"

record NodeStatus =
  ns_NodeID :: string
  ns_State :: NodeState
  ns_Attempts :: "32 word"
  ns_RouteKey :: string
  ns_OutputDigest :: string

datatype JoinStrategy = JoinAll | JoinAny | JoinQuorum | JoinRequiredSet | JoinBestEffort | JoinOther string

fun JoinStrategy_text :: "JoinStrategy \<Rightarrow> string" where
  "JoinStrategy_text JoinAll = ''ALL''"
| "JoinStrategy_text JoinAny = ''ANY''"
| "JoinStrategy_text JoinQuorum = ''QUORUM''"
| "JoinStrategy_text JoinRequiredSet = ''REQUIRED_SET''"
| "JoinStrategy_text JoinBestEffort = ''BEST_EFFORT''"
| "JoinStrategy_text (JoinOther s) = s"

fun JoinStrategy_Valid :: "JoinStrategy \<Rightarrow> bool" where
  "JoinStrategy_Valid (JoinOther _) = False"
| "JoinStrategy_Valid _ = True"

record JoinDeclaration =
  jd_NodeID :: string
  jd_Strategy :: JoinStrategy
  jd_RequiredCount :: "32 word"
  jd_RequiredBranches :: "string list"

record JoinCounter =
  jc_NodeID :: string
  jc_Strategy :: JoinStrategy
  jc_Required :: "32 word"
  jc_RequiredBranches :: "string list"
  jc_Branches :: "string list"
  jc_Arrived :: "string list"
  jc_Satisfied :: "string list"
  jc_Skipped :: "string list"
  jc_Activated :: bool
  jc_Blocked :: bool

record LifecycleState =
  ls_RequestState :: string
  ls_ExecutionState :: string
  ls_BusinessState :: string
  ls_ConsistencyState :: string
  ls_ObligationState :: string

definition lifecycleStateOf :: "Dimensions \<Rightarrow> LifecycleState" where
  "lifecycleStateOf d =
     \<lparr>ls_RequestState = Dimensions_State d DimensionRequest,
      ls_ExecutionState = Dimensions_State d DimensionExecution,
      ls_BusinessState = Dimensions_State d DimensionBusiness,
      ls_ConsistencyState = Dimensions_State d DimensionConsistency,
      ls_ObligationState = Dimensions_State d DimensionObligation\<rparr>"

record TerminalRecord =
  te_NodeID :: string
  te_TerminalCode :: string
  te_RuntimeStatus :: string
  te_Lifecycle :: LifecycleState
  te_OutstandingObligationRefs :: "string list"
  te_RepairRefs :: "string list"
  te_IncidentRefs :: "string list"

definition zero_TerminalRecord :: TerminalRecord where
  "zero_TerminalRecord =
     \<lparr>te_NodeID = [], te_TerminalCode = [], te_RuntimeStatus = [],
      te_Lifecycle = \<lparr>ls_RequestState = [], ls_ExecutionState = [], ls_BusinessState = [],
        ls_ConsistencyState = [], ls_ObligationState = []\<rparr>,
      te_OutstandingObligationRefs = [], te_RepairRefs = [], te_IncidentRefs = []\<rparr>"

definition terminalRecordOf :: "Terminal \<Rightarrow> TerminalRecord" where
  "terminalRecordOf t =
     \<lparr>te_NodeID = tm_NodeID t, te_TerminalCode = tm_TerminalCode t, te_RuntimeStatus = tm_RuntimeStatus t,
      te_Lifecycle = lifecycleStateOf (tm_Dimensions t),
      te_OutstandingObligationRefs = tm_OutstandingObligationRefs t, te_RepairRefs = tm_RepairRefs t,
      te_IncidentRefs = tm_IncidentRefs t\<rparr>"

record InstanceState =
  is_InstanceID :: string
  is_WorkflowID :: string
  is_Version :: "32 word"
  is_PlanDigest :: string
  is_Sequence :: "64 word"
  is_Frontier :: "string list"
  is_Nodes :: "NodeStatus list"
  is_Joins :: "JoinCounter list"
  is_Completed :: bool
  is_Terminal :: TerminalRecord

definition InstanceState_Node :: "InstanceState \<Rightarrow> string \<Rightarrow> NodeStatus option" where
  "InstanceState_Node s i = slice_get ns_NodeID (is_Nodes s) i"

definition InstanceState_Join :: "InstanceState \<Rightarrow> string \<Rightarrow> JoinCounter option" where
  "InstanceState_Join s i = slice_get jc_NodeID (is_Joins s) i"

definition setNode :: "InstanceState \<Rightarrow> NodeStatus \<Rightarrow> InstanceState" where
  "setNode s st = s\<lparr>is_Nodes := slice_set ns_NodeID (is_Nodes s) st\<rparr>"

definition setJoin :: "InstanceState \<Rightarrow> JoinCounter \<Rightarrow> InstanceState" where
  "setJoin s j = s\<lparr>is_Joins := slice_set jc_NodeID (is_Joins s) j\<rparr>"

definition recomputeFrontier :: "InstanceState \<Rightarrow> InstanceState" where
  "recomputeFrontier s =
     s\<lparr>is_Frontier := sort (map ns_NodeID (filter (\<lambda>n. NodeState_Active (ns_State n)) (is_Nodes s)))\<rparr>"

subsection \<open>Seeding\<close>

definition insertSorted :: "string list \<Rightarrow> string \<Rightarrow> string list" where
  "insertSorted xs s = (if s \<in> set xs then xs else sort (xs @ [s]))"

fun incoming :: "Edge list \<Rightarrow> string \<Rightarrow> string list \<Rightarrow> string list" where
  "incoming [] i seen = seen"
| "incoming (e # es) i seen =
     (if ed_To e \<noteq> i \<or> ed_From e \<in> set seen then incoming es i seen
      else incoming es i (seen @ [ed_From e]))"

definition incomingBranches :: "CompiledWorkflow \<Rightarrow> string \<Rightarrow> string list" where
  "incomingBranches p i = sort (incoming (cw_Edges p) i [])"

definition newJoinCounter :: "JoinDeclaration \<Rightarrow> string list \<Rightarrow> frontier_error + JoinCounter" where
  "newJoinCounter d branches =
     (let c = \<lparr>jc_NodeID = jd_NodeID d, jc_Strategy = jd_Strategy d, jc_Required = 0,
                jc_RequiredBranches = [], jc_Branches = branches, jc_Arrived = [], jc_Satisfied = [],
                jc_Skipped = [], jc_Activated = False, jc_Blocked = False\<rparr>;
          bad = Inl (refuse CodeInvalidJoinDeclaration (jd_NodeID d))
      in case jd_Strategy d of
           JoinAll \<Rightarrow> Inr (c\<lparr>jc_Required := of_nat (length branches)\<rparr>)
         | JoinAny \<Rightarrow> if length branches = 0 then bad else Inr (c\<lparr>jc_Required := 1\<rparr>)
         | JoinQuorum \<Rightarrow>
             if jd_RequiredCount d = 0 \<or> unat (jd_RequiredCount d) > length branches then bad
             else Inr (c\<lparr>jc_Required := jd_RequiredCount d\<rparr>)
         | JoinRequiredSet \<Rightarrow>
             if length (jd_RequiredBranches d) = 0 then bad
             else let need = sort (jd_RequiredBranches d) in
               if \<not> list_all (\<lambda>b. b \<in> set branches) need then bad
               else Inr (c\<lparr>jc_RequiredBranches := need, jc_Required := of_nat (length need)\<rparr>)
         | JoinBestEffort \<Rightarrow> Inr (c\<lparr>jc_Required := 0\<rparr>)
         | JoinOther _ \<Rightarrow> Inr c)"

fun declare_joins :: "CompiledWorkflow \<Rightarrow> JoinDeclaration list \<Rightarrow> JoinDeclaration list
    \<Rightarrow> frontier_error + JoinDeclaration list" where
  "declare_joins p declared [] = Inr declared"
| "declare_joins p declared (d # ds) =
     (let bad = Inl (refuse CodeInvalidJoinDeclaration (jd_NodeID d)) in
      case CompiledWorkflow_Node p (jd_NodeID d) of
        None \<Rightarrow> bad
      | Some node \<Rightarrow>
          if cn_Type node \<noteq> StepJoin then bad
          else if jd_NodeID d \<in> set (map jd_NodeID declared) then bad
          else if \<not> JoinStrategy_Valid (jd_Strategy d) then bad
          else declare_joins p (declared @ [d]) ds)"

fun seed_counters :: "CompiledWorkflow \<Rightarrow> JoinDeclaration list \<Rightarrow> CompiledNode list
    \<Rightarrow> frontier_error + JoinCounter list" where
  "seed_counters p declared [] = Inr []"
| "seed_counters p declared (n # ns) =
     (if cn_Type n \<noteq> StepJoin then seed_counters p declared ns
      else let decl = (case find (\<lambda>d. jd_NodeID d = cn_ID n) declared of
                         Some d \<Rightarrow> d
                       | None \<Rightarrow> \<lparr>jd_NodeID = cn_ID n, jd_Strategy = JoinAll, jd_RequiredCount = 0,
                                  jd_RequiredBranches = []\<rparr>)
           in bind_res (newJoinCounter decl (incomingBranches p (cn_ID n))) (\<lambda>c.
              bind_res (seed_counters p declared ns) (\<lambda>cs. Inr (c # cs))))"

definition seedJoins :: "CompiledWorkflow \<Rightarrow> JoinDeclaration list \<Rightarrow> frontier_error + JoinCounter list" where
  "seedJoins p decls =
     bind_res (declare_joins p [] decls) (\<lambda>declared.
     bind_res (seed_counters p declared (cw_Nodes p)) (\<lambda>out. Inr (sort_key jc_NodeID out)))"

definition Seed :: "CompiledWorkflow option \<Rightarrow> string \<Rightarrow> JoinDeclaration list
    \<Rightarrow> frontier_error + InstanceState" where
  "Seed plan instanceID decls =
     (case plan of
        None \<Rightarrow> Inl (refuse CodeInvalidPlan [])
      | Some p \<Rightarrow>
          (case CompiledWorkflow_Node p (cw_StartNodeID p) of
             None \<Rightarrow> Inl (refuse CodeInvalidPlan (cw_StartNodeID p))
           | Some start \<Rightarrow>
               bind_res (seedJoins p decls) (\<lambda>joins.
                 Inr (recomputeFrontier
                   \<lparr>is_InstanceID = instanceID, is_WorkflowID = cw_WorkflowID p, is_Version = cw_Version p,
                    is_PlanDigest = cw_digest p, is_Sequence = 0, is_Frontier = [],
                    is_Nodes = [\<lparr>ns_NodeID = cn_ID start, ns_State = NodeReady, ns_Attempts = 0,
                                 ns_RouteKey = [], ns_OutputDigest = []\<rparr>],
                    is_Joins = joins, is_Completed = False, is_Terminal = zero_TerminalRecord\<rparr>))))"

subsection \<open>Outcomes\<close>

datatype AwaitKind = AwaitNone | AwaitWorkItem | AwaitSignal | AwaitTimer | AwaitOther string

datatype IntentKind =
  IntentReady | IntentWorkItemRequired | IntentSignalSubscriptionRequired | IntentTimerRequired
  | IntentComplete | IntentOther string

fun IntentKind_text :: "IntentKind \<Rightarrow> string" where
  "IntentKind_text IntentReady = ''READY''"
| "IntentKind_text IntentWorkItemRequired = ''WORK_ITEM_REQUIRED''"
| "IntentKind_text IntentSignalSubscriptionRequired = ''SIGNAL_SUBSCRIPTION_REQUIRED''"
| "IntentKind_text IntentTimerRequired = ''TIMER_REQUIRED''"
| "IntentKind_text IntentComplete = ''COMPLETE''"
| "IntentKind_text (IntentOther s) = s"

fun IntentKind_Valid :: "IntentKind \<Rightarrow> bool" where
  "IntentKind_Valid (IntentOther _) = False"
| "IntentKind_Valid _ = True"

record TerminalResult =
  tr_TerminalCode :: string
  tr_RuntimeStatus :: string
  tr_Dimensions :: Dimensions
  tr_Asserted :: bool

record NodeOutcome =
  no_NodeID :: string
  no_Outcome :: string
  no_OutputDigest :: string
  no_Await :: AwaitKind
  no_AwaitRef :: string
  no_Failed :: bool
  no_ErrorClass :: string
  no_RetryTerminal :: bool
  no_Terminal :: TerminalResult

fun awaitAdmitted :: "StepType \<Rightarrow> AwaitKind \<Rightarrow> bool" where
  "awaitAdmitted t AwaitWorkItem = (t = StepApproval \<or> t = StepTask)"
| "awaitAdmitted t AwaitSignal = (t = StepSignal)"
| "awaitAdmitted t AwaitTimer = (t = StepWait)"
| "awaitAdmitted t _ = False"

fun intentForAwait :: "AwaitKind \<Rightarrow> IntentKind" where
  "intentForAwait AwaitWorkItem = IntentWorkItemRequired"
| "intentForAwait AwaitSignal = IntentSignalSubscriptionRequired"
| "intentForAwait AwaitTimer = IntentTimerRequired"
| "intentForAwait _ = IntentOther []"

fun activationFor :: "StepType \<Rightarrow> NodeState \<times> IntentKind" where
  "activationFor StepApproval = (NodeWaiting, IntentWorkItemRequired)"
| "activationFor StepTask = (NodeWaiting, IntentWorkItemRequired)"
| "activationFor StepSignal = (NodeWaiting, IntentSignalSubscriptionRequired)"
| "activationFor StepWait = (NodeWaiting, IntentTimerRequired)"
| "activationFor _ = (NodeReady, IntentReady)"

subsection \<open>Transitions\<close>

record Intent =
  in_Kind :: IntentKind
  in_NodeID :: string
  in_Type :: StepType
  in_RouteKey :: string
  in_Ref :: string
  in_TerminalCode :: string

record Successor =
  su_NodeID :: string
  su_Type :: StepType
  su_State :: NodeState
  su_RouteKey :: string
  su_ViaDefault :: bool
  su_ViaFailure :: bool
  su_JoinPending :: bool

record Transition =
  tn_InstanceID :: string
  tn_WorkflowID :: string
  tn_Version :: "32 word"
  tn_PlanDigest :: string
  tn_Sequence :: "64 word"
  tn_CompletedNodeID :: string
  tn_CompletedType :: StepType
  tn_CompletedState :: NodeState
  tn_RouteKey :: string
  tn_OutputDigest :: string
  tn_Successors :: "Successor list"
  tn_Skipped :: "string list"
  tn_Joins :: "JoinCounter list"
  tn_Complete :: bool
  tn_Terminal :: TerminalRecord
  tn_Intents :: "Intent list"
  tn_Frontier :: "string list"
  tn_Next :: InstanceState
  tn_digest :: string

definition Transition_Intent :: "Transition \<Rightarrow> string \<Rightarrow> Intent option" where
  "Transition_Intent t i = find (\<lambda>x. in_NodeID x = i) (tn_Intents t)"

definition SuccessorIDs :: "Transition \<Rightarrow> string list" where
  "SuccessorIDs t = map su_NodeID (tn_Successors t)"

text \<open>The stable order by kind, then by node: a stable sort by node and then one by kind.\<close>

definition sortIntents :: "Intent list \<Rightarrow> Intent list" where
  "sortIntents xs = sort_key (\<lambda>i. IntentKind_text (in_Kind i)) (sort_key in_NodeID xs)"

definition sortSuccessors :: "Successor list \<Rightarrow> Successor list" where
  "sortSuccessors xs = sort_key su_NodeID xs"

end
