(* ===== verification/Workflow_Digest.thy ===== *)
theory Workflow_Digest
  imports Workflow_State
begin

text \<open>
  Package \<open>internal/workflow/frontier\<close>, file \<open>digest.go\<close>: the content digest of a transition. It is the
  SHA-256 of a profile name, a zero byte and the JSON text that \<open>encoding/json\<close> writes for the transition: fields
  in the order of the struct, those marked \<open>omitempty\<close> or \<open>omitzero\<close> left out when empty, strings escaped as the
  library does (with HTML escaping, and an invalid byte replaced).

  A slice of Go is \<open>null\<close> in JSON when it is nil. In a transition that \<open>Advance\<close> mints every copied slice is
  nil when it is empty; the frontier of the next state is made by \<open>recomputeFrontier\<close> and is never nil.
\<close>

subsection \<open>JSON\<close>

datatype json = JNull | JStr string | JNum nat | JBool bool | JArr "json list" | JObj "(string \<times> json) list"

definition json_u00 :: "char \<Rightarrow> string" where
  "json_u00 c = [CHR 92] @ ''u00'' @ hex_encode [c]"

definition json_escape_ascii :: "char \<Rightarrow> string" where
  "json_escape_ascii c =
     (let b = (of_char c :: nat) in
      if c = CHR 34 \<or> c = CHR 92 then [CHR 92, c]
      else if b = 8 then [CHR 92, CHR ''b'']
      else if b = 12 then [CHR 92, CHR ''f'']
      else if b = 10 then [CHR 92, CHR ''n'']
      else if b = 13 then [CHR 92, CHR ''r'']
      else if b = 9 then [CHR 92, CHR ''t'']
      else if b < 32 \<or> c = CHR ''<'' \<or> c = CHR ''>'' \<or> c = CHR ''&'' then json_u00 c
      else [c])"

text \<open>The length of the well-formed UTF-8 sequence at the head of a text, zero when there is none.\<close>

definition rune_len :: "string \<Rightarrow> nat" where
  "rune_len s =
     (case s of
        [] \<Rightarrow> 0
      | c # cs \<Rightarrow>
          (case utf8_first (of_char c) of
             None \<Rightarrow> 0
           | Some (k, lo, hi) \<Rightarrow>
               if k \<le> length cs \<and> list_all (byte_in lo hi) (take 1 cs) \<and> list_all (byte_in 128 191) (take k cs)
               then Suc k else 0))"

lemma rune_len_le: "rune_len s \<le> length s"
  by (auto simp: rune_len_def split: list.splits option.splits)

function json_escape :: "string \<Rightarrow> string" where
  "json_escape [] = []"
| "json_escape (c # cs) =
     (if (of_char c :: nat) < 128 then json_escape_ascii c @ json_escape cs
      else let k = rune_len (c # cs); r = take k (c # cs) in
        if k = 0 then [CHR 92] @ ''ufffd'' @ json_escape cs
        else (if r = [CHR 226, CHR 128, CHR 168] then [CHR 92] @ ''u2028''
              else if r = [CHR 226, CHR 128, CHR 169] then [CHR 92] @ ''u2029''
              else r) @ json_escape (drop k (c # cs)))"
  by pat_completeness auto
termination
  by (relation "measure length") auto

definition commas :: "string list \<Rightarrow> string" where
  "commas xs = join (CHR '','') xs"

fun json_text :: "json \<Rightarrow> string" where
  "json_text JNull = ''null''"
| "json_text (JStr s) = [CHR 34] @ json_escape s @ [CHR 34]"
| "json_text (JNum n) = nat_digits n"
| "json_text (JBool b) = (if b then ''true'' else ''false'')"
| "json_text (JArr xs) = ''['' @ commas (map json_text xs) @ '']''"
| "json_text (JObj fs) =
     ''{'' @ commas (map (\<lambda>(k, v). [CHR 34] @ json_escape k @ [CHR 34] @ '':'' @ json_text v) fs) @ ''}''"

subsection \<open>The fields of the structs\<close>

definition field :: "string \<Rightarrow> json \<Rightarrow> (string \<times> json) list" where
  "field k v = [(k, v)]"

definition str_opt :: "string \<Rightarrow> string \<Rightarrow> (string \<times> json) list" where
  "str_opt k s = (if s = [] then [] else [(k, JStr s)])"

definition arr_opt :: "string \<Rightarrow> json list \<Rightarrow> (string \<times> json) list" where
  "arr_opt k xs = (if xs = [] then [] else [(k, JArr xs)])"

definition bool_opt :: "string \<Rightarrow> bool \<Rightarrow> (string \<times> json) list" where
  "bool_opt k b = (if b then [(k, JBool True)] else [])"

definition arr_or_null :: "json list \<Rightarrow> json" where
  "arr_or_null xs = (if xs = [] then JNull else JArr xs)"

definition json_NodeStatus :: "NodeStatus \<Rightarrow> json" where
  "json_NodeStatus n = JObj
     (field ''node_id'' (JStr (ns_NodeID n)) @ field ''state'' (JStr (NodeState_text (ns_State n)))
      @ field ''attempts'' (JNum (unat (ns_Attempts n))) @ str_opt ''route_key'' (ns_RouteKey n)
      @ str_opt ''output_digest'' (ns_OutputDigest n))"

definition json_JoinCounter :: "JoinCounter \<Rightarrow> json" where
  "json_JoinCounter j = JObj
     (field ''node_id'' (JStr (jc_NodeID j)) @ field ''strategy'' (JStr (JoinStrategy_text (jc_Strategy j)))
      @ field ''required'' (JNum (unat (jc_Required j))) @ arr_opt ''required_branches'' (map JStr (jc_RequiredBranches j))
      @ field ''branches'' (arr_or_null (map JStr (jc_Branches j))) @ arr_opt ''arrived'' (map JStr (jc_Arrived j))
      @ arr_opt ''satisfied'' (map JStr (jc_Satisfied j)) @ arr_opt ''skipped'' (map JStr (jc_Skipped j))
      @ field ''activated'' (JBool (jc_Activated j)) @ field ''blocked'' (JBool (jc_Blocked j)))"

definition json_LifecycleState :: "LifecycleState \<Rightarrow> json" where
  "json_LifecycleState l = JObj
     (field ''request_state'' (JStr (ls_RequestState l)) @ field ''execution_state'' (JStr (ls_ExecutionState l))
      @ field ''business_state'' (JStr (ls_BusinessState l))
      @ field ''consistency_state'' (JStr (ls_ConsistencyState l))
      @ field ''obligation_state'' (JStr (ls_ObligationState l)))"

definition json_TerminalRecord :: "TerminalRecord \<Rightarrow> json" where
  "json_TerminalRecord t = JObj
     (field ''node_id'' (JStr (te_NodeID t)) @ field ''terminal_code'' (JStr (te_TerminalCode t))
      @ field ''runtime_status'' (JStr (te_RuntimeStatus t))
      @ field ''lifecycle'' (json_LifecycleState (te_Lifecycle t))
      @ arr_opt ''outstanding_obligation_refs'' (map JStr (te_OutstandingObligationRefs t))
      @ arr_opt ''repair_refs'' (map JStr (te_RepairRefs t)) @ arr_opt ''incident_refs'' (map JStr (te_IncidentRefs t)))"

definition terminal_field :: "TerminalRecord \<Rightarrow> (string \<times> json) list" where
  "terminal_field t = (if t = zero_TerminalRecord then [] else [(''terminal'', json_TerminalRecord t)])"

definition json_InstanceState :: "InstanceState \<Rightarrow> json" where
  "json_InstanceState s = JObj
     (field ''instance_id'' (JStr (is_InstanceID s)) @ field ''workflow_id'' (JStr (is_WorkflowID s))
      @ field ''version'' (JNum (unat (is_Version s))) @ field ''plan_digest'' (JStr (is_PlanDigest s))
      @ field ''sequence'' (JNum (unat (is_Sequence s))) @ field ''frontier'' (JArr (map JStr (is_Frontier s)))
      @ field ''nodes'' (arr_or_null (map json_NodeStatus (is_Nodes s)))
      @ arr_opt ''joins'' (map json_JoinCounter (is_Joins s)) @ field ''completed'' (JBool (is_Completed s))
      @ terminal_field (is_Terminal s))"

definition json_Intent :: "Intent \<Rightarrow> json" where
  "json_Intent i = JObj
     (field ''kind'' (JStr (IntentKind_text (in_Kind i))) @ field ''node_id'' (JStr (in_NodeID i))
      @ str_opt ''type'' (StepType_text (in_Type i)) @ str_opt ''route_key'' (in_RouteKey i)
      @ str_opt ''ref'' (in_Ref i) @ str_opt ''terminal_code'' (in_TerminalCode i))"

definition json_Successor :: "Successor \<Rightarrow> json" where
  "json_Successor s = JObj
     (field ''node_id'' (JStr (su_NodeID s)) @ field ''type'' (JStr (StepType_text (su_Type s)))
      @ field ''state'' (JStr (NodeState_text (su_State s))) @ str_opt ''route_key'' (su_RouteKey s)
      @ bool_opt ''via_default'' (su_ViaDefault s) @ bool_opt ''via_failure'' (su_ViaFailure s)
      @ bool_opt ''join_pending'' (su_JoinPending s))"

definition json_Transition :: "Transition \<Rightarrow> json" where
  "json_Transition t = JObj
     (field ''instance_id'' (JStr (tn_InstanceID t)) @ field ''workflow_id'' (JStr (tn_WorkflowID t))
      @ field ''version'' (JNum (unat (tn_Version t))) @ field ''plan_digest'' (JStr (tn_PlanDigest t))
      @ field ''sequence'' (JNum (unat (tn_Sequence t))) @ field ''completed_node_id'' (JStr (tn_CompletedNodeID t))
      @ field ''completed_type'' (JStr (StepType_text (tn_CompletedType t)))
      @ field ''completed_state'' (JStr (NodeState_text (tn_CompletedState t)))
      @ str_opt ''route_key'' (tn_RouteKey t) @ str_opt ''output_digest'' (tn_OutputDigest t)
      @ arr_opt ''successors'' (map json_Successor (tn_Successors t)) @ arr_opt ''skipped'' (map JStr (tn_Skipped t))
      @ arr_opt ''joins'' (map json_JoinCounter (tn_Joins t)) @ field ''complete'' (JBool (tn_Complete t))
      @ terminal_field (tn_Terminal t) @ arr_opt ''intents'' (map json_Intent (tn_Intents t))
      @ field ''frontier'' (arr_or_null (map JStr (tn_Frontier t))) @ field ''next'' (json_InstanceState (tn_Next t)))"

subsection \<open>The digest\<close>

definition transitionDigestProfile :: string where
  "transitionDigestProfile = ''hcmnext.workflow.frontier.Transition/v1''"

definition canonicalDigest :: "(bytes \<Rightarrow> bytes) \<Rightarrow> string \<Rightarrow> json \<Rightarrow> string" where
  "canonicalDigest sum256 profile v = hex_encode (sum256 (profile @ [CHR 0x00] @ json_text v))"

definition computeTransitionDigest :: "(bytes \<Rightarrow> bytes) \<Rightarrow> Transition \<Rightarrow> string" where
  "computeTransitionDigest sum256 t = canonicalDigest sum256 transitionDigestProfile (json_Transition t)"

definition Transition_Verify :: "(bytes \<Rightarrow> bytes) \<Rightarrow> Transition \<Rightarrow> frontier_error option" where
  "Transition_Verify sum256 t =
     reject (computeTransitionDigest sum256 t \<noteq> tn_digest t) (refuse CodeInvalidState (tn_CompletedNodeID t))"

end
