(* ===== verification/Workflow_Advance.thy ===== *)
theory Workflow_Advance
  imports Workflow_Digest Worklist
begin

text \<open>
  Package \<open>internal/workflow/frontier\<close>, file \<open>advance.go\<close>: the function that derives, from a compiled plan, the
  snapshot of an instance and one node outcome, the next snapshot with the successors, join counters and scheduling
  intents that follow, or a typed refusal.

  The record \<open>advance\<close> is the working set of one evaluation and each of its methods returns it updated.
\<close>

record advance =
  av_plan :: CompiledWorkflow
  av_node :: CompiledNode
  av_status :: NodeStatus
  av_outcome :: NodeOutcome
  av_next :: InstanceState
  av_t :: Transition

fun validate_nodes :: "CompiledWorkflow \<Rightarrow> NodeStatus option \<Rightarrow> NodeStatus list \<Rightarrow> frontier_error option" where
  "validate_nodes p prev [] = None"
| "validate_nodes p prev (n # ns) =
     first_err (reject (CompiledWorkflow_Node p (ns_NodeID n) = None) (refuse CodeInvalidState (ns_NodeID n)))
     (first_err (reject (\<not> NodeState_Valid (ns_State n)) (refuse CodeInvalidState (ns_NodeID n)))
     (first_err (reject (case prev of None \<Rightarrow> False | Some m \<Rightarrow> ns_NodeID m \<ge> ns_NodeID n)
                  (refuse CodeInvalidState (ns_NodeID n)))
       (validate_nodes p (Some n) ns)))"

fun validate_joins :: "CompiledWorkflow \<Rightarrow> JoinCounter option \<Rightarrow> JoinCounter list \<Rightarrow> frontier_error option" where
  "validate_joins p prev [] = None"
| "validate_joins p prev (j # js) =
     first_err (reject (CompiledWorkflow_Node p (jc_NodeID j) = None) (refuse CodeInvalidState (jc_NodeID j)))
     (first_err (reject (\<not> JoinStrategy_Valid (jc_Strategy j)) (refuse CodeInvalidState (jc_NodeID j)))
     (first_err (reject (case prev of None \<Rightarrow> False | Some m \<Rightarrow> jc_NodeID m \<ge> jc_NodeID j)
                  (refuse CodeInvalidState (jc_NodeID j)))
       (validate_joins p (Some j) js)))"

definition validateState :: "CompiledWorkflow \<Rightarrow> InstanceState \<Rightarrow> frontier_error option" where
  "validateState p s =
     first_err (validate_nodes p None (is_Nodes s))
     (first_err (reject (join (CHR '','') (is_Frontier (recomputeFrontier s)) \<noteq> join (CHR '','') (is_Frontier s))
                  (refuse CodeInvalidState []))
       (validate_joins p None (is_Joins s)))"

definition zero_Transition :: "InstanceState \<Rightarrow> Transition" where
  "zero_Transition s =
     \<lparr>tn_InstanceID = [], tn_WorkflowID = [], tn_Version = 0, tn_PlanDigest = [], tn_Sequence = 0,
      tn_CompletedNodeID = [], tn_CompletedType = StepOther [], tn_CompletedState = NodeStateOther [],
      tn_RouteKey = [], tn_OutputDigest = [], tn_Successors = [], tn_Skipped = [], tn_Joins = [],
      tn_Complete = False, tn_Terminal = zero_TerminalRecord, tn_Intents = [], tn_Frontier = [],
      tn_Next = s, tn_digest = []\<rparr>"

definition newAdvance :: "CompiledWorkflow option \<Rightarrow> InstanceState \<Rightarrow> NodeOutcome \<Rightarrow> frontier_error + advance" where
  "newAdvance plan state completed =
     (case plan of
        None \<Rightarrow> Inl (refuse CodeInvalidPlan [])
      | Some p \<Rightarrow>
          if is_PlanDigest state \<noteq> cw_digest p then Inl (refuse CodePlanMismatch [])
          else if is_Completed state then Inl (refuse CodeAlreadyComplete (te_NodeID (is_Terminal state)))
          else guard_res (validateState p state)
            (case CompiledWorkflow_Node p (no_NodeID completed) of
               None \<Rightarrow> Inl (refuse CodeUnknownNode (no_NodeID completed))
             | Some node \<Rightarrow>
                 (case InstanceState_Node state (no_NodeID completed) of
                    None \<Rightarrow> Inl (refuse CodeNodeNotActive (no_NodeID completed))
                  | Some status \<Rightarrow>
                      if \<not> NodeState_Active (ns_State status)
                      then Inl (refuse CodeNodeNotActive (no_NodeID completed))
                      else if no_Await completed \<noteq> AwaitNone \<and> no_Failed completed
                      then Inl (refuse CodeAwaitNotAdmitted (no_NodeID completed))
                      else Inr
                        \<lparr>av_plan = p, av_node = node, av_status = status, av_outcome = completed,
                         av_next = state\<lparr>is_Sequence := is_Sequence state + 1\<rparr>,
                         av_t = zero_Transition state\<rparr>)))"

definition add_intent :: "Intent \<Rightarrow> advance \<Rightarrow> advance" where
  "add_intent i a = a\<lparr>av_t := (av_t a)\<lparr>tn_Intents := tn_Intents (av_t a) @ [i]\<rparr>\<rparr>"

definition add_successor :: "Successor \<Rightarrow> advance \<Rightarrow> advance" where
  "add_successor s a = a\<lparr>av_t := (av_t a)\<lparr>tn_Successors := tn_Successors (av_t a) @ [s]\<rparr>\<rparr>"

definition settle :: "NodeStatus \<Rightarrow> advance \<Rightarrow> advance" where
  "settle st a =
     a\<lparr>av_status := st, av_next := setNode (av_next a) st,
       av_t := (av_t a)\<lparr>tn_CompletedState := ns_State st\<rparr>\<rparr>"

definition await_node :: "advance \<Rightarrow> frontier_error + advance" where
  "await_node a =
     (let i = cn_ID (av_node a); o' = av_outcome a in
      if no_Outcome o' \<noteq> [] then Inl (refuse CodeAwaitNotAdmitted i)
      else if \<not> awaitAdmitted (cn_Type (av_node a)) (no_Await o') then Inl (refuse CodeAwaitNotAdmitted i)
      else Inr (add_intent
        \<lparr>in_Kind = intentForAwait (no_Await o'), in_NodeID = i, in_Type = cn_Type (av_node a),
         in_RouteKey = [], in_Ref = no_AwaitRef o', in_TerminalCode = []\<rparr>
        (settle ((av_status a)\<lparr>ns_State := NodeWaiting\<rparr>) a)))"

definition settleJoin :: "JoinCounter \<Rightarrow> JoinCounter" where
  "settleJoin c =
     (let accounted = length (jc_Arrived c) + length (jc_Skipped c) \<ge> length (jc_Branches c);
          met = (case jc_Strategy c of
                   JoinRequiredSet \<Rightarrow> list_all (\<lambda>b. b \<in> set (jc_Satisfied c)) (jc_RequiredBranches c)
                 | JoinBestEffort \<Rightarrow> accounted
                 | JoinOther _ \<Rightarrow> False
                 | _ \<Rightarrow> of_nat (length (jc_Satisfied c)) \<ge> jc_Required c);
          activated = (jc_Activated c \<or> met)
      in c\<lparr>jc_Activated := activated, jc_Blocked := \<not> activated \<and> accounted\<rparr>)"

definition fresh_status :: "string \<Rightarrow> NodeState \<Rightarrow> NodeStatus" where
  "fresh_status i st =
     \<lparr>ns_NodeID = i, ns_State = st, ns_Attempts = 0, ns_RouteKey = [], ns_OutputDigest = []\<rparr>"

definition activateJoin :: "CompiledNode \<Rightarrow> string \<Rightarrow> bool \<Rightarrow> bool \<Rightarrow> advance \<Rightarrow> frontier_error + advance" where
  "activateJoin target routeKey viaDefault viaFailure a =
     (case InstanceState_Join (av_next a) (cn_ID target) of
        None \<Rightarrow> Inl (refuse CodeJoinNotDeclared (cn_ID target))
      | Some counter \<Rightarrow>
          if cn_ID (av_node a) \<notin> set (jc_Branches counter) then Inl (refuse CodeInvalidState (cn_ID target))
          else let c = settleJoin (counter\<lparr>jc_Arrived := insertSorted (jc_Arrived counter) (cn_ID (av_node a)),
                         jc_Satisfied := insertSorted (jc_Satisfied counter) (cn_ID (av_node a))\<rparr>);
                   st = (if jc_Activated c then NodeReady else NodeWaiting);
                   a1 = a\<lparr>av_next := setJoin (setNode (av_next a) (fresh_status (cn_ID target) st)) c,
                          av_t := (av_t a)\<lparr>tn_Joins := tn_Joins (av_t a) @ [c]\<rparr>\<rparr>;
                   a2 = add_successor
                     \<lparr>su_NodeID = cn_ID target, su_Type = cn_Type target, su_State = st, su_RouteKey = routeKey,
                      su_ViaDefault = viaDefault, su_ViaFailure = viaFailure,
                      su_JoinPending = (\<not> jc_Activated c)\<rparr> a1
               in Inr (if jc_Activated c
                       then add_intent \<lparr>in_Kind = IntentReady, in_NodeID = cn_ID target, in_Type = cn_Type target,
                              in_RouteKey = routeKey, in_Ref = [], in_TerminalCode = []\<rparr> a2
                       else a2))"

definition activate :: "string \<Rightarrow> string \<Rightarrow> bool \<Rightarrow> bool \<Rightarrow> advance \<Rightarrow> frontier_error + advance" where
  "activate targetID routeKey viaDefault viaFailure a =
     (case CompiledWorkflow_Node (av_plan a) targetID of
        None \<Rightarrow> Inl (refuse CodeUnknownNode targetID)
      | Some target \<Rightarrow>
          if cn_Type target = StepJoin then activateJoin target routeKey viaDefault viaFailure a
          else case activationFor (cn_Type target) of (st, intent) \<Rightarrow>
            Inr (add_intent \<lparr>in_Kind = intent, in_NodeID = cn_ID target, in_Type = cn_Type target,
                   in_RouteKey = routeKey, in_Ref = [], in_TerminalCode = []\<rparr>
                (add_successor \<lparr>su_NodeID = cn_ID target, su_Type = cn_Type target, su_State = st,
                   su_RouteKey = routeKey, su_ViaDefault = viaDefault, su_ViaFailure = viaFailure,
                   su_JoinPending = False\<rparr>
                (a\<lparr>av_next := setNode (av_next a) (fresh_status (cn_ID target) st)\<rparr>))))"

definition fail_node :: "advance \<Rightarrow> frontier_error + advance" where
  "fail_node a =
     (let attempts = ns_Attempts (av_status a) + 1;
          budget = (case cn_Retry (av_node a) of Some n \<Rightarrow> n | None \<Rightarrow> 0)
      in if attempts < budget \<and> \<not> no_RetryTerminal (av_outcome a)
         then Inr (add_intent \<lparr>in_Kind = IntentReady, in_NodeID = cn_ID (av_node a), in_Type = cn_Type (av_node a),
                     in_RouteKey = [], in_Ref = no_ErrorClass (av_outcome a), in_TerminalCode = []\<rparr>
                   (settle ((av_status a)\<lparr>ns_State := NodeRetrying, ns_Attempts := attempts\<rparr>) a))
         else if cn_FailureRoute (av_node a) = [] then Inl (refuse CodeNoFailureRoute (cn_ID (av_node a)))
         else activate (cn_FailureRoute (av_node a)) [] False True
                (settle ((av_status a)\<lparr>ns_State := NodeFailed, ns_Attempts := attempts\<rparr>) a))"

definition checkAssertedTerminal :: "advance \<Rightarrow> TerminalRecord \<Rightarrow> frontier_error option" where
  "checkAssertedTerminal a want =
     (let got = no_Terminal (av_outcome a); e = refuse CodeTerminalMismatch (cn_ID (av_node a)) in
      first_err (reject (tr_TerminalCode got \<noteq> [] \<and> tr_TerminalCode got \<noteq> te_TerminalCode want) e)
      (first_err (reject (tr_RuntimeStatus got \<noteq> [] \<and> tr_RuntimeStatus got \<noteq> te_RuntimeStatus want) e)
        (reject (tr_Asserted got \<and> lifecycleStateOf (tr_Dimensions got) \<noteq> te_Lifecycle want) e)))"

definition end_node :: "advance \<Rightarrow> frontier_error + advance" where
  "end_node a =
     (case cn_Terminal (av_node a) of
        None \<Rightarrow> Inl (refuse CodeMissingTerminal (cn_ID (av_node a)))
      | Some terminal \<Rightarrow>
          let rec = terminalRecordOf terminal in
          guard_res (checkAssertedTerminal a rec)
           (let a1 = settle ((av_status a)\<lparr>ns_State := NodeSucceeded,
                        ns_OutputDigest := no_OutputDigest (av_outcome a)\<rparr>) a;
                next = recomputeFrontier (av_next a1)
            in if is_Frontier next \<noteq> [] then Inl (refuse CodeTerminalFrontierRemains (cn_ID (av_node a)))
               else Inr (add_intent \<lparr>in_Kind = IntentComplete, in_NodeID = cn_ID (av_node a),
                        in_Type = cn_Type (av_node a), in_RouteKey = [], in_Ref = [],
                        in_TerminalCode = te_TerminalCode rec\<rparr>
                      (a1\<lparr>av_next := next\<lparr>is_Completed := True, is_Terminal := rec\<rparr>,
                          av_t := (av_t a1)\<lparr>tn_Complete := True, tn_Terminal := rec\<rparr>\<rparr>))))"

definition declares :: "advance \<Rightarrow> string \<Rightarrow> bool" where
  "declares a key \<longleftrightarrow>
     (case ConformanceFor (cn_Type (av_node a)) of Some conf \<Rightarrow> key \<in> set (cf_Outcomes conf) | None \<Rightarrow> False)
     \<or> (case cn_Decision (av_node a) of Some d \<Rightarrow> key \<in> set (cd_Routes d) | None \<Rightarrow> False)"

definition edge :: "advance \<Rightarrow> string \<Rightarrow> string option" where
  "edge a key =
     map_option ed_To (find (\<lambda>e. ed_From e = cn_ID (av_node a) \<and> ed_RouteKey e = key) (cw_Edges (av_plan a)))"

subsection \<open>Excluded branches\<close>

fun push_targets :: "Edge list \<Rightarrow> string \<Rightarrow> string list \<Rightarrow> string list \<Rightarrow> string list \<times> string list" where
  "push_targets [] i seen stack = (seen, stack)"
| "push_targets (e # es) i seen stack =
     (if ed_From e \<noteq> i \<or> ed_To e \<in> set seen then push_targets es i seen stack
      else push_targets es i (ed_To e # seen) (ed_To e # stack))"

lemma push_adds:
  "\<exists>new. push_targets es i seen stack = (new @ seen, new @ stack) \<and> distinct new
     \<and> set new = ed_To ` {e \<in> set es. ed_From e = i} - set seen"
proof (induction es arbitrary: seen stack)
  case (Cons e es)
  show ?case
  proof (cases "ed_From e \<noteq> i \<or> ed_To e \<in> set seen")
    case True
    then have "ed_To ` {e' \<in> set (e # es). ed_From e' = i} - set seen
        = ed_To ` {e' \<in> set es. ed_From e' = i} - set seen"
      by auto
    then show ?thesis
      using True Cons.IH [of seen stack] by simp
  next
    case False
    obtain new where new: "push_targets es i (ed_To e # seen) (ed_To e # stack)
        = (new @ ed_To e # seen, new @ ed_To e # stack)" "distinct new"
      "set new = ed_To ` {e' \<in> set es. ed_From e' = i} - set (ed_To e # seen)"
      using Cons.IH [of "ed_To e # seen" "ed_To e # stack"] by auto
    have "set (new @ [ed_To e]) = ed_To ` {e' \<in> set (e # es). ed_From e' = i} - set seen"
      using new(3) False by auto
    then show ?thesis
      using new False by (intro exI [of _ "new @ [ed_To e]"]) auto
  qed
qed simp

function dfs :: "Edge list \<Rightarrow> string list \<Rightarrow> string list \<Rightarrow> string list" where
  "dfs es seen [] = seen"
| "dfs es seen (i # stack) = (case push_targets es i seen stack of (seen', stack') \<Rightarrow> dfs es seen' stack')"
  by pat_completeness auto
termination
proof (relation "measure (\<lambda>(es, seen, stack). card (ed_To ` set es - set seen) + length stack)", goal_cases)
  case (2 es seen i stack seen' stack')
  obtain new where new: "seen' = new @ seen" "stack' = new @ stack" "distinct new"
    "set new = ed_To ` {e \<in> set es. ed_From e = i} - set seen"
    using push_adds [of es i seen stack] 2 by auto
  then have "set new \<subseteq> ed_To ` set es - set seen" by auto
  then show ?case
    using fresh_targets_weight [of "ed_To ` set es" new seen] new by simp
qed simp

definition reachableFrom :: "CompiledWorkflow \<Rightarrow> string list \<Rightarrow> string list" where
  "reachableFrom p from = dfs (cw_Edges p) from (rev from)"

definition appendJoin :: "JoinCounter list \<Rightarrow> JoinCounter \<Rightarrow> JoinCounter list" where
  "appendJoin xs c =
     (case find (\<lambda>i. jc_NodeID (xs ! i) = jc_NodeID c) [0..<length xs] of
        Some i \<Rightarrow> xs[i := c]
      | None \<Rightarrow> xs @ [c])"

definition skip_edge :: "string \<Rightarrow> advance \<Rightarrow> Edge \<Rightarrow> advance" where
  "skip_edge skipped a e =
     (if ed_From e \<noteq> skipped then a
      else case InstanceState_Join (av_next a) (ed_To e) of
        None \<Rightarrow> a
      | Some counter \<Rightarrow>
          if skipped \<notin> set (jc_Branches counter) then a
          else let c = settleJoin (counter\<lparr>jc_Skipped := insertSorted (jc_Skipped counter) skipped\<rparr>)
               in a\<lparr>av_next := setJoin (av_next a) c,
                    av_t := (av_t a)\<lparr>tn_Joins := appendJoin (tn_Joins (av_t a)) c\<rparr>\<rparr>)"

definition recordSkippedBranch :: "string \<Rightarrow> advance \<Rightarrow> advance" where
  "recordSkippedBranch skipped a = foldl (skip_edge skipped) a (cw_Edges (av_plan a))"

definition skip_candidates :: "string \<Rightarrow> string \<Rightarrow> string list \<Rightarrow> advance \<Rightarrow> string list" where
  "skip_candidates takenRoute takenTarget live a =
     foldl (\<lambda>cs e.
         if ed_From e \<noteq> cn_ID (av_node a) \<or> ed_RouteKey e = takenRoute \<or> ed_To e = takenTarget then cs
         else if ed_To e \<in> set live then cs
         else if InstanceState_Node (av_next a) (ed_To e) \<noteq> None then cs
         else insertSorted cs (ed_To e))
       [] (cw_Edges (av_plan a))"

fun skip_all :: "string list \<Rightarrow> advance \<Rightarrow> frontier_error + advance" where
  "skip_all [] a = Inr a"
| "skip_all (i # ids) a =
     (case CompiledWorkflow_Node (av_plan a) i of
        None \<Rightarrow> Inl (refuse CodeUnknownNode i)
      | Some _ \<Rightarrow>
          skip_all ids (recordSkippedBranch i
            (a\<lparr>av_next := setNode (av_next a) (fresh_status i NodeSkipped),
               av_t := (av_t a)\<lparr>tn_Skipped := insertSorted (tn_Skipped (av_t a)) i\<rparr>\<rparr>)))"

definition skipExcluded :: "string \<Rightarrow> string \<Rightarrow> advance \<Rightarrow> frontier_error + advance" where
  "skipExcluded takenRoute takenTarget a =
     (let a1 = a\<lparr>av_next := recomputeFrontier (av_next a)\<rparr>;
          live = reachableFrom (av_plan a1) (is_Frontier (av_next a1))
      in skip_all (skip_candidates takenRoute takenTarget live a1) a1)"

subsection \<open>Routing and the evaluation\<close>

definition take_route :: "string \<Rightarrow> bool \<Rightarrow> advance \<Rightarrow> frontier_error + advance" where
  "take_route key viaDefault a =
     (case edge a key of
        None \<Rightarrow> Inl (refuse CodeMissingRoute (cn_ID (av_node a)))
      | Some target \<Rightarrow>
          let a1 = settle ((av_status a)\<lparr>ns_State := NodeSucceeded, ns_RouteKey := key,
                             ns_OutputDigest := no_OutputDigest (av_outcome a)\<rparr>) a;
              a2 = a1\<lparr>av_t := (av_t a1)\<lparr>tn_RouteKey := key\<rparr>\<rparr>
          in bind_res (activate target key viaDefault False a2) (skipExcluded key target))"

definition route :: "advance \<Rightarrow> frontier_error + advance" where
  "route a =
     (let key = no_Outcome (av_outcome a); i = cn_ID (av_node a) in
      if key = [] then Inl (refuse CodeUnknownOutcome i)
      else if declares a key then take_route key False a
      else if cn_Type (av_node a) = StepDecision then
        (case cn_Decision (av_node a) of
           None \<Rightarrow> Inl (refuse CodeUnknownOutcome i)
         | Some d \<Rightarrow> if cd_DefaultRoute d = [] then Inl (refuse CodeNoMatchingRoute i)
                     else take_route (cd_DefaultRoute d) True a)
      else Inl (refuse CodeUnknownOutcome i))"

definition finish :: "(bytes \<Rightarrow> bytes) \<Rightarrow> advance \<Rightarrow> Transition" where
  "finish sum256 a =
     (let next = recomputeFrontier (av_next a); t0 = av_t a;
          t = t0\<lparr>tn_Successors := sortSuccessors (tn_Successors t0), tn_Intents := sortIntents (tn_Intents t0),
                 tn_Skipped := sort (tn_Skipped t0), tn_Joins := sort_key jc_NodeID (tn_Joins t0),
                 tn_Frontier := is_Frontier next, tn_Next := next\<rparr>
      in t\<lparr>tn_digest := computeTransitionDigest sum256 t\<rparr>)"

definition run_outcome :: "advance \<Rightarrow> frontier_error + advance" where
  "run_outcome a =
     (if no_Await (av_outcome a) \<noteq> AwaitNone then await_node a
      else if no_Failed (av_outcome a) then fail_node a
      else if cn_Type (av_node a) = StepEnd then end_node a
      else route a)"

definition start_transition :: "advance \<Rightarrow> advance" where
  "start_transition a =
     a\<lparr>av_t := (zero_Transition (av_next a))\<lparr>
         tn_InstanceID := is_InstanceID (av_next a), tn_WorkflowID := cw_WorkflowID (av_plan a),
         tn_Version := cw_Version (av_plan a), tn_PlanDigest := cw_digest (av_plan a),
         tn_Sequence := is_Sequence (av_next a), tn_CompletedNodeID := cn_ID (av_node a),
         tn_CompletedType := cn_Type (av_node a), tn_OutputDigest := no_OutputDigest (av_outcome a)\<rparr>\<rparr>"

definition advance_run :: "(bytes \<Rightarrow> bytes) \<Rightarrow> advance \<Rightarrow> frontier_error + Transition" where
  "advance_run sum256 a = bind_res (run_outcome (start_transition a)) (\<lambda>a'. Inr (finish sum256 a'))"

definition Advance :: "(bytes \<Rightarrow> bytes) \<Rightarrow> CompiledWorkflow option \<Rightarrow> InstanceState \<Rightarrow> NodeOutcome
    \<Rightarrow> frontier_error + Transition" where
  "Advance sum256 plan state completed = bind_res (newAdvance plan state completed) (advance_run sum256)"

end
