(* ===== verification/Workflow_Frontier.thy ===== *)
theory Workflow_Frontier
  imports Workflow_Advance
begin

text \<open>
  The properties of \<open>internal/workflow/frontier\<close>: what an accepted advancement does to the states of the nodes, the
  invariant of every instance that seeding and advancing can reach, and the inputs on which the code departs from
  what its comments promise.

  The states of the nodes are read as a partial map, the abstraction of the sorted slice: every step of an
  advancement is an update of that map.
\<close>

subsection \<open>The snapshot as a map\<close>

definition wf_nodes :: "CompiledWorkflow \<Rightarrow> InstanceState \<Rightarrow> bool" where
  "wf_nodes p s \<longleftrightarrow> sorted_slice ns_NodeID (is_Nodes s)
     \<and> (\<forall>n \<in> set (is_Nodes s). CompiledWorkflow_Node p (ns_NodeID n) \<noteq> None \<and> NodeState_Valid (ns_State n))"

definition wf_joins :: "CompiledWorkflow \<Rightarrow> InstanceState \<Rightarrow> bool" where
  "wf_joins p s \<longleftrightarrow> sorted_slice jc_NodeID (is_Joins s)
     \<and> (\<forall>j \<in> set (is_Joins s). CompiledWorkflow_Node p (jc_NodeID j) \<noteq> None \<and> JoinStrategy_Valid (jc_Strategy j))"

definition active_nodes :: "InstanceState \<Rightarrow> string set" where
  "active_nodes s = {i. \<exists>st. InstanceState_Node s i = Some st \<and> NodeState_Active (ns_State st)}"

definition same_frame :: "InstanceState \<Rightarrow> InstanceState \<Rightarrow> bool" where
  "same_frame s s' \<longleftrightarrow> is_InstanceID s' = is_InstanceID s \<and> is_WorkflowID s' = is_WorkflowID s
     \<and> is_Version s' = is_Version s \<and> is_PlanDigest s' = is_PlanDigest s \<and> is_Sequence s' = is_Sequence s
     \<and> is_Completed s' = is_Completed s \<and> is_Terminal s' = is_Terminal s"

lemma same_frame_refl [simp]: "same_frame s s"
  by (simp add: same_frame_def)

lemma same_frame_trans: "same_frame r s \<Longrightarrow> same_frame s t \<Longrightarrow> same_frame r t"
  by (simp add: same_frame_def)

lemma Node_ID: "CompiledWorkflow_Node p i = Some n \<Longrightarrow> cn_ID n = i \<and> n \<in> set (cw_Nodes p)"
  by (auto simp: CompiledWorkflow_Node_def find_Some_iff)

lemma Node_iff: "wf_nodes p s \<Longrightarrow> InstanceState_Node s i = Some st \<longleftrightarrow> st \<in> set (is_Nodes s) \<and> ns_NodeID st = i"
  by (simp add: InstanceState_Node_def wf_nodes_def slice_get_iff)

lemma Join_iff: "wf_joins p s \<Longrightarrow> InstanceState_Join s i = Some j \<longleftrightarrow> j \<in> set (is_Joins s) \<and> jc_NodeID j = i"
  by (simp add: InstanceState_Join_def wf_joins_def slice_get_iff)

lemma setNode_simps [simp]:
  "is_Joins (setNode s st) = is_Joins s" "InstanceState_Join (setNode s st) = InstanceState_Join s"
  "is_Frontier (setNode s st) = is_Frontier s" "same_frame r (setNode s st) = same_frame r s"
  "same_frame (setNode s st) r = same_frame s r"
  "wf_joins p (setNode s st) = wf_joins p s"
  by (simp_all add: setNode_def same_frame_def wf_joins_def InstanceState_Join_def fun_eq_iff)

lemma setJoin_simps [simp]:
  "is_Nodes (setJoin s j) = is_Nodes s" "InstanceState_Node (setJoin s j) = InstanceState_Node s"
  "is_Frontier (setJoin s j) = is_Frontier s" "same_frame r (setJoin s j) = same_frame r s"
  "wf_nodes p (setJoin s j) = wf_nodes p s"
  by (simp_all add: setJoin_def same_frame_def wf_nodes_def InstanceState_Node_def fun_eq_iff)

lemma recomputeFrontier_simps [simp]:
  "is_Nodes (recomputeFrontier s) = is_Nodes s" "is_Joins (recomputeFrontier s) = is_Joins s"
  "InstanceState_Node (recomputeFrontier s) = InstanceState_Node s"
  "InstanceState_Join (recomputeFrontier s) = InstanceState_Join s"
  "same_frame r (recomputeFrontier s) = same_frame r s" "same_frame (recomputeFrontier s) r = same_frame s r"
  "wf_nodes p (recomputeFrontier s) = wf_nodes p s" "wf_joins p (recomputeFrontier s) = wf_joins p s"
  "recomputeFrontier (recomputeFrontier s) = recomputeFrontier s"
  "is_Completed (recomputeFrontier s) = is_Completed s" "is_PlanDigest (recomputeFrontier s) = is_PlanDigest s"
  "is_Terminal (recomputeFrontier s) = is_Terminal s" "active_nodes (recomputeFrontier s) = active_nodes s"
  by (simp_all add: active_nodes_def recomputeFrontier_def same_frame_def wf_nodes_def wf_joins_def InstanceState_Node_def
      InstanceState_Join_def fun_eq_iff)

lemma Node_setNode:
  "wf_nodes p s \<Longrightarrow> InstanceState_Node (setNode s st) = (InstanceState_Node s)(ns_NodeID st \<mapsto> st)"
  by (auto simp: InstanceState_Node_def setNode_def wf_nodes_def slice_get_set fun_eq_iff)

lemma wf_setNode:
  "wf_nodes p s \<Longrightarrow> CompiledWorkflow_Node p (ns_NodeID st) \<noteq> None \<Longrightarrow> NodeState_Valid (ns_State st)
   \<Longrightarrow> wf_nodes p (setNode s st)"
  by (auto simp: wf_nodes_def setNode_def sorted_slice_set set_slice_set)

lemma wf_setJoin:
  "wf_joins p s \<Longrightarrow> InstanceState_Join s i = Some j \<Longrightarrow> jc_NodeID c = jc_NodeID j \<Longrightarrow> jc_Strategy c = jc_Strategy j
   \<Longrightarrow> wf_joins p (setJoin s c)"
  by (auto simp: wf_joins_def setJoin_def sorted_slice_set set_slice_set InstanceState_Join_def slice_get_iff)

lemma settleJoin_keeps [simp]:
  "jc_NodeID (settleJoin c) = jc_NodeID c" "jc_Strategy (settleJoin c) = jc_Strategy c"
  "jc_Branches (settleJoin c) = jc_Branches c" "jc_Arrived (settleJoin c) = jc_Arrived c"
  "jc_Satisfied (settleJoin c) = jc_Satisfied c" "jc_Skipped (settleJoin c) = jc_Skipped c"
  "jc_Required (settleJoin c) = jc_Required c" "jc_RequiredBranches (settleJoin c) = jc_RequiredBranches c"
  by (simp_all add: settleJoin_def Let_def)

lemma frontier_active:
  assumes "wf_nodes p s"
  shows "set (is_Frontier (recomputeFrontier s)) = active_nodes s \<and> sorted_wrt (<) (is_Frontier (recomputeFrontier s))"
proof -
  let ?f = "filter (\<lambda>n. NodeState_Active (ns_State n)) (is_Nodes s)"
  have "sorted_wrt (<) (map ns_NodeID (is_Nodes s))"
    using assms by (simp add: wf_nodes_def sorted_slice_def)
  then have "sorted_wrt (<) (map ns_NodeID ?f)"
    by (induction "is_Nodes s" arbitrary: s rule: list.induct) (auto simp: sorted_wrt_map intro: sorted_wrt_filter)
  then have "sort (map ns_NodeID ?f) = map ns_NodeID ?f"
    by (simp add: sorted_sort_id strict_sorted_iff)
  then show ?thesis
    using \<open>sorted_wrt (<) (map ns_NodeID ?f)\<close> assms
    by (auto simp: recomputeFrontier_def active_nodes_def Node_iff)
qed

lemma strict_sorted_single: "sorted_wrt (<) xs \<Longrightarrow> set xs = {i} \<Longrightarrow> xs = [i :: 'a :: linorder]"
  by (cases xs; cases "tl xs") auto

lemma frontier_single: "wf_nodes p s \<Longrightarrow> active_nodes s = {i} \<Longrightarrow> is_Frontier (recomputeFrontier s) = [i]"
  using frontier_active [of p s] by (auto intro: strict_sorted_single)

lemma frontier_empty: "wf_nodes p s \<Longrightarrow> active_nodes s = {} \<Longrightarrow> is_Frontier (recomputeFrontier s) = []"
  using frontier_active [of p s] by simp

lemma validate_nodes_None:
  "validate_nodes p prev ns = None \<longleftrightarrow>
     (\<forall>n \<in> set ns. CompiledWorkflow_Node p (ns_NodeID n) \<noteq> None \<and> NodeState_Valid (ns_State n))
     \<and> sorted_wrt (<) (map ns_NodeID (case prev of None \<Rightarrow> ns | Some m \<Rightarrow> m # ns))"
  by (induction p prev ns rule: validate_nodes.induct)
    (auto simp: sorted_wrt1 sorted_wrt2 not_le simp del: sorted_wrt.simps(2) split: option.splits)

lemma validate_joins_None:
  "validate_joins p prev js = None \<longleftrightarrow>
     (\<forall>j \<in> set js. CompiledWorkflow_Node p (jc_NodeID j) \<noteq> None \<and> JoinStrategy_Valid (jc_Strategy j))
     \<and> sorted_wrt (<) (map jc_NodeID (case prev of None \<Rightarrow> js | Some m \<Rightarrow> m # js))"
  by (induction p prev js rule: validate_joins.induct)
    (auto simp: sorted_wrt1 sorted_wrt2 not_le simp del: sorted_wrt.simps(2) split: option.splits)

lemma validateState_wf: "validateState p s = None \<Longrightarrow> wf_nodes p s \<and> wf_joins p s"
  by (auto simp: validateState_def validate_nodes_None validate_joins_None wf_nodes_def wf_joins_def sorted_slice_def)

lemma wf_validateState:
  "wf_nodes p s \<Longrightarrow> wf_joins p s \<Longrightarrow> is_Frontier (recomputeFrontier s) = is_Frontier s \<Longrightarrow> validateState p s = None"
  by (auto simp: validateState_def validate_nodes_None validate_joins_None wf_nodes_def wf_joins_def sorted_slice_def)


subsection \<open>The steps of an advancement\<close>

definition adv_ok :: "advance \<Rightarrow> bool" where
  "adv_ok a \<longleftrightarrow> wf_nodes (av_plan a) (av_next a) \<and> wf_joins (av_plan a) (av_next a)
     \<and> CompiledWorkflow_Node (av_plan a) (cn_ID (av_node a)) = Some (av_node a)
     \<and> ns_NodeID (av_status a) = cn_ID (av_node a)"

definition same_work :: "advance \<Rightarrow> advance \<Rightarrow> bool" where
  "same_work a b \<longleftrightarrow> av_plan b = av_plan a \<and> av_node b = av_node a \<and> av_outcome b = av_outcome a
     \<and> ns_NodeID (av_status b) = ns_NodeID (av_status a)
     \<and> same_frame (av_next a) (av_next b)"

lemma same_work_refl [simp]: "same_work a a"
  by (simp add: same_work_def)

lemma same_work_trans: "same_work a b \<Longrightarrow> same_work b c \<Longrightarrow> same_work a c"
  unfolding same_work_def by (metis same_frame_trans)

lemma add_simps [simp]:
  "av_plan (add_intent i a) = av_plan a" "av_node (add_intent i a) = av_node a"
  "av_status (add_intent i a) = av_status a" "av_outcome (add_intent i a) = av_outcome a"
  "av_next (add_intent i a) = av_next a"
  "av_t (add_intent i a) = (av_t a)\<lparr>tn_Intents := tn_Intents (av_t a) @ [i]\<rparr>"
  "av_plan (add_successor u a) = av_plan a" "av_node (add_successor u a) = av_node a"
  "av_status (add_successor u a) = av_status a" "av_outcome (add_successor u a) = av_outcome a"
  "av_next (add_successor u a) = av_next a"
  "av_t (add_successor u a) = (av_t a)\<lparr>tn_Successors := tn_Successors (av_t a) @ [u]\<rparr>"
  "adv_ok (add_intent i a) = adv_ok a" "adv_ok (add_successor u a) = adv_ok a"
  "same_work b (add_intent i a) = same_work b a" "same_work b (add_successor u a) = same_work b a"
  by (simp_all add: add_intent_def add_successor_def adv_ok_def same_work_def)

lemma settle_simps [simp]:
  "av_plan (settle st a) = av_plan a" "av_node (settle st a) = av_node a" "av_status (settle st a) = st"
  "av_outcome (settle st a) = av_outcome a" "av_next (settle st a) = setNode (av_next a) st"
  "av_t (settle st a) = (av_t a)\<lparr>tn_CompletedState := ns_State st\<rparr>"
  by (simp_all add: settle_def)

lemma settle_ok:
  assumes "adv_ok a" "ns_NodeID st = cn_ID (av_node a)" "NodeState_Valid (ns_State st)"
  shows "adv_ok (settle st a) \<and> same_work a (settle st a)
    \<and> InstanceState_Node (av_next (settle st a)) = (InstanceState_Node (av_next a))(cn_ID (av_node a) \<mapsto> st)"
  using assms by (auto simp: adv_ok_def same_work_def wf_setNode Node_setNode)

lemma activationFor_active: "activationFor t = (st, k) \<Longrightarrow> st \<in> {NodeReady, NodeWaiting}"
  by (cases t) auto

lemma ready_states [simp]:
  "st \<in> {NodeReady, NodeWaiting} \<Longrightarrow> NodeState_Active st" "st \<in> {NodeReady, NodeWaiting} \<Longrightarrow> NodeState_Valid st"
  by auto

lemma fresh_status_simps [simp]: "ns_NodeID (fresh_status i st) = i" "ns_State (fresh_status i st) = st"
  by (simp_all add: fresh_status_def)

text \<open>What activation does: one more node, ready or waiting, one successor, and an intent unless a join pends.\<close>

definition activated_to :: "string \<Rightarrow> NodeState \<Rightarrow> advance \<Rightarrow> advance \<Rightarrow> bool" where
  "activated_to i st a b \<longleftrightarrow> CompiledWorkflow_Node (av_plan a) i \<noteq> None \<and> st \<in> {NodeReady, NodeWaiting}
     \<and> adv_ok b \<and> same_work a b
     \<and> InstanceState_Node (av_next b) = (InstanceState_Node (av_next a))(i \<mapsto> fresh_status i st)
     \<and> map su_NodeID (tn_Successors (av_t b)) = map su_NodeID (tn_Successors (av_t a)) @ [i]
     \<and> set (map in_NodeID (tn_Intents (av_t b))) \<subseteq> insert i (set (map in_NodeID (tn_Intents (av_t a))))
     \<and> tn_Skipped (av_t b) = tn_Skipped (av_t a) \<and> tn_RouteKey (av_t b) = tn_RouteKey (av_t a)
     \<and> tn_CompletedState (av_t b) = tn_CompletedState (av_t a) \<and> tn_CompletedNodeID (av_t b) = tn_CompletedNodeID (av_t a)
     \<and> tn_Complete (av_t b) = tn_Complete (av_t a)"

lemma activateJoin_effect:
  assumes "activateJoin target rk vd vf a = Inr b" and "adv_ok a"
    and "CompiledWorkflow_Node (av_plan a) (cn_ID target) \<noteq> None"
  shows "\<exists>st. activated_to (cn_ID target) st a b"
proof -
  obtain counter where c: "InstanceState_Join (av_next a) (cn_ID target) = Some counter"
    using assms(1) by (auto simp: activateJoin_def split: option.splits)
  let ?c = "settleJoin (counter\<lparr>jc_Arrived := insertSorted (jc_Arrived counter) (cn_ID (av_node a)),
    jc_Satisfied := insertSorted (jc_Satisfied counter) (cn_ID (av_node a))\<rparr>)"
  have n: "wf_nodes (av_plan a) (setNode (av_next a) (fresh_status (cn_ID target) st))"
    if "st \<in> {NodeReady, NodeWaiting}" for st
    using assms(2,3) that by (intro wf_setNode) (auto simp: adv_ok_def)
  have j: "wf_joins (av_plan a) (setJoin (setNode (av_next a) st) ?c)" for st
    by (rule wf_setJoin [of _ _ "cn_ID target" counter]) (use c assms(2) in \<open>auto simp: adv_ok_def\<close>)
  have w: "wf_nodes (av_plan a) (av_next a)"
    using assms(2) by (simp add: adv_ok_def)
  show ?thesis
    using assms c n [of NodeReady] n [of NodeWaiting] j
    by (intro exI [of _ "if jc_Activated ?c then NodeReady else NodeWaiting"])
      (auto simp: activateJoin_def Let_def activated_to_def adv_ok_def same_work_def Node_setNode [OF w] split: if_splits)
qed

lemma activate_effect:
  assumes "activate i rk vd vf a = Inr b" and "adv_ok a"
  shows "\<exists>st. activated_to i st a b"
proof -
  obtain target where t: "CompiledWorkflow_Node (av_plan a) i = Some target"
    using assms(1) by (auto simp: activate_def split: option.splits)
  then have i: "cn_ID target = i" by (auto dest: Node_ID)
  show ?thesis
  proof (cases "cn_Type target = StepJoin")
    case True
    then show ?thesis
      using assms t i activateJoin_effect [of target rk vd vf a b] by (simp add: activate_def)
  next
    case False
    obtain st k where a: "activationFor (cn_Type target) = (st, k)" by fastforce
    have st: "st \<in> {NodeReady, NodeWaiting}" using a by (rule activationFor_active)
    have w: "wf_nodes (av_plan a) (av_next a)"
      using assms(2) by (simp add: adv_ok_def)
    have "wf_nodes (av_plan a) (setNode (av_next a) (fresh_status i st))"
      using w st t by (intro wf_setNode) auto
    then show ?thesis
      using assms t i a st False
      by (intro exI [of _ st]) (auto simp: activate_def activated_to_def adv_ok_def same_work_def Node_setNode [OF w])
  qed
qed


lemma set_insertSorted [simp]: "set (insertSorted xs s) = insert s (set xs)"
  by (auto simp: insertSorted_def)

definition joins_only :: "advance \<Rightarrow> advance \<Rightarrow> bool" where
  "joins_only a b \<longleftrightarrow> adv_ok b \<and> same_work a b \<and> InstanceState_Node (av_next b) = InstanceState_Node (av_next a)
     \<and> av_t b = (av_t a)\<lparr>tn_Joins := tn_Joins (av_t b)\<rparr>"

lemma joins_update_fields:
  "t = u\<lparr>tn_Joins := j\<rparr> \<Longrightarrow> tn_Skipped t = tn_Skipped u \<and> tn_Successors t = tn_Successors u
     \<and> tn_Intents t = tn_Intents u \<and> tn_RouteKey t = tn_RouteKey u \<and> tn_CompletedState t = tn_CompletedState u
     \<and> tn_CompletedNodeID t = tn_CompletedNodeID u \<and> tn_Complete t = tn_Complete u"
  by simp

lemma joins_only_refl: "adv_ok a \<Longrightarrow> joins_only a a"
  by (simp add: joins_only_def)

lemma joins_only_trans: "joins_only a b \<Longrightarrow> joins_only b c \<Longrightarrow> joins_only a c"
  unfolding joins_only_def by (auto dest: same_work_trans) (metis Transition.surjective Transition.update_convs(13))

lemma skip_edge_effect: "adv_ok a \<Longrightarrow> joins_only a (skip_edge i a e)"
  by (auto simp: skip_edge_def joins_only_def adv_ok_def same_work_def Let_def intro!: wf_setJoin split: option.splits)

lemma recordSkippedBranch_effect: "adv_ok a \<Longrightarrow> joins_only a (recordSkippedBranch i a)"
proof -
  have "joins_only a (foldl (skip_edge i) a es)" if "adv_ok a" for es
    using that
  proof (induction es rule: rev_induct)
    case (snoc e es)
    then have "joins_only a (foldl (skip_edge i) a es)" by simp
    moreover from this have "joins_only (foldl (skip_edge i) a es) (skip_edge i (foldl (skip_edge i) a es) e)"
      by (intro skip_edge_effect) (simp add: joins_only_def)
    ultimately show ?case
      using joins_only_trans by simp
  qed (simp add: joins_only_refl)
  then show "adv_ok a \<Longrightarrow> joins_only a (recordSkippedBranch i a)"
    by (simp add: recordSkippedBranch_def)
qed

text \<open>What skipping does: the nodes of a list become SKIPPED, and no successor and no intent is added.\<close>

definition skipped_to :: "string set \<Rightarrow> advance \<Rightarrow> advance \<Rightarrow> bool" where
  "skipped_to ids a b \<longleftrightarrow> adv_ok b \<and> same_work a b
     \<and> InstanceState_Node (av_next b)
         = (\<lambda>j. if j \<in> ids then Some (fresh_status j NodeSkipped) else InstanceState_Node (av_next a) j)
     \<and> set (tn_Skipped (av_t b)) = set (tn_Skipped (av_t a)) \<union> ids
     \<and> tn_Successors (av_t b) = tn_Successors (av_t a) \<and> tn_Intents (av_t b) = tn_Intents (av_t a)
     \<and> tn_RouteKey (av_t b) = tn_RouteKey (av_t a) \<and> tn_CompletedState (av_t b) = tn_CompletedState (av_t a)
     \<and> tn_CompletedNodeID (av_t b) = tn_CompletedNodeID (av_t a) \<and> tn_Complete (av_t b) = tn_Complete (av_t a)"

lemma skip_one:
  assumes "adv_ok a" and "CompiledWorkflow_Node (av_plan a) i \<noteq> None"
  shows "skipped_to {i} a (recordSkippedBranch i
    (a\<lparr>av_next := setNode (av_next a) (fresh_status i NodeSkipped),
       av_t := (av_t a)\<lparr>tn_Skipped := insertSorted (tn_Skipped (av_t a)) i\<rparr>\<rparr>))"
    (is "skipped_to _ _ (recordSkippedBranch i ?a)")
proof -
  have w: "wf_nodes (av_plan a) (av_next a)"
    using assms(1) by (simp add: adv_ok_def)
  have "adv_ok ?a"
    using assms by (auto simp: adv_ok_def intro: wf_setNode)
  then have "joins_only ?a (recordSkippedBranch i ?a)"
    by (rule recordSkippedBranch_effect)
  then have "adv_ok (recordSkippedBranch i ?a)" "same_work ?a (recordSkippedBranch i ?a)"
    "InstanceState_Node (av_next (recordSkippedBranch i ?a)) = InstanceState_Node (av_next ?a)"
    and t: "av_t (recordSkippedBranch i ?a) = (av_t ?a)\<lparr>tn_Joins := tn_Joins (av_t (recordSkippedBranch i ?a))\<rparr>"
    by (auto simp: joins_only_def)
  then show ?thesis
    using joins_update_fields [OF t] w
    by (simp add: skipped_to_def Node_setNode same_work_def fun_eq_iff)
qed

lemma skipped_to_trans: "skipped_to I a b \<Longrightarrow> skipped_to J b c \<Longrightarrow> skipped_to (I \<union> J) a c"
  unfolding skipped_to_def by (auto intro: same_work_trans)

lemma skip_all_effect: "skip_all ids a = Inr b \<Longrightarrow> adv_ok a \<Longrightarrow> skipped_to (set ids) a b"
proof (induction ids a rule: skip_all.induct)
  case (2 i ids a)
  let ?a = "recordSkippedBranch i (a\<lparr>av_next := setNode (av_next a) (fresh_status i NodeSkipped),
       av_t := (av_t a)\<lparr>tn_Skipped := insertSorted (tn_Skipped (av_t a)) i\<rparr>\<rparr>)"
  obtain n where n: "CompiledWorkflow_Node (av_plan a) i = Some n" "skip_all ids ?a = Inr b"
    using "2.prems"(1) by (auto split: option.splits)
  have one: "skipped_to {i} a ?a"
    using "2.prems"(2) n(1) by (intro skip_one) auto
  then have "skipped_to (set ids) ?a b"
    using "2.IH" [OF n(1) n(2)] by (simp add: skipped_to_def)
  with one have "skipped_to ({i} \<union> set ids) a b"
    by (rule skipped_to_trans)
  then show ?case by simp
qed (auto simp: skipped_to_def)

definition excluded :: "CompiledWorkflow \<Rightarrow> string \<Rightarrow> string \<Rightarrow> string \<Rightarrow> Edge \<Rightarrow> bool" where
  "excluded p i rk target e \<longleftrightarrow> e \<in> set (cw_Edges p) \<and> ed_From e = i \<and> ed_RouteKey e \<noteq> rk \<and> ed_To e \<noteq> target"

lemma set_skip_candidates:
  "set (skip_candidates rk target live a) =
     {j. \<exists>e. excluded (av_plan a) (cn_ID (av_node a)) rk target e \<and> j = ed_To e \<and> j \<notin> set live
        \<and> InstanceState_Node (av_next a) j = None}"
proof -
  have "set (foldl (\<lambda>cs e.
         if ed_From e \<noteq> cn_ID (av_node a) \<or> ed_RouteKey e = rk \<or> ed_To e = target then cs
         else if ed_To e \<in> set live then cs
         else if InstanceState_Node (av_next a) (ed_To e) \<noteq> None then cs
         else insertSorted cs (ed_To e)) [] es) =
     {j. \<exists>e. e \<in> set es \<and> ed_From e = cn_ID (av_node a) \<and> ed_RouteKey e \<noteq> rk \<and> ed_To e \<noteq> target
        \<and> j = ed_To e \<and> j \<notin> set live \<and> InstanceState_Node (av_next a) j = None}" for es
    by (induction es rule: rev_induct) auto
  from this [of "cw_Edges (av_plan a)"] show ?thesis
    by (simp only: skip_candidates_def excluded_def conj_assoc)
qed

lemma skipExcluded_effect:
  assumes "skipExcluded rk target a = Inr b" and "adv_ok a"
  shows "skipped_to {j. \<exists>e. excluded (av_plan a) (cn_ID (av_node a)) rk target e \<and> j = ed_To e
      \<and> j \<notin> set (reachableFrom (av_plan a) (is_Frontier (recomputeFrontier (av_next a))))
      \<and> InstanceState_Node (av_next a) j = None} a b"
proof -
  let ?a = "a\<lparr>av_next := recomputeFrontier (av_next a)\<rparr>"
  have "adv_ok ?a"
    using assms(2) by (simp add: adv_ok_def)
  from skip_all_effect [OF _ this] assms(1)
  have "skipped_to (set (skip_candidates rk target
      (reachableFrom (av_plan a) (is_Frontier (recomputeFrontier (av_next a)))) ?a)) ?a b"
    by (simp add: skipExcluded_def Let_def)
  then show ?thesis
    by (simp add: set_skip_candidates skipped_to_def same_work_def cong: if_cong)
qed


subsection \<open>Reachability\<close>

definition plan_edges :: "Edge list \<Rightarrow> (string \<times> string) set" where
  "plan_edges es = (\<lambda>e. (ed_From e, ed_To e)) ` set es"

interpretation dfs: worklist "plan_edges es" "dfs es" "\<lambda>seen stack. card (ed_To ` set es - set seen) + length stack"
  for es
proof unfold_locales
  fix seen stack i
  obtain new where new: "push_targets es i seen stack = (new @ seen, new @ stack)" "distinct new"
    "set new = ed_To ` {e \<in> set es. ed_From e = i} - set seen"
    using push_adds by blast
  have R: "plan_edges es `` {i} = ed_To ` {e \<in> set es. ed_From e = i}"
    by (auto simp: plan_edges_def)
  have "set new \<subseteq> ed_To ` set es - set seen"
    using new(3) by auto
  then have "card (ed_To ` set es - set (new @ seen)) + length (new @ stack)
      < card (ed_To ` set es - set seen) + length (i # stack)"
    using fresh_targets_weight [of "ed_To ` set es" new seen] new(2) by simp
  then show "\<exists>seen' work'. dfs es seen (i # stack) = dfs es seen' work' \<and> set seen' = set seen \<union> plan_edges es `` {i}
      \<and> set work' = set stack \<union> (plan_edges es `` {i} - set seen)
      \<and> card (ed_To ` set es - set seen') + length work' < card (ed_To ` set es - set seen) + length (i # stack)"
    using new by (intro exI [of _ "new @ seen"] exI [of _ "new @ stack"]) (auto simp: R)
qed simp

lemma reachableFrom_set: "set (reachableFrom p from) = (plan_edges (cw_Edges p))\<^sup>* `` set from"
  unfolding reachableFrom_def by (rule dfs.search_reaches) simp


subsection \<open>Outcomes\<close>

definition active_of :: "(string \<rightharpoonup> NodeStatus) \<Rightarrow> string set" where
  "active_of m = {i. \<exists>st. m i = Some st \<and> NodeState_Active (ns_State st)}"

lemma active_nodes_of: "active_nodes s = active_of (InstanceState_Node s)"
  by (simp add: active_nodes_def active_of_def)

lemma active_of_update:
  "active_of (m(i \<mapsto> st)) = (if NodeState_Active (ns_State st) then insert i (active_of m) else active_of m - {i})"
  by (auto simp: active_of_def)

lemma active_of_skip:
  "(\<And>j. j \<in> ids \<Longrightarrow> m j = None) \<Longrightarrow> active_of (\<lambda>j. if j \<in> ids then Some (fresh_status j NodeSkipped) else m j) = active_of m"
  by (auto simp: active_of_def)

lemma newAdvance_Inr:
  assumes "newAdvance plan s c = Inr a"
  shows "\<exists>p. plan = Some p \<and> av_plan a = p \<and> is_PlanDigest s = cw_digest p \<and> \<not> is_Completed s
    \<and> validateState p s = None \<and> CompiledWorkflow_Node p (no_NodeID c) = Some (av_node a)
    \<and> InstanceState_Node s (no_NodeID c) = Some (av_status a) \<and> NodeState_Active (ns_State (av_status a))
    \<and> (no_Await c = AwaitNone \<or> \<not> no_Failed c) \<and> av_outcome a = c
    \<and> av_next a = s\<lparr>is_Sequence := is_Sequence s + 1\<rparr>"
  using assms by (auto simp: newAdvance_def split: option.splits if_splits)

lemma start_transition_simps [simp]:
  "av_plan (start_transition a) = av_plan a" "av_node (start_transition a) = av_node a"
  "av_status (start_transition a) = av_status a" "av_outcome (start_transition a) = av_outcome a"
  "av_next (start_transition a) = av_next a" "adv_ok (start_transition a) = adv_ok a"
  "tn_Successors (av_t (start_transition a)) = []" "tn_Intents (av_t (start_transition a)) = []"
  "tn_Skipped (av_t (start_transition a)) = []" "tn_Complete (av_t (start_transition a)) = False"
  "tn_CompletedNodeID (av_t (start_transition a)) = cn_ID (av_node a)"
  by (simp_all add: start_transition_def zero_Transition_def adv_ok_def)

lemma Sequence_update [simp]:
  "InstanceState_Node (s\<lparr>is_Sequence := k\<rparr>) = InstanceState_Node s" "wf_nodes p (s\<lparr>is_Sequence := k\<rparr>) = wf_nodes p s"
  "wf_joins p (s\<lparr>is_Sequence := k\<rparr>) = wf_joins p s" "active_nodes (s\<lparr>is_Sequence := k\<rparr>) = active_nodes s"
  by (simp_all add: InstanceState_Node_def fun_eq_iff wf_nodes_def wf_joins_def active_nodes_def)

lemma newAdvance_ok:
  assumes "newAdvance plan s c = Inr a"
  shows "adv_ok a \<and> cn_ID (av_node a) = no_NodeID c"
proof -
  obtain p where p: "av_plan a = p" "validateState p s = None" "CompiledWorkflow_Node p (no_NodeID c) = Some (av_node a)"
    "InstanceState_Node s (no_NodeID c) = Some (av_status a)" "av_next a = s\<lparr>is_Sequence := is_Sequence s + 1\<rparr>"
    using newAdvance_Inr [OF assms] by auto
  have w: "wf_nodes p s \<and> wf_joins p s"
    using p(2) by (rule validateState_wf)
  have "cn_ID (av_node a) = no_NodeID c"
    using p(3) by (auto dest: Node_ID)
  then show ?thesis
    using p w by (simp add: adv_ok_def Node_iff [of p s])
qed

lemma finish_simps [simp]:
  "tn_Next (finish h a) = recomputeFrontier (av_next a)" "tn_Frontier (finish h a) = is_Frontier (recomputeFrontier (av_next a))"
  "tn_Successors (finish h a) = sortSuccessors (tn_Successors (av_t a))"
  "tn_Intents (finish h a) = sortIntents (tn_Intents (av_t a))" "tn_Skipped (finish h a) = sort (tn_Skipped (av_t a))"
  "tn_RouteKey (finish h a) = tn_RouteKey (av_t a)" "tn_CompletedState (finish h a) = tn_CompletedState (av_t a)"
  "tn_CompletedNodeID (finish h a) = tn_CompletedNodeID (av_t a)" "tn_Complete (finish h a) = tn_Complete (av_t a)"
  by (simp_all add: finish_def Let_def)

lemma Advance_Inr:
  assumes "Advance h plan s c = Inr t"
  shows "\<exists>a b. newAdvance plan s c = Inr a \<and> run_outcome (start_transition a) = Inr b \<and> t = finish h b"
  using assms by (auto simp: Advance_def advance_run_def)

lemma await_effect:
  assumes "await_node a = Inr b" and "adv_ok a"
  shows "adv_ok b \<and> same_work a b \<and> InstanceState_Node (av_next b)
      = (InstanceState_Node (av_next a))(cn_ID (av_node a) \<mapsto> (av_status a)\<lparr>ns_State := NodeWaiting\<rparr>)
    \<and> tn_CompletedState (av_t b) = NodeWaiting"
  using assms settle_ok [of a "(av_status a)\<lparr>ns_State := NodeWaiting\<rparr>"]
  by (auto simp: await_node_def Let_def adv_ok_def split: if_splits)


definition budget :: "advance \<Rightarrow> 32 word" where
  "budget a = (case cn_Retry (av_node a) of Some n \<Rightarrow> n | None \<Rightarrow> 0)"

definition failed_with :: "NodeState \<Rightarrow> advance \<Rightarrow> NodeStatus" where
  "failed_with st a = (av_status a)\<lparr>ns_State := st, ns_Attempts := ns_Attempts (av_status a) + 1\<rparr>"

lemma failed_with_simps [simp]:
  "ns_NodeID (failed_with st a) = ns_NodeID (av_status a)" "ns_State (failed_with st a) = st"
  "ns_Attempts (failed_with st a) = ns_Attempts (av_status a) + 1"
  by (simp_all add: failed_with_def)

lemma fail_node_eq:
  "fail_node a =
     (if ns_Attempts (av_status a) + 1 < budget a \<and> \<not> no_RetryTerminal (av_outcome a)
      then Inr (add_intent \<lparr>in_Kind = IntentReady, in_NodeID = cn_ID (av_node a), in_Type = cn_Type (av_node a),
             in_RouteKey = [], in_Ref = no_ErrorClass (av_outcome a), in_TerminalCode = []\<rparr>
           (settle (failed_with NodeRetrying a) a))
      else if cn_FailureRoute (av_node a) = [] then Inl (refuse CodeNoFailureRoute (cn_ID (av_node a)))
      else activate (cn_FailureRoute (av_node a)) [] False True (settle (failed_with NodeFailed a) a))"
  by (simp add: fail_node_def Let_def budget_def failed_with_def)

lemma settle_failed:
  assumes "adv_ok a" "NodeState_Valid st"
  shows "adv_ok (settle (failed_with st a) a) \<and> same_work a (settle (failed_with st a) a)
    \<and> InstanceState_Node (av_next (settle (failed_with st a) a))
      = (InstanceState_Node (av_next a))(cn_ID (av_node a) \<mapsto> failed_with st a)"
  by (rule settle_ok) (use assms in \<open>auto simp: adv_ok_def\<close>)

lemma fail_effect:
  assumes "fail_node a = Inr b" and "adv_ok a"
  shows "(ns_Attempts (av_status a) + 1 < budget a \<and> \<not> no_RetryTerminal (av_outcome a)
      \<and> adv_ok b \<and> same_work a b \<and> tn_CompletedState (av_t b) = NodeRetrying
      \<and> InstanceState_Node (av_next b) = (InstanceState_Node (av_next a))(cn_ID (av_node a) \<mapsto> failed_with NodeRetrying a))
    \<or> ((budget a \<le> ns_Attempts (av_status a) + 1 \<or> no_RetryTerminal (av_outcome a)) \<and> cn_FailureRoute (av_node a) \<noteq> []
      \<and> (\<exists>st. activated_to (cn_FailureRoute (av_node a)) st (settle (failed_with NodeFailed a) a) b))"
proof (cases "ns_Attempts (av_status a) + 1 < budget a \<and> \<not> no_RetryTerminal (av_outcome a)")
  case True
  then have b: "b = add_intent \<lparr>in_Kind = IntentReady, in_NodeID = cn_ID (av_node a), in_Type = cn_Type (av_node a),
      in_RouteKey = [], in_Ref = no_ErrorClass (av_outcome a), in_TerminalCode = []\<rparr> (settle (failed_with NodeRetrying a) a)"
    using assms(1) by (simp add: fail_node_eq)
  show ?thesis
    using True settle_failed [OF assms(2), of NodeRetrying] by (simp add: b)
next
  case False
  then have "cn_FailureRoute (av_node a) \<noteq> []"
    "activate (cn_FailureRoute (av_node a)) [] False True (settle (failed_with NodeFailed a) a) = Inr b"
    using assms(1) by (auto simp: fail_node_eq split: if_splits)
  moreover from this have "\<exists>st. activated_to (cn_FailureRoute (av_node a)) st (settle (failed_with NodeFailed a) a) b"
    using settle_failed [OF assms(2), of NodeFailed] by (intro activate_effect) auto
  ultimately show ?thesis
    using False by auto
qed

lemma end_effect:
  assumes "end_node a = Inr b" and "adv_ok a"
  shows "\<exists>terminal. cn_Terminal (av_node a) = Some terminal \<and> checkAssertedTerminal a (terminalRecordOf terminal) = None
    \<and> adv_ok b \<and> is_Completed (av_next b) \<and> is_Terminal (av_next b) = terminalRecordOf terminal
    \<and> is_PlanDigest (av_next b) = is_PlanDigest (av_next a) \<and> av_plan b = av_plan a
    \<and> active_nodes (av_next b) = {} \<and> tn_Complete (av_t b) \<and> tn_CompletedState (av_t b) = NodeSucceeded"
proof -
  let ?st = "(av_status a)\<lparr>ns_State := NodeSucceeded, ns_OutputDigest := no_OutputDigest (av_outcome a)\<rparr>"
  have s: "adv_ok (settle ?st a)" "same_work a (settle ?st a)"
    using settle_ok [of a ?st] assms(2) by (auto simp: adv_ok_def)
  then have w: "wf_nodes (av_plan a) (setNode (av_next a) ?st)" "wf_joins (av_plan a) (setNode (av_next a) ?st)"
    by (simp_all add: adv_ok_def)
  have f: "is_Frontier (recomputeFrontier (setNode (av_next a) ?st)) = [] \<Longrightarrow> active_nodes (setNode (av_next a) ?st) = {}"
    using frontier_active [OF w(1)] by simp
  have c: "InstanceState_Node (r\<lparr>is_Completed := x, is_Terminal := y\<rparr>) = InstanceState_Node r"
    "wf_nodes q (r\<lparr>is_Completed := x, is_Terminal := y\<rparr>) = wf_nodes q r"
    "wf_joins q (r\<lparr>is_Completed := x, is_Terminal := y\<rparr>) = wf_joins q r" for r x y q
    by (simp_all add: InstanceState_Node_def fun_eq_iff wf_nodes_def wf_joins_def)
  have d: "is_PlanDigest (recomputeFrontier (setNode (av_next a) ?st)) = is_PlanDigest (av_next a)"
    using s(2) by (simp add: recomputeFrontier_def setNode_def)
  show ?thesis
    using assms s w f d
    by (auto simp: end_node_def Let_def adv_ok_def c active_nodes_of split: option.splits if_splits)
qed


definition succeeded_with :: "string \<Rightarrow> advance \<Rightarrow> NodeStatus" where
  "succeeded_with key a = (av_status a)\<lparr>ns_State := NodeSucceeded, ns_RouteKey := key,
     ns_OutputDigest := no_OutputDigest (av_outcome a)\<rparr>"

lemma succeeded_with_simps [simp]:
  "ns_NodeID (succeeded_with key a) = ns_NodeID (av_status a)" "ns_State (succeeded_with key a) = NodeSucceeded"
  by (simp_all add: succeeded_with_def)

text \<open>
  What a taken route does to the nodes: the completed node has succeeded, the target is ready or waiting, and the
  untouched targets of other routes that no active node can reach any more are skipped.
\<close>

definition routed_map :: "string \<Rightarrow> string \<Rightarrow> NodeState \<Rightarrow> advance \<Rightarrow> string \<rightharpoonup> NodeStatus" where
  "routed_map key target st a =
     (InstanceState_Node (av_next a))(cn_ID (av_node a) \<mapsto> succeeded_with key a, target \<mapsto> fresh_status target st)"

definition dead_ends :: "CompiledWorkflow \<Rightarrow> string \<Rightarrow> string \<Rightarrow> string \<Rightarrow> (string \<rightharpoonup> NodeStatus) \<Rightarrow> string set" where
  "dead_ends p i key target m =
     {j. (\<exists>e. excluded p i key target e \<and> j = ed_To e) \<and> j \<notin> (plan_edges (cw_Edges p))\<^sup>* `` active_of m \<and> m j = None}"

definition routed_to :: "string \<Rightarrow> string \<Rightarrow> NodeState \<Rightarrow> advance \<Rightarrow> advance \<Rightarrow> bool" where
  "routed_to key target st a b \<longleftrightarrow>
     (let m = routed_map key target st a; ids = dead_ends (av_plan a) (cn_ID (av_node a)) key target m in
      edge a key = Some target \<and> st \<in> {NodeReady, NodeWaiting} \<and> adv_ok b \<and> same_work a b
      \<and> InstanceState_Node (av_next b) = (\<lambda>j. if j \<in> ids then Some (fresh_status j NodeSkipped) else m j)
      \<and> map su_NodeID (tn_Successors (av_t b)) = map su_NodeID (tn_Successors (av_t a)) @ [target]
      \<and> set (map in_NodeID (tn_Intents (av_t b))) \<subseteq> insert target (set (map in_NodeID (tn_Intents (av_t a))))
      \<and> set (tn_Skipped (av_t b)) = set (tn_Skipped (av_t a)) \<union> ids \<and> tn_RouteKey (av_t b) = key
      \<and> tn_CompletedState (av_t b) = NodeSucceeded \<and> tn_CompletedNodeID (av_t b) = tn_CompletedNodeID (av_t a)
      \<and> tn_Complete (av_t b) = tn_Complete (av_t a))"

lemma take_route_effect:
  assumes "take_route key vd a = Inr b" and "adv_ok a"
  shows "\<exists>target st. routed_to key target st a b"
proof -
  let ?s = "settle (succeeded_with key a) a"
  let ?r = "?s\<lparr>av_t := (av_t ?s)\<lparr>tn_RouteKey := key\<rparr>\<rparr>"
  obtain target c where t: "edge a key = Some target" "activate target key vd False ?r = Inr c"
    "skipExcluded key target c = Inr b"
    using assms(1) by (auto simp: take_route_def Let_def succeeded_with_def split: option.splits)
  have s: "adv_ok ?r \<and> same_work a ?r
      \<and> InstanceState_Node (av_next ?r) = (InstanceState_Node (av_next a))(cn_ID (av_node a) \<mapsto> succeeded_with key a)"
    using settle_ok [of a "succeeded_with key a"] assms(2) by (auto simp: adv_ok_def same_work_def)
  then obtain st where act: "activated_to target st ?r c"
    using activate_effect [OF t(2)] by blast
  then have c: "adv_ok c" "av_plan c = av_plan a" "av_node c = av_node a"
    "InstanceState_Node (av_next c) = routed_map key target st a"
    using s by (auto simp: activated_to_def same_work_def routed_map_def)
  have "set (reachableFrom (av_plan c) (is_Frontier (recomputeFrontier (av_next c))))
      = (plan_edges (cw_Edges (av_plan a)))\<^sup>* `` active_of (routed_map key target st a)"
    using frontier_active [of "av_plan c" "av_next c"] c by (simp add: reachableFrom_set adv_ok_def active_nodes_of)
  then have "{j. \<exists>e. excluded (av_plan c) (cn_ID (av_node c)) key target e \<and> j = ed_To e
      \<and> j \<notin> set (reachableFrom (av_plan c) (is_Frontier (recomputeFrontier (av_next c))))
      \<and> InstanceState_Node (av_next c) j = None}
    = dead_ends (av_plan a) (cn_ID (av_node a)) key target (routed_map key target st a)"
    by (auto simp: c dead_ends_def)
  then have "skipped_to (dead_ends (av_plan a) (cn_ID (av_node a)) key target (routed_map key target st a)) c b"
    using skipExcluded_effect [OF t(3) c(1)] by simp
  then have "routed_to key target st a b"
    using act s t(1) c(4) unfolding routed_to_def Let_def skipped_to_def activated_to_def
    by (auto intro: same_work_trans)
  then show ?thesis by blast
qed

lemma route_effect:
  assumes "route a = Inr b" and "adv_ok a"
  shows "\<exists>key target st. routed_to key target st a b
    \<and> (key = no_Outcome (av_outcome a) \<and> declares a key
       \<or> \<not> declares a (no_Outcome (av_outcome a)) \<and> cn_Type (av_node a) = StepDecision
         \<and> map_option cd_DefaultRoute (cn_Decision (av_node a)) = Some key \<and> key \<noteq> [])"
  using assms take_route_effect [OF _ assms(2)]
  by (auto simp: route_def Let_def split: if_splits option.splits) blast

lemma dead_ends_untouched: "j \<in> dead_ends p i key target m \<Longrightarrow> m j = None"
  by (simp add: dead_ends_def)

lemma routed_active:
  assumes "routed_to key target st a b" and "active_nodes (av_next a) \<subseteq> {cn_ID (av_node a)}"
  shows "active_nodes (av_next b) = {target}"
proof -
  let ?m = "routed_map key target st a"
  have "active_of (\<lambda>j. if j \<in> dead_ends (av_plan a) (cn_ID (av_node a)) key target ?m
      then Some (fresh_status j NodeSkipped) else ?m j) = active_of ?m"
    by (rule active_of_skip) (rule dead_ends_untouched)
  moreover have "active_of ?m = {target}"
    using assms by (auto simp: routed_map_def active_of_update active_nodes_of routed_to_def Let_def)
  ultimately show ?thesis
    using assms(1) by (simp add: routed_to_def Let_def active_nodes_of)
qed

lemma activated_active:
  assumes "activated_to i st a b" and "active_nodes (av_next a) = {}"
  shows "active_nodes (av_next b) = {i}"
  using assms by (auto simp: activated_to_def active_nodes_of active_of_update)


subsection \<open>The invariant of an instance\<close>

definition wf_instance :: "CompiledWorkflow \<Rightarrow> InstanceState \<Rightarrow> bool" where
  "wf_instance p s \<longleftrightarrow> is_PlanDigest s = cw_digest p \<and> wf_nodes p s \<and> wf_joins p s
     \<and> is_Frontier (recomputeFrontier s) = is_Frontier s
     \<and> (if is_Completed s then active_nodes s = {} else \<exists>i. active_nodes s = {i})"

definition advance_step :: "(bytes \<Rightarrow> bytes) \<Rightarrow> CompiledWorkflow \<Rightarrow> InstanceState \<Rightarrow> NodeOutcome
    \<Rightarrow> frontier_error + InstanceState" where
  "advance_step h p s c = bind_res (Advance h (Some p) s c) (\<lambda>t. Inr (tn_Next t))"

lemma run_outcome_keeps:
  assumes "run_outcome a = Inr b" and "adv_ok a" and "\<not> is_Completed (av_next a)"
    and "active_nodes (av_next a) = {cn_ID (av_node a)}"
  shows "adv_ok b \<and> av_plan b = av_plan a \<and> is_PlanDigest (av_next b) = is_PlanDigest (av_next a)
    \<and> (if is_Completed (av_next b) then active_nodes (av_next b) = {} else \<exists>i. active_nodes (av_next b) = {i})"
proof -
  consider "await_node a = Inr b" | "fail_node a = Inr b" | "end_node a = Inr b" | "route a = Inr b"
    using assms(1) by (auto simp: run_outcome_def split: if_splits)
  then show ?thesis
  proof cases
    case 1
    then show ?thesis
      using await_effect [OF 1 assms(2)] assms(3,4)
      by (auto simp: same_work_def same_frame_def active_nodes_of active_of_update)
  next
    case 2
    have idle: "active_nodes (av_next (settle (failed_with NodeFailed a) a)) = {}"
      using settle_failed [OF assms(2), of NodeFailed] assms(4) by (simp add: active_nodes_of active_of_update)
    have same: "same_work a (settle (failed_with NodeFailed a) a)"
      using settle_failed [OF assms(2), of NodeFailed] by simp
    show ?thesis
      using fail_effect [OF 2 assms(2)]
    proof
      assume "ns_Attempts (av_status a) + 1 < budget a \<and> \<not> no_RetryTerminal (av_outcome a)
        \<and> adv_ok b \<and> same_work a b \<and> tn_CompletedState (av_t b) = NodeRetrying
        \<and> InstanceState_Node (av_next b) = (InstanceState_Node (av_next a))(cn_ID (av_node a) \<mapsto> failed_with NodeRetrying a)"
      then show ?thesis
        using assms(3,4) by (auto simp: same_work_def same_frame_def active_nodes_of active_of_update)
    next
      assume "(budget a \<le> ns_Attempts (av_status a) + 1 \<or> no_RetryTerminal (av_outcome a)) \<and> cn_FailureRoute (av_node a) \<noteq> []
        \<and> (\<exists>st. activated_to (cn_FailureRoute (av_node a)) st (settle (failed_with NodeFailed a) a) b)"
      then obtain st where act: "activated_to (cn_FailureRoute (av_node a)) st (settle (failed_with NodeFailed a) a) b"
        by blast
      then have "adv_ok b" "same_work a b"
        using same by (auto simp: activated_to_def intro: same_work_trans)
      then show ?thesis
        using activated_active [OF act idle] assms(3) by (simp add: same_work_def same_frame_def)
    qed
  next
    case 3
    then show ?thesis
      using end_effect [OF 3 assms(2)] by auto
  next
    case 4
    then obtain key target st where r: "routed_to key target st a b"
      using route_effect [OF 4 assms(2)] by blast
    then show ?thesis
      using routed_active [OF r] assms(3,4) by (auto simp: routed_to_def Let_def same_work_def same_frame_def)
  qed
qed

lemma wf_instance_active: "wf_instance p s \<Longrightarrow> \<not> is_Completed s \<Longrightarrow> i \<in> active_nodes s \<Longrightarrow> active_nodes s = {i}"
  by (metis wf_instance_def singletonD)

lemma Advance_keeps:
  assumes "wf_instance p s" and "Advance h (Some p) s c = Inr t"
  shows "wf_instance p (tn_Next t)"
proof -
  obtain a b where ab: "newAdvance (Some p) s c = Inr a" "run_outcome (start_transition a) = Inr b" "t = finish h b"
    using Advance_Inr [OF assms(2)] by blast
  have a: "av_plan a = p" "\<not> is_Completed s" "InstanceState_Node s (no_NodeID c) = Some (av_status a)"
    "NodeState_Active (ns_State (av_status a))" "av_next a = s\<lparr>is_Sequence := is_Sequence s + 1\<rparr>"
    using newAdvance_Inr [OF ab(1)] by auto
  have ok: "adv_ok a" "cn_ID (av_node a) = no_NodeID c"
    using newAdvance_ok [OF ab(1)] by auto
  have "no_NodeID c \<in> active_nodes s"
    using a by (simp add: active_nodes_def)
  then have "active_nodes s = {no_NodeID c}"
    using assms(1) a(2) by (rule wf_instance_active [rotated 2])
  then have "adv_ok b \<and> av_plan b = p \<and> is_PlanDigest (av_next b) = is_PlanDigest s
    \<and> (if is_Completed (av_next b) then active_nodes (av_next b) = {} else \<exists>i. active_nodes (av_next b) = {i})"
    using run_outcome_keeps [OF ab(2)] ok a by simp
  then show ?thesis
    using assms(1) by (clarsimp simp: ab(3) wf_instance_def adv_ok_def)
qed

interpretation advance_commands: command_system "advance_step h p" "wf_instance p" for h p
  by unfold_locales (auto simp: advance_step_def intro: Advance_keeps)


lemma newJoinCounter_keeps:
  "newJoinCounter d branches = Inr c \<Longrightarrow> jc_NodeID c = jd_NodeID d \<and> jc_Strategy c = jd_Strategy d"
  by (auto simp: newJoinCounter_def Let_def split: JoinStrategy.splits if_splits)

lemma declare_joins_valid:
  "declare_joins p declared ds = Inr out \<Longrightarrow> \<forall>d \<in> set declared. JoinStrategy_Valid (jd_Strategy d)
   \<Longrightarrow> \<forall>d \<in> set out. JoinStrategy_Valid (jd_Strategy d)"
  by (induction p declared ds rule: declare_joins.induct) (auto simp: Let_def split: option.splits if_splits)

lemma seed_counters_keys:
  assumes "seed_counters p declared ns = Inr cs" and "\<forall>d \<in> set declared. JoinStrategy_Valid (jd_Strategy d)"
  shows "map jc_NodeID cs = map cn_ID (filter (\<lambda>n. cn_Type n = StepJoin) ns)
    \<and> (\<forall>c \<in> set cs. JoinStrategy_Valid (jc_Strategy c))"
  using assms
proof (induction p declared ns arbitrary: cs rule: seed_counters.induct)
  case (2 p declared n ns)
  show ?case
  proof (cases "cn_Type n = StepJoin")
    case True
    define d where "d = (case find (\<lambda>d. jd_NodeID d = cn_ID n) declared of
        Some d \<Rightarrow> d | None \<Rightarrow> \<lparr>jd_NodeID = cn_ID n, jd_Strategy = JoinAll, jd_RequiredCount = 0, jd_RequiredBranches = []\<rparr>)"
    have d: "jd_NodeID d = cn_ID n \<and> JoinStrategy_Valid (jd_Strategy d)"
      using "2.prems"(2) by (auto simp: d_def find_Some_iff split: option.splits)
    obtain c cs' where c: "newJoinCounter d (incomingBranches p (cn_ID n)) = Inr c"
      "seed_counters p declared ns = Inr cs'" "cs = c # cs'"
      using "2.prems"(1) True by (auto simp: Let_def d_def [symmetric])
    have "map jc_NodeID cs' = map cn_ID (filter (\<lambda>n. cn_Type n = StepJoin) ns)
        \<and> (\<forall>c \<in> set cs'. JoinStrategy_Valid (jc_Strategy c))"
      using True by (intro "2.IH"(2) [OF _ d_def c(2) "2.prems"(2)]) simp
    then show ?thesis
      using True d newJoinCounter_keeps [OF c(1)] by (simp add: c(3))
  qed (use 2 in simp)
qed simp

lemma Seed_wf:
  assumes "Seed (Some p) i decls = Inr s" and "distinct (map cn_ID (cw_Nodes p))"
  shows "wf_instance p s"
proof -
  obtain start joins declared out where st: "CompiledWorkflow_Node p (cw_StartNodeID p) = Some start"
    "declare_joins p [] decls = Inr declared" "seed_counters p declared (cw_Nodes p) = Inr out"
    "joins = sort_key jc_NodeID out"
    and s: "s = recomputeFrontier
      \<lparr>is_InstanceID = i, is_WorkflowID = cw_WorkflowID p, is_Version = cw_Version p, is_PlanDigest = cw_digest p,
       is_Sequence = 0, is_Frontier = [], is_Nodes = [\<lparr>ns_NodeID = cn_ID start, ns_State = NodeReady, ns_Attempts = 0,
         ns_RouteKey = [], ns_OutputDigest = []\<rparr>],
       is_Joins = joins, is_Completed = False, is_Terminal = zero_TerminalRecord\<rparr>" (is "_ = recomputeFrontier ?s")
    using assms(1) by (auto simp: Seed_def seedJoins_def split: option.splits)
  have out: "map jc_NodeID out = map cn_ID (filter (\<lambda>n. cn_Type n = StepJoin) (cw_Nodes p))"
    "\<forall>c \<in> set out. JoinStrategy_Valid (jc_Strategy c)"
    using seed_counters_keys [OF st(3)] declare_joins_valid [OF st(2)] by auto
  have "distinct (map jc_NodeID out)"
    unfolding out(1) using assms(2) by (simp add: distinct_map_filter)
  then have "sorted_slice jc_NodeID joins"
    unfolding st(4) sorted_slice_def strict_sorted_iff by (simp add: distinct_map)
  moreover have "CompiledWorkflow_Node p (jc_NodeID c) \<noteq> None" if "c \<in> set out" for c
  proof -
    have "jc_NodeID c \<in> cn_ID ` set (cw_Nodes p)"
      using that out(1) by (metis (no_types, lifting) filter_is_subset image_eqI image_mono list.set_map subset_iff)
    then show ?thesis
      by (auto simp: CompiledWorkflow_Node_def find_None_iff)
  qed
  ultimately have "wf_joins p ?s"
    using out(2) by (auto simp: wf_joins_def st(4))
  moreover have n: "wf_nodes p ?s"
    using st(1) Node_ID [OF st(1)] by (simp add: wf_nodes_def sorted_slice_def)
  moreover have "active_nodes ?s = {cn_ID start}"
    using Node_iff [OF n] by (auto simp: active_nodes_def)
  ultimately show ?thesis
    by (simp add: s wf_instance_def)
qed


inductive reachable_instance :: "(bytes \<Rightarrow> bytes) \<Rightarrow> CompiledWorkflow \<Rightarrow> InstanceState \<Rightarrow> bool" for h p where
  seeded: "Seed (Some p) i decls = Inr s \<Longrightarrow> reachable_instance h p s"
| advanced: "reachable_instance h p s \<Longrightarrow> Advance h (Some p) s c = Inr t \<Longrightarrow> reachable_instance h p (tn_Next t)"

lemma reachable_wf: "reachable_instance h p s \<Longrightarrow> distinct (map cn_ID (cw_Nodes p)) \<Longrightarrow> wf_instance p s"
  by (induction rule: reachable_instance.induct) (auto intro: Seed_wf Advance_keeps)

lemma wf_instance_frontier:
  assumes "wf_instance p s"
  shows "validateState p s = None \<and> set (is_Frontier s) = active_nodes s \<and> length (is_Frontier s) = (if is_Completed s then 0 else 1)"
proof -
  have w: "wf_nodes p s" "wf_joins p s" and f: "is_Frontier (recomputeFrontier s) = is_Frontier s"
    using assms by (auto simp: wf_instance_def)
  have "length (is_Frontier s) = (if is_Completed s then 0 else 1)"
  proof (cases "is_Completed s")
    case True
    then have "active_nodes s = {}"
      using assms by (simp add: wf_instance_def)
    then show ?thesis
      using frontier_empty [OF w(1)] f True by simp
  next
    case False
    then obtain i where "active_nodes s = {i}"
      using assms unfolding wf_instance_def by auto
    then show ?thesis
      using frontier_single [OF w(1)] f False by simp
  qed
  then show ?thesis
    using wf_validateState [OF w f] frontier_active [OF w(1)] f by simp
qed

lemma Advance_refused:
  assumes w: "wf_instance p s" and "InstanceState_Node s (no_NodeID d) = Some st" and "\<not> NodeState_Active (ns_State st)"
  shows "Advance h (Some p) s d
    = Inl (if is_Completed s then refuse CodeAlreadyComplete (te_NodeID (is_Terminal s)) else refuse CodeNodeNotActive (no_NodeID d))"
proof -
  have v: "validateState p s = None" "is_PlanDigest s = cw_digest p" "wf_nodes p s"
    using w wf_instance_frontier [OF w] by (auto simp: wf_instance_def)
  have "st \<in> set (is_Nodes s)" "ns_NodeID st = no_NodeID d"
    using assms(2) Node_iff [OF v(3)] by auto
  then obtain n where "CompiledWorkflow_Node p (no_NodeID d) = Some n"
    using v(3) by (auto simp: wf_nodes_def)
  then show ?thesis
    using v assms(2,3) by (simp add: Advance_def newAdvance_def)
qed

text \<open>An advancement that does not lead to a settled node leaves its status alone.\<close>

lemma end_node_map:
  assumes "end_node a = Inr b" and "adv_ok a"
  shows "\<exists>st. ns_State st = NodeSucceeded
    \<and> InstanceState_Node (av_next b) = (InstanceState_Node (av_next a))(cn_ID (av_node a) \<mapsto> st)
    \<and> tn_Successors (av_t b) = tn_Successors (av_t a)"
proof -
  let ?st = "(av_status a)\<lparr>ns_State := NodeSucceeded, ns_OutputDigest := no_OutputDigest (av_outcome a)\<rparr>"
  have m: "InstanceState_Node (setNode (av_next a) ?st) = (InstanceState_Node (av_next a))(cn_ID (av_node a) \<mapsto> ?st)"
    using settle_ok [of a ?st] assms(2) by (auto simp: adv_ok_def)
  have c: "InstanceState_Node (r\<lparr>is_Completed := x, is_Terminal := y\<rparr>) = InstanceState_Node r" for r x y
    by (simp add: InstanceState_Node_def fun_eq_iff)
  show ?thesis
    using assms m by (intro exI [of _ ?st]) (auto simp: end_node_def Let_def c split: option.splits if_splits)
qed

lemma Advance_keeps_settled:
  assumes "Advance h (Some p) s c = Inr t" and "InstanceState_Node s i = Some st" and "\<not> NodeState_Active (ns_State st)"
    and "i \<notin> set (map su_NodeID (tn_Successors t))"
  shows "InstanceState_Node (tn_Next t) i = Some st"
proof -
  obtain a b where ab: "newAdvance (Some p) s c = Inr a" "run_outcome (start_transition a) = Inr b" "t = finish h b"
    using Advance_Inr [OF assms(1)] by blast
  let ?a = "start_transition a"
  have ok: "adv_ok ?a" and i: "i \<noteq> cn_ID (av_node ?a)"
    and here: "InstanceState_Node (av_next ?a) i = Some st"
    using newAdvance_ok [OF ab(1)] newAdvance_Inr [OF ab(1)] assms(2,3) by auto
  have succ: "i \<notin> su_NodeID ` set (tn_Successors (av_t b))"
    using assms(4) by (simp add: ab(3) sortSuccessors_def)
  consider "await_node ?a = Inr b" | "fail_node ?a = Inr b" | "end_node ?a = Inr b" | "route ?a = Inr b"
    using ab(2) by (auto simp: run_outcome_def split: if_splits)
  then have "InstanceState_Node (av_next b) i = Some st"
  proof cases
    case 1
    then show ?thesis
      using await_effect [OF 1 ok] i here by simp
  next
    case 2
    have "InstanceState_Node (av_next b) i = Some st"
      if "activated_to (cn_FailureRoute (av_node ?a)) x (settle (failed_with NodeFailed ?a) ?a) b" for x
    proof -
      have "map su_NodeID (tn_Successors (av_t b)) = [cn_FailureRoute (av_node ?a)]"
        using that by (simp add: activated_to_def)
      then have "i \<noteq> cn_FailureRoute (av_node ?a)"
        using succ by (auto simp: map_eq_Cons_conv)
      then show ?thesis
        using that settle_failed [OF ok, of NodeFailed] i here by (simp add: activated_to_def)
    qed
    then show ?thesis
      using fail_effect [OF 2 ok] i here by auto
  next
    case 3
    then show ?thesis
      using end_node_map [OF 3 ok] i here by auto
  next
    case 4
    then obtain key target x where r: "routed_to key target x ?a b"
      using route_effect [OF 4 ok] by blast
    then have "map su_NodeID (tn_Successors (av_t b)) = [target]"
      by (simp add: routed_to_def Let_def)
    then have "i \<noteq> target"
      using succ by (auto simp: map_eq_Cons_conv)
    then have m: "routed_map key target x ?a i = Some st"
      using i here by (simp add: routed_map_def)
    then have "i \<notin> dead_ends (av_plan ?a) (cn_ID (av_node ?a)) key target (routed_map key target x ?a)"
      using dead_ends_untouched by fastforce
    with m show ?thesis
      using r by (simp add: routed_to_def Let_def)
  qed
  then show ?thesis by (simp add: ab(3))
qed

text \<open>Advancements none of which leads to the node \<open>i\<close>.\<close>

inductive quiet_run :: "(bytes \<Rightarrow> bytes) \<Rightarrow> CompiledWorkflow \<Rightarrow> string \<Rightarrow> InstanceState \<Rightarrow> InstanceState \<Rightarrow> bool"
  for h p i where
  quiet: "quiet_run h p i s s"
| quiet_step: "quiet_run h p i s s' \<Longrightarrow> Advance h (Some p) s' c = Inr t
    \<Longrightarrow> i \<notin> set (map su_NodeID (tn_Successors t)) \<Longrightarrow> quiet_run h p i s (tn_Next t)"

lemma quiet_run_keeps:
  "quiet_run h p i s s' \<Longrightarrow> wf_instance p s \<Longrightarrow> InstanceState_Node s i = Some st \<Longrightarrow> \<not> NodeState_Active (ns_State st)
   \<Longrightarrow> wf_instance p s' \<and> InstanceState_Node s' i = Some st"
  by (induction rule: quiet_run.induct) (auto intro: Advance_keeps Advance_keeps_settled)

end
