(* ===== verification/Workflow_Properties.thy ===== *)
theory Workflow_Properties
  imports Workflow_Frontier
begin

text \<open>
  The statements about \<open>internal/workflow/frontier\<close>, with the sample plans on which they are evaluated.
\<close>

subsection \<open>Sample plans\<close>

text \<open>The outcomes that the conformance of a node's type or the routes of its decision declare.\<close>

definition declared_outcomes :: "CompiledNode \<Rightarrow> string set" where
  "declared_outcomes n =
     {key. \<exists>conf. ConformanceFor (cn_Type n) = Some conf \<and> key \<in> set (cf_Outcomes conf)}
     \<union> {key. \<exists>d. cn_Decision n = Some d \<and> key \<in> set (cd_Routes d)}"

lemma declares_iff: "declares a key \<longleftrightarrow> key \<in> declared_outcomes (av_node a)"
  by (auto simp: declares_def declared_outcomes_def split: option.splits)

definition done_terminal :: Terminal where
  "done_terminal =
     \<lparr>tm_NodeID = ''end'', tm_TerminalCode = ''DONE'', tm_RuntimeStatus = ''COMPLETED'',
      tm_Dimensions = \<lparr>dm_Request = RequestApproved, dm_Execution = ExecutionCommitted,
        dm_Business = BusinessCompleted, dm_Consistency = ConsistencyConsistent, dm_Obligation = ObligationSatisfied\<rparr>,
      tm_OutstandingObligationRefs = [], tm_RepairRefs = [], tm_IncidentRefs = []\<rparr>"

definition plain_node :: "string \<Rightarrow> StepType \<Rightarrow> CompiledNode" where
  "plain_node i t =
     \<lparr>cn_ID = i, cn_Type = t, cn_Decision = None, cn_Terminal = (if t = StepEnd then Some done_terminal else None),
      cn_Retry = None, cn_FailureRoute = []\<rparr>"

definition to :: "string \<Rightarrow> string \<Rightarrow> string \<Rightarrow> Edge" where
  "to a b key = \<lparr>ed_From = a, ed_To = b, ed_RouteKey = key\<rparr>"

definition plan_of :: "string \<Rightarrow> CompiledNode list \<Rightarrow> Edge list \<Rightarrow> CompiledWorkflow" where
  "plan_of start ns es =
     \<lparr>cw_WorkflowID = ''wf'', cw_Version = 1, cw_StartNodeID = start, cw_Nodes = ns, cw_Edges = es, cw_digest = ''d''\<rparr>"

text \<open>A PARALLEL node whose SUCCEEDED route opens two branches that a JOIN of strategy ALL closes.\<close>

definition fork_plan :: CompiledWorkflow where
  "fork_plan = plan_of ''fork''
     [plain_node ''fork'' StepParallel, plain_node ''left'' StepCapability, plain_node ''right'' StepCapability,
      plain_node ''meet'' StepJoin, plain_node ''end'' StepEnd]
     [to ''fork'' ''left'' ''SUCCEEDED'', to ''fork'' ''right'' ''SUCCEEDED'', to ''left'' ''meet'' ''SUCCEEDED'',
      to ''right'' ''meet'' ''SUCCEEDED'', to ''meet'' ''end'' ''SUCCEEDED'']"

text \<open>One step that retries once and whose failure route is the JOIN that also takes its success.\<close>

definition retry_plan :: CompiledWorkflow where
  "retry_plan = plan_of ''work''
     [(plain_node ''work'' StepTransform)\<lparr>cn_Retry := Some 2, cn_FailureRoute := ''meet''\<rparr>,
      plain_node ''meet'' StepJoin, plain_node ''end'' StepEnd]
     [to ''work'' ''meet'' ''SUCCEEDED'', to ''meet'' ''end'' ''SUCCEEDED'']"

text \<open>A decision between two steps, the first of which falls back to the second when it fails.\<close>

definition fallback_plan :: CompiledWorkflow where
  "fallback_plan = plan_of ''pick''
     [(plain_node ''pick'' StepDecision)\<lparr>cn_Decision := Some \<lparr>cd_Routes = [''FAST'', ''SAFE''], cd_DefaultRoute = []\<rparr>\<rparr>,
      (plain_node ''fast'' StepTransform)\<lparr>cn_Retry := Some 2, cn_FailureRoute := ''safe''\<rparr>, plain_node ''safe'' StepTransform,
      plain_node ''end'' StepEnd]
     [to ''pick'' ''fast'' ''FAST'', to ''pick'' ''safe'' ''SAFE'', to ''fast'' ''end'' ''SUCCEEDED'',
      to ''safe'' ''end'' ''SUCCEEDED'']"

definition result :: "string \<Rightarrow> string \<Rightarrow> NodeOutcome" where
  "result i key =
     \<lparr>no_NodeID = i, no_Outcome = key, no_OutputDigest = [], no_Await = AwaitNone, no_AwaitRef = [],
      no_Failed = False, no_ErrorClass = [], no_RetryTerminal = False,
      no_Terminal = \<lparr>tr_TerminalCode = [], tr_RuntimeStatus = [], tr_Dimensions = tm_Dimensions done_terminal,
        tr_Asserted = False\<rparr>\<rparr>"

definition failure :: "string \<Rightarrow> NodeOutcome" where
  "failure i = (result i [])\<lparr>no_Failed := True\<rparr>"

text \<open>For evaluation: the next snapshot without the digest, which does not enter it.\<close>

definition next_state :: "CompiledWorkflow \<Rightarrow> InstanceState \<Rightarrow> NodeOutcome \<Rightarrow> frontier_error + InstanceState" where
  "next_state p s c = bind_res (newAdvance (Some p) s c) (\<lambda>a.
     bind_res (run_outcome (start_transition a)) (\<lambda>b. Inr (recomputeFrontier (av_next b))))"

lemma advance_step_next: "advance_step h p = next_state p"
  by (auto simp: advance_step_def next_state_def Advance_def advance_run_def bind_res_def fun_eq_iff split: sum.splits)

lemma next_state_reachable: "reachable_instance h p s \<Longrightarrow> next_state p s c = Inr s' \<Longrightarrow> reachable_instance h p s'"
  unfolding advance_step_next [of h p, symmetric] by (auto simp: advance_step_def intro: advanced)

definition ends_with :: "CompiledWorkflow \<Rightarrow> NodeOutcome list \<Rightarrow> (InstanceState \<Rightarrow> bool) \<Rightarrow> bool" where
  "ends_with p cs P =
     (case bind_res (Seed (Some p) ''i'' []) (\<lambda>s. run_cmds (next_state p) s cs) of Inl _ \<Rightarrow> False | Inr s \<Rightarrow> P s)"

lemma ends_with_run:
  assumes "ends_with p cs P"
  shows "\<exists>s s'. Seed (Some p) ''i'' [] = Inr s \<and> run_cmds (advance_step h p) s cs = Inr s' \<and> P s'"
  using assms by (auto simp: ends_with_def advance_step_next split: sum.splits)

subsection \<open>The frontier\<close>

text \<open>
  C7: the snapshots of a workflow instance. For a plan whose node ids are distinct, every snapshot that seeding and
  advancements reach passes the validation of the next advancement; its frontier lists exactly the active nodes, in
  strictly ascending order; and it is empty just when the instance is complete, so that an instance is never stranded
  without work before its END and never has work after it. When the plan has no PARALLEL node, the instance is a
  single thread: there is exactly one active node until completion.
\<close>

theorem reachable_snapshots_are_valid:
  assumes "distinct (map cn_ID (cw_Nodes p))" and "reachable_instance h p s"
  shows "validateState p s = None \<and> set (is_Frontier s) = active_nodes s \<and> sorted_wrt (<) (is_Frontier s)
    \<and> (is_Frontier s = [] \<longleftrightarrow> is_Completed s)
    \<and> ((\<forall>n \<in> set (cw_Nodes p). cn_Type n \<noteq> StepParallel) \<and> \<not> is_Completed s \<longrightarrow> length (is_Frontier s) = 1)"
proof -
  note f = wf_instance_frontier [OF reachable_wf [OF assms(2,1)]]
  then have "length (is_Frontier s) \<le> 1"
    by simp
  then have "sorted_wrt (<) (is_Frontier s)"
    by (cases "is_Frontier s") auto
  then show ?thesis
    using f by (auto split: if_splits)
qed

theorem reachable_snapshots_are_valid_witness:
  "\<exists>s. Seed (Some fallback_plan) ''i'' [] = Inr s \<and> validateState fallback_plan s = None \<and> length (is_Frontier s) = 1"
proof -
  have "ends_with fallback_plan [] (\<lambda>s. \<not> is_Completed s)" by code_simp
  then obtain s where s: "Seed (Some fallback_plan) ''i'' [] = Inr s" "\<not> is_Completed s"
    using ends_with_run by fastforce
  moreover have "distinct (map cn_ID (cw_Nodes fallback_plan))" "\<forall>n \<in> set (cw_Nodes fallback_plan). cn_Type n \<noteq> StepParallel"
    by code_simp+
  ultimately show ?thesis
    using reachable_snapshots_are_valid [of fallback_plan "\<lambda>b. b" s] by (auto intro: seeded)
qed

text \<open>
  C25: a PARALLEL node opens one branch only. Its conformance declares SUCCEEDED as the route that opens a branch
  per target, and the sample plan routes it to two; but the advancement activates the first target alone, the JOIN of
  strategy ALL can be completed while it still waits for the other, and the instance completes with the second
  branch never touched and the join not activated.
\<close>

theorem parallel_opens_one_branch:
  "\<exists>s s'. Seed (Some fork_plan) ''i'' [] = Inr s
     \<and> run_cmds (advance_step h fork_plan) s [result ''fork'' ''SUCCEEDED'', result ''left'' ''SUCCEEDED'',
         result ''meet'' ''SUCCEEDED'', result ''end'' []] = Inr s'
     \<and> is_Completed s' \<and> te_RuntimeStatus (is_Terminal s') = ''COMPLETED'' \<and> InstanceState_Node s' ''right'' = None
     \<and> map jc_Strategy (is_Joins s') = [JoinAll] \<and> map jc_Branches (is_Joins s') = [[''left'', ''right'']]
     \<and> map jc_Arrived (is_Joins s') = [[''left'']] \<and> map jc_Activated (is_Joins s') = [False]"
  by (rule ends_with_run) code_simp

text \<open>
  C26: a failed branch counts as a successful one. The step of the sample plan exhausts its retry budget and its
  failure route leads to the JOIN, which records it as satisfied and is activated, although the strategy ALL is
  documented to activate when every declared branch has succeeded.
\<close>

theorem failed_branch_satisfies_join:
  "\<exists>s s'. Seed (Some retry_plan) ''i'' [] = Inr s
     \<and> run_cmds (advance_step h retry_plan) s [failure ''work'', failure ''work''] = Inr s'
     \<and> map_option ns_State (InstanceState_Node s' ''work'') = Some NodeFailed
     \<and> map_option ns_State (InstanceState_Node s' ''meet'') = Some NodeReady
     \<and> map jc_Satisfied (is_Joins s') = [[''work'']] \<and> map jc_Activated (is_Joins s') = [True]"
  by (rule ends_with_run) code_simp

text \<open>
  C27: a skipped node is activated again. The reachability that decides which branches are skipped follows the edges
  of the plan and not its failure routes: in the sample plan the fallback step is marked SKIPPED when the other
  route is taken and becomes READY when that route fails, although a skipped node is documented never to activate
  work.
\<close>

theorem skipped_node_activated_by_failure:
  "\<exists>s s1 s2. Seed (Some fallback_plan) ''i'' [] = Inr s
     \<and> advance_step h fallback_plan s (result ''pick'' ''FAST'') = Inr s1
     \<and> map_option ns_State (InstanceState_Node s1 ''safe'') = Some NodeSkipped
     \<and> run_cmds (advance_step h fallback_plan) s1 [failure ''fast'', failure ''fast''] = Inr s2
     \<and> map_option ns_State (InstanceState_Node s2 ''safe'') = Some NodeReady"
proof -
  have "ends_with fallback_plan [result ''pick'' ''FAST''] (\<lambda>s1.
      map_option ns_State (InstanceState_Node s1 ''safe'') = Some NodeSkipped
      \<and> (case run_cmds (next_state fallback_plan) s1 [failure ''fast'', failure ''fast''] of
           Inl _ \<Rightarrow> False
         | Inr s2 \<Rightarrow> map_option ns_State (InstanceState_Node s2 ''safe'') = Some NodeReady))"
    by code_simp
  from ends_with_run [OF this, of h] show ?thesis
    by (fastforce simp: advance_step_next split: sum.splits)
qed


subsection \<open>Routing\<close>

lemma Advance_route:
  assumes "Advance h (Some p) s c = Inr t" and "CompiledWorkflow_Node p (no_NodeID c) = Some n"
    and "no_Await c = AwaitNone" and "\<not> no_Failed c" and "cn_Type n \<noteq> StepEnd"
  shows "\<exists>a b target st. t = finish h b \<and> routed_to (tn_RouteKey t) target st (start_transition a) b
    \<and> av_plan a = p \<and> av_node a = n \<and> cn_ID n = no_NodeID c \<and> av_outcome a = c
    \<and> InstanceState_Node (av_next a) = InstanceState_Node s \<and> InstanceState_Node s (no_NodeID c) = Some (av_status a)
    \<and> (tn_RouteKey t = no_Outcome c \<and> declares (start_transition a) (tn_RouteKey t)
       \<or> \<not> declares (start_transition a) (no_Outcome c) \<and> cn_Type n = StepDecision
         \<and> map_option cd_DefaultRoute (cn_Decision n) = Some (tn_RouteKey t))"
proof -
  obtain a b where ab: "newAdvance (Some p) s c = Inr a" "run_outcome (start_transition a) = Inr b" "t = finish h b"
    using Advance_Inr [OF assms(1)] by blast
  have a: "av_plan a = p" "av_node a = n" "av_outcome a = c" "InstanceState_Node s (no_NodeID c) = Some (av_status a)"
    "av_next a = s\<lparr>is_Sequence := is_Sequence s + 1\<rparr>"
    using newAdvance_Inr [OF ab(1)] assms(2) by auto
  have ok: "adv_ok a" "cn_ID n = no_NodeID c"
    using newAdvance_ok [OF ab(1)] a(2) by auto
  have "route (start_transition a) = Inr b"
    using ab(2) assms(3-5) a by (simp add: run_outcome_def)
  from route_effect [OF this] ok(1) obtain key target st where r: "routed_to key target st (start_transition a) b"
    "key = no_Outcome c \<and> declares (start_transition a) key
      \<or> \<not> declares (start_transition a) (no_Outcome c) \<and> cn_Type n = StepDecision
        \<and> map_option cd_DefaultRoute (cn_Decision n) = Some key \<and> key \<noteq> []"
    using a by auto
  moreover have "tn_RouteKey t = key"
    using r(1) by (simp add: ab(3) routed_to_def Let_def)
  ultimately show ?thesis
    using ab(3) a ok by (intro exI [of _ a] exI [of _ b] exI [of _ target] exI [of _ st]) auto
qed

text \<open>
  C8: an outcome follows its declared edge. When an advancement accepts a completed node that is neither an END nor a
  PARALLEL node (whose fan-out is the subject of another statement), the route it takes is the outcome, if the
  conformance of the step type or the routes of the decision declare it; otherwise the node is a DECISION and the
  route is its declared default. The one successor is the target of the first edge with that key; and the states of all nodes are settled:
  the target is ready or waiting with a fresh status, the completed node has succeeded on that route, the skipped
  nodes are SKIPPED, and every other node keeps its state.
\<close>

theorem advance_follows_declared_edge:
  assumes "Advance h (Some p) s c = Inr t" and "CompiledWorkflow_Node p (no_NodeID c) = Some n"
    and "no_Await c = AwaitNone" and "\<not> no_Failed c" and "cn_Type n \<noteq> StepEnd"
    and "cn_Type n \<noteq> StepParallel"
  shows "\<exists>e st. find (\<lambda>e. ed_From e = no_NodeID c \<and> ed_RouteKey e = tn_RouteKey t) (cw_Edges p) = Some e
    \<and> (if no_Outcome c \<in> declared_outcomes n then tn_RouteKey t = no_Outcome c
       else cn_Type n = StepDecision \<and> map_option cd_DefaultRoute (cn_Decision n) = Some (tn_RouteKey t))
    \<and> map su_NodeID (tn_Successors t) = [ed_To e] \<and> st \<in> {NodeReady, NodeWaiting}
    \<and> InstanceState_Node (tn_Next t) =
        (\<lambda>j. if j = ed_To e then Some (fresh_status j st)
             else if j = no_NodeID c then map_option (\<lambda>old. old\<lparr>ns_State := NodeSucceeded, ns_RouteKey := tn_RouteKey t,
               ns_OutputDigest := no_OutputDigest c\<rparr>) (InstanceState_Node s j)
             else if j \<in> set (tn_Skipped t) then Some (fresh_status j NodeSkipped)
             else InstanceState_Node s j)"
proof -
  obtain a b target st where r: "t = finish h b" "routed_to (tn_RouteKey t) target st (start_transition a) b"
    and a: "av_plan a = p" "av_node a = n" "cn_ID n = no_NodeID c" "av_outcome a = c"
      "InstanceState_Node (av_next a) = InstanceState_Node s" "InstanceState_Node s (no_NodeID c) = Some (av_status a)"
    and key: "tn_RouteKey t = no_Outcome c \<and> tn_RouteKey t \<in> declared_outcomes n
      \<or> no_Outcome c \<notin> declared_outcomes n \<and> cn_Type n = StepDecision
        \<and> map_option cd_DefaultRoute (cn_Decision n) = Some (tn_RouteKey t)"
    using Advance_route [OF assms(1-5)] by (auto simp: declares_iff)
  define m where "m = routed_map (tn_RouteKey t) target st (start_transition a)"
  define ids where "ids = dead_ends p (no_NodeID c) (tn_RouteKey t) target m"
  have m: "m j = (if j = target then Some (fresh_status j st)
      else if j = no_NodeID c then Some ((av_status a)\<lparr>ns_State := NodeSucceeded, ns_RouteKey := tn_RouteKey t,
        ns_OutputDigest := no_OutputDigest c\<rparr>) else InstanceState_Node s j)" for j
    using a by (simp add: m_def routed_map_def succeeded_with_def)
  have fresh: "target \<notin> ids" "no_NodeID c \<notin> ids"
    using dead_ends_untouched [of _ p "no_NodeID c" "tn_RouteKey t" target m] m unfolding ids_def
    by (metis option.distinct(1))+
  obtain e where e: "find (\<lambda>e. ed_From e = no_NodeID c \<and> ed_RouteKey e = tn_RouteKey t) (cw_Edges p) = Some e"
    "ed_To e = target"
    using r(2) a by (auto simp: routed_to_def Let_def edge_def)
  have skipped: "set (tn_Skipped t) = ids"
    using r a by (simp add: routed_to_def Let_def ids_def m_def)
  have node: "InstanceState_Node (tn_Next t) = (\<lambda>j. if j \<in> ids then Some (fresh_status j NodeSkipped) else m j)"
    and st: "st \<in> {NodeReady, NodeWaiting}"
    using r a by (simp_all add: routed_to_def Let_def ids_def m_def cong: if_cong)
  have "su_NodeID (x :: Successor) = target \<Longrightarrow> map su_NodeID (sortSuccessors [x]) = [target]" for x
    by (simp add: sortSuccessors_def)
  moreover obtain x where "tn_Successors (av_t b) = [x]" "su_NodeID x = target"
    using r(2) by (auto simp: routed_to_def Let_def map_eq_Cons_conv)
  ultimately have "map su_NodeID (tn_Successors t) = [ed_To e]"
    by (metis r(1) finish_simps(3) e(2))
  moreover have "InstanceState_Node (tn_Next t) =
      (\<lambda>j. if j = ed_To e then Some (fresh_status j st)
           else if j = no_NodeID c then map_option (\<lambda>old. old\<lparr>ns_State := NodeSucceeded, ns_RouteKey := tn_RouteKey t,
             ns_OutputDigest := no_OutputDigest c\<rparr>) (InstanceState_Node s j)
           else if j \<in> set (tn_Skipped t) then Some (fresh_status j NodeSkipped)
           else InstanceState_Node s j)"
    unfolding node skipped m using fresh a(6) e(2) by (auto simp: fun_eq_iff)
  moreover have "if no_Outcome c \<in> declared_outcomes n then tn_RouteKey t = no_Outcome c
      else cn_Type n = StepDecision \<and> map_option cd_DefaultRoute (cn_Decision n) = Some (tn_RouteKey t)"
    using key by auto
  ultimately show ?thesis
    using e(1) st by (intro exI [of _ e] exI [of _ st] conjI)
qed


theorem advance_follows_declared_edge_witness:
  "\<exists>s t. Seed (Some fallback_plan) ''i'' [] = Inr s
     \<and> Advance (\<lambda>b. b) (Some fallback_plan) s (result ''pick'' ''FAST'') = Inr t
     \<and> (\<exists>e. find (\<lambda>e. ed_From e = ''pick'' \<and> ed_RouteKey e = tn_RouteKey t) (cw_Edges fallback_plan) = Some e
         \<and> tn_RouteKey t = ''FAST'' \<and> map su_NodeID (tn_Successors t) = [ed_To e])"
proof -
  have "ends_with fallback_plan [result ''pick'' ''FAST''] (\<lambda>_. True)" by code_simp
  then obtain s t where t: "Seed (Some fallback_plan) ''i'' [] = Inr s"
    "Advance (\<lambda>b. b) (Some fallback_plan) s (result ''pick'' ''FAST'') = Inr t"
    using ends_with_run [of fallback_plan _ _ "\<lambda>b. b"] by (fastforce simp: advance_step_def)
  obtain n where n: "CompiledWorkflow_Node fallback_plan ''pick'' = Some n" "cn_Type n \<noteq> StepEnd" "cn_Type n \<noteq> StepParallel"
    "''FAST'' \<in> declared_outcomes n"
    by (simp add: CompiledWorkflow_Node_def fallback_plan_def plan_of_def plain_node_def declared_outcomes_def)
  show ?thesis
    using advance_follows_declared_edge [OF t(2), of n] n t by (auto simp: result_def)
qed

text \<open>
  C11: what is skipped cannot happen, and nothing else is skipped. When an advancement accepts a completed node that
  is not an END, the nodes it skips are exactly the targets of the other routes of that node that had no state before
  and that no path over the edges of the plan reaches from a node that is active afterwards; and no intent names
  a skipped node.
\<close>

theorem skipped_nodes_are_dead_ends:
  assumes "Advance h (Some p) s c = Inr t" and "CompiledWorkflow_Node p (no_NodeID c) = Some n"
    and "no_Await c = AwaitNone" and "\<not> no_Failed c" and "cn_Type n \<noteq> StepEnd"
  shows "set (tn_Skipped t) =
      {j. (\<exists>e \<in> set (cw_Edges p). ed_From e = no_NodeID c \<and> ed_To e = j \<and> ed_RouteKey e \<noteq> tn_RouteKey t)
        \<and> InstanceState_Node s j = None
        \<and> \<not> (\<exists>i \<in> active_nodes (tn_Next t). (i, j) \<in> ((\<lambda>e. (ed_From e, ed_To e)) ` set (cw_Edges p))\<^sup>*)}
    \<and> set (tn_Skipped t) \<inter> in_NodeID ` set (tn_Intents t) = {}"
proof -
  obtain a b target st where r: "t = finish h b" "routed_to (tn_RouteKey t) target st (start_transition a) b"
    and a: "av_plan a = p" "av_node a = n" "cn_ID n = no_NodeID c"
      "InstanceState_Node (av_next a) = InstanceState_Node s" "InstanceState_Node s (no_NodeID c) = Some (av_status a)"
    using Advance_route [OF assms] by blast
  let ?m = "routed_map (tn_RouteKey t) target st (start_transition a)"
  let ?d = "dead_ends p (no_NodeID c) (tn_RouteKey t) target ?m"
  have b: "set (tn_Skipped t) = ?d" "in_NodeID ` set (tn_Intents t) \<subseteq> {target}"
    "InstanceState_Node (av_next b) = (\<lambda>j. if j \<in> ?d then Some (fresh_status j NodeSkipped) else ?m j)"
    "st \<in> {NodeReady, NodeWaiting}"
    using r a by (auto simp: routed_to_def Let_def same_work_def sortIntents_def cong: if_cong)
  have m: "?m j = None \<longleftrightarrow> j \<noteq> target \<and> InstanceState_Node s j = None" for j
    using a by (auto simp: routed_map_def)
  have act: "active_nodes (tn_Next t) = active_of ?m"
    unfolding r(1) finish_simps recomputeFrontier_simps active_nodes_of b(3)
    by (rule active_of_skip) (rule dead_ends_untouched)
  have "target \<in> active_of ?m"
    using b(4) by (auto simp: active_of_def routed_map_def)
  then have "?d = {j. (\<exists>e \<in> set (cw_Edges p). ed_From e = no_NodeID c \<and> ed_To e = j \<and> ed_RouteKey e \<noteq> tn_RouteKey t)
        \<and> InstanceState_Node s j = None
        \<and> \<not> (\<exists>i \<in> active_of ?m. (i, j) \<in> (plan_edges (cw_Edges p))\<^sup>*)}"
    unfolding dead_ends_def excluded_def m by blast
  moreover have "target \<notin> ?d"
    using m [of target] by (simp add: dead_ends_def)
  ultimately show ?thesis
    using b(1,2) unfolding act plan_edges_def by auto
qed

theorem skipped_nodes_are_dead_ends_witness:
  "\<exists>s t. Seed (Some fallback_plan) ''i'' [] = Inr s
     \<and> Advance (\<lambda>b. b) (Some fallback_plan) s (result ''pick'' ''FAST'') = Inr t \<and> ''safe'' \<in> set (tn_Skipped t)
     \<and> InstanceState_Node s ''safe'' = None
     \<and> (\<forall>i \<in> active_nodes (tn_Next t). (i, ''safe'') \<notin> ((\<lambda>e. (ed_From e, ed_To e)) ` set (cw_Edges fallback_plan))\<^sup>*)"
proof -
  have "case bind_res (Seed (Some fallback_plan) ''i'' []) (\<lambda>s.
      bind_res (newAdvance (Some fallback_plan) s (result ''pick'' ''FAST'')) (\<lambda>a. run_outcome (start_transition a))) of
      Inl _ \<Rightarrow> False | Inr b \<Rightarrow> ''safe'' \<in> set (tn_Skipped (av_t b))"
    by code_simp
  then obtain s t where t: "Seed (Some fallback_plan) ''i'' [] = Inr s" "''safe'' \<in> set (tn_Skipped t)"
    "Advance (\<lambda>b. b) (Some fallback_plan) s (result ''pick'' ''FAST'') = Inr t"
    by (fastforce simp: Advance_def advance_run_def split: sum.splits)
  obtain n where n: "CompiledWorkflow_Node fallback_plan ''pick'' = Some n" "cn_Type n \<noteq> StepEnd"
    by (simp add: CompiledWorkflow_Node_def fallback_plan_def plan_of_def plain_node_def)
  show ?thesis
    using skipped_nodes_are_dead_ends [OF t(3), of n, THEN conjunct1] n t by (auto simp: result_def)
qed


subsection \<open>Refusals and retries\<close>

lemma routed_settles:
  assumes "routed_to key target st a b" and "target \<noteq> cn_ID (av_node a)"
  shows "map_option ns_State (InstanceState_Node (av_next b) (cn_ID (av_node a))) = Some NodeSucceeded"
proof -
  let ?m = "routed_map key target st a"
  have "?m (cn_ID (av_node a)) = Some (succeeded_with key a)"
    using assms(2) by (simp add: routed_map_def)
  moreover from this have "cn_ID (av_node a) \<notin> dead_ends (av_plan a) (cn_ID (av_node a)) key target ?m"
    using dead_ends_untouched by fastforce
  ultimately show ?thesis
    using assms(1) by (simp add: routed_to_def Let_def)
qed

lemma Advance_settles:
  assumes "Advance h (Some p) s c = Inr t" and "tn_CompletedState t \<in> {NodeSucceeded, NodeFailed}"
    and "no_NodeID c \<notin> set (map su_NodeID (tn_Successors t))"
  shows "\<exists>st. InstanceState_Node (tn_Next t) (no_NodeID c) = Some st \<and> ns_State st = tn_CompletedState t"
proof -
  obtain a b where ab: "newAdvance (Some p) s c = Inr a" "run_outcome (start_transition a) = Inr b" "t = finish h b"
    using Advance_Inr [OF assms(1)] by blast
  have ok: "adv_ok (start_transition a)" "cn_ID (av_node a) = no_NodeID c"
    using newAdvance_ok [OF ab(1)] by auto
  have succ: "no_NodeID c \<notin> su_NodeID ` set (tn_Successors (av_t b))"
    using assms(3) by (simp add: ab(3) sortSuccessors_def)
  consider "await_node (start_transition a) = Inr b" | "fail_node (start_transition a) = Inr b"
    | "end_node (start_transition a) = Inr b" | "route (start_transition a) = Inr b"
    using ab(2) by (auto simp: run_outcome_def split: if_splits)
  then show ?thesis
  proof cases
    case 1
    then show ?thesis
      using await_effect [OF 1 ok(1)] assms(2) by (simp add: ab(3))
  next
    case 2
    then obtain st where act: "activated_to (cn_FailureRoute (av_node a)) st
        (settle (failed_with NodeFailed (start_transition a)) (start_transition a)) b"
      using fail_effect [OF 2 ok(1)] assms(2) by (auto simp: ab(3))
    then have "map su_NodeID (tn_Successors (av_t b)) = [cn_FailureRoute (av_node a)]"
      by (simp add: activated_to_def)
    then have "cn_FailureRoute (av_node a) \<noteq> no_NodeID c"
      using succ by (auto simp: map_eq_Cons_conv)
    then show ?thesis
      using act settle_failed [OF ok(1), of NodeFailed] ok(2) by (auto simp: activated_to_def ab(3))
  next
    case 3
    then show ?thesis
      using settle_ok [OF ok(1)] ok
      by (auto simp: end_node_def Let_def ab(3) adv_ok_def InstanceState_Node_def setNode_def wf_nodes_def slice_get_set
          recomputeFrontier_def split: option.splits if_splits)
  next
    case 4
    then obtain key target st where r: "routed_to key target st (start_transition a) b"
      using route_effect [OF 4 ok(1)] by blast
    then have "map su_NodeID (tn_Successors (av_t b)) = [target]" "tn_CompletedState (av_t b) = NodeSucceeded"
      by (simp_all add: routed_to_def Let_def)
    then have "target \<noteq> no_NodeID c"
      using succ by (auto simp: map_eq_Cons_conv)
    then show ?thesis
      using routed_settles [OF r] ok(2) \<open>tn_CompletedState (av_t b) = NodeSucceeded\<close> by (auto simp: ab(3))
  qed
qed

text \<open>
  C9: a settled node does not advance again until it is re-entered. In a reachable instance, once an advancement has
  settled a node as succeeded or failed without leading back to it, then after any number of further advancements
  none of which leads to that node the node still has that state, and every outcome for it is refused: as
  ALREADY_COMPLETE when the instance has ended, and as NODE_NOT_ACTIVE otherwise. A delivery that arrives again has no
  second effect.
\<close>

theorem settled_node_refuses_outcomes:
  assumes "distinct (map cn_ID (cw_Nodes p))" and "reachable_instance h p s" and "Advance h (Some p) s c = Inr t"
    and "tn_CompletedState t \<in> {NodeSucceeded, NodeFailed}" and "no_NodeID c \<notin> set (map su_NodeID (tn_Successors t))"
    and "quiet_run h p (no_NodeID c) (tn_Next t) s'" and "no_NodeID d = no_NodeID c"
  shows "map_option ns_State (InstanceState_Node s' (no_NodeID c)) = Some (tn_CompletedState t)
    \<and> Advance h (Some p) s' d = Inl (if is_Completed s' then refuse CodeAlreadyComplete (te_NodeID (is_Terminal s'))
        else refuse CodeNodeNotActive (no_NodeID d))"
proof -
  obtain st where st: "InstanceState_Node (tn_Next t) (no_NodeID c) = Some st" "ns_State st = tn_CompletedState t"
    using Advance_settles [OF assms(3-5)] by auto
  have off: "\<not> NodeState_Active (ns_State st)"
    using st(2) assms(4) by auto
  have "wf_instance p (tn_Next t)"
    using reachable_wf [OF assms(2,1)] assms(3) by (rule Advance_keeps)
  then have s': "wf_instance p s'" "InstanceState_Node s' (no_NodeID c) = Some st"
    using quiet_run_keeps [OF assms(6) _ st(1) off] by simp_all
  then show ?thesis
    using Advance_refused [OF s'(1) _ off, of d h] st(2) assms(7) by simp
qed

theorem settled_node_refuses_outcomes_witness:
  "\<exists>s t t'. Seed (Some fork_plan) ''i'' [] = Inr s
     \<and> Advance (\<lambda>b. b) (Some fork_plan) s (result ''fork'' ''SUCCEEDED'') = Inr t
     \<and> Advance (\<lambda>b. b) (Some fork_plan) (tn_Next t) (result ''left'' ''SUCCEEDED'') = Inr t'
     \<and> Advance (\<lambda>b. b) (Some fork_plan) (tn_Next t') (result ''fork'' ''SUCCEEDED'')
       = Inl (if is_Completed (tn_Next t') then refuse CodeAlreadyComplete (te_NodeID (is_Terminal (tn_Next t')))
              else refuse CodeNodeNotActive ''fork'')"
proof -
  have "case bind_res (Seed (Some fork_plan) ''i'' []) (\<lambda>s.
      bind_res (newAdvance (Some fork_plan) s (result ''fork'' ''SUCCEEDED'')) (\<lambda>a. run_outcome (start_transition a))) of
      Inl _ \<Rightarrow> False
    | Inr b \<Rightarrow> tn_CompletedState (av_t b) = NodeSucceeded \<and> map su_NodeID (tn_Successors (av_t b)) = [''left'']
      \<and> (case bind_res (newAdvance (Some fork_plan) (recomputeFrontier (av_next b)) (result ''left'' ''SUCCEEDED''))
             (\<lambda>a. run_outcome (start_transition a)) of
           Inl _ \<Rightarrow> False
         | Inr b' \<Rightarrow> map su_NodeID (tn_Successors (av_t b')) = [''meet''])"
    by code_simp
  then obtain b b' where run: "bind_res (Seed (Some fork_plan) ''i'' []) (\<lambda>s.
      bind_res (newAdvance (Some fork_plan) s (result ''fork'' ''SUCCEEDED'')) (\<lambda>a. run_outcome (start_transition a))) = Inr b"
    "bind_res (newAdvance (Some fork_plan) (recomputeFrontier (av_next b)) (result ''left'' ''SUCCEEDED''))
       (\<lambda>a. run_outcome (start_transition a)) = Inr b'"
    and b: "tn_CompletedState (av_t b) = NodeSucceeded" "map su_NodeID (tn_Successors (av_t b)) = [''left'']"
      "map su_NodeID (tn_Successors (av_t b')) = [''meet'']"
    by (auto split: sum.splits simp del: bind_res_Inr_iff)
  from run(1) obtain s where s: "Seed (Some fork_plan) ''i'' [] = Inr s"
    "Advance (\<lambda>b. b) (Some fork_plan) s (result ''fork'' ''SUCCEEDED'') = Inr (finish (\<lambda>b. b) b)"
    by (auto simp: Advance_def advance_run_def)
  let ?c = "result ''fork'' ''SUCCEEDED''" and ?t = "finish (\<lambda>b. b) b" and ?t' = "finish (\<lambda>b. b) b'"
  have i: "no_NodeID ?c = ''fork''" by (simp add: result_def)
  have u: "no_NodeID ?c \<notin> set (map su_NodeID (tn_Successors ?t))" "no_NodeID ?c \<notin> set (map su_NodeID (tn_Successors ?t'))"
    using arg_cong [OF b(2), of set] arg_cong [OF b(3), of set] by (simp_all add: sortSuccessors_def i)
  have step: "Advance (\<lambda>b. b) (Some fork_plan) (tn_Next ?t) (result ''left'' ''SUCCEEDED'') = Inr ?t'"
    using run(2) by (auto simp: Advance_def advance_run_def)
  have q: "quiet_run (\<lambda>b. b) fork_plan (no_NodeID ?c) (tn_Next ?t) (tn_Next ?t')"
    by (rule quiet_step [OF quiet step u(2)])
  have d: "distinct (map cn_ID (cw_Nodes fork_plan))" by code_simp
  have "tn_CompletedState ?t \<in> {NodeSucceeded, NodeFailed}"
    using b(1) by simp
  from settled_node_refuses_outcomes [OF d seeded [OF s(1)] s(2) this u(1) q refl]
  show ?thesis
    using s step unfolding i by blast
qed







text \<open>
  The search that decides which branches are dead terminates on every plan, cyclic ones included, and returns
  exactly the nodes that can be reached over the edges from the given ones.
\<close>

theorem reachable_from_is_edge_closure:
  "set (reachableFrom p from) = (plan_edges (cw_Edges p))\<^sup>* `` set from"
  by (rule reachableFrom_set)

end
