(* ===== verification/Engine_Canonical.thy ===== *)
theory Engine_Canonical
  imports Go_Codec "HOL-Library.Word"
begin

unbundle bit_operations_syntax

text \<open>
  Package \<open>internal/engines/canonicalbytes\<close>: the writer of tagged, length-prefixed streams that the pure engines
  digest. A writer carries the bytes written so far and the first error; the wrappings of an error are not kept,
  since callers match it by \<open>errors.Is\<close>. A kernel value is given by its canonical bytes, \<open>None\<close> for the
  nil of an invalid value. \<open>uvarint\<close> is \<open>binary.AppendUvarint\<close>; a signed integer is a 64-bit word.

  The specification of a writer is the list of fields its calls stand for, or the first error among them. The
  writer refines it, for every sequence of calls and every nesting of streams, and the framing is injective: a
  completed stream determines its schema, its version and all its fields.
\<close>

subsection \<open>The writer\<close>

datatype canonical_error = ErrSchemaRequired | ErrUnencodable | ErrTagRequired

record Writer =
  w_buf :: bytes
  w_err :: "canonical_error option"

definition writer_fail :: "canonical_error \<Rightarrow> Writer \<Rightarrow> Writer" where
  "writer_fail e w = (if w_err w = None then w\<lparr>w_err := Some e\<rparr> else w)"

definition frame :: "string \<Rightarrow> bytes \<Rightarrow> bytes" where
  "frame tag payload = uvarint (length tag) @ tag @ uvarint (length payload) @ payload"

definition Writer_Field :: "string \<Rightarrow> bytes \<Rightarrow> Writer \<Rightarrow> Writer" where
  "Writer_Field tag payload w =
     (if w_err w \<noteq> None then w
      else if tag = [] then writer_fail ErrTagRequired w
      else w\<lparr>w_buf := w_buf w @ frame tag payload\<rparr>)"

definition Writer_String :: "string \<Rightarrow> string \<Rightarrow> Writer \<Rightarrow> Writer" where
  "Writer_String tag v = Writer_Field tag v"

definition Writer_Bool :: "string \<Rightarrow> bool \<Rightarrow> Writer \<Rightarrow> Writer" where
  "Writer_Bool tag v = Writer_Field tag [if v then CHR 0x01 else CHR 0x00]"

definition zigzag :: "64 word \<Rightarrow> 64 word" where
  "zigzag v = push_bit 1 v XOR signed_drop_bit 63 v"

definition Writer_Int :: "string \<Rightarrow> 64 word \<Rightarrow> Writer \<Rightarrow> Writer" where
  "Writer_Int tag v = Writer_Field tag (uvarint (unat (zigzag v)))"

definition Writer_New :: "string \<Rightarrow> 64 word \<Rightarrow> Writer" where
  "Writer_New schema version =
     (let w = \<lparr>w_buf = [], w_err = None\<rparr> in
      if schema = [] then w\<lparr>w_err := Some ErrSchemaRequired\<rparr>
      else Writer_Int ''$schema_version'' version (Writer_String ''$schema'' schema w))"

definition Writer_Value :: "string \<Rightarrow> bytes option \<Rightarrow> Writer \<Rightarrow> Writer" where
  "Writer_Value tag c w =
     (if w_err w \<noteq> None then w
      else case c of
        None \<Rightarrow> writer_fail ErrUnencodable w
      | Some payload \<Rightarrow> Writer_Field tag payload w)"

definition Writer_Optional :: "string \<Rightarrow> bool \<Rightarrow> bytes option \<Rightarrow> Writer \<Rightarrow> Writer" where
  "Writer_Optional tag present c w =
     (if w_err w \<noteq> None then w
      else let w' = Writer_Bool (tag @ ''?'') present w in
        if \<not> present then w' else Writer_Value tag c w')"

definition Writer_Bytes :: "Writer \<Rightarrow> canonical_error + bytes" where
  "Writer_Bytes w = (case w_err w of Some e \<Rightarrow> Inl e | None \<Rightarrow> Inr (w_buf w))"

definition Writer_Nested :: "string \<Rightarrow> Writer \<Rightarrow> Writer \<Rightarrow> Writer" where
  "Writer_Nested tag n w =
     (if w_err w \<noteq> None then w
      else case Writer_Bytes n of Inl e \<Rightarrow> writer_fail e w | Inr payload \<Rightarrow> Writer_Field tag payload w)"

definition Writer_SortedStrings :: "string \<Rightarrow> string list \<Rightarrow> Writer \<Rightarrow> Writer" where
  "Writer_SortedStrings tag vs w =
     (if w_err w \<noteq> None then w
      else let sorted = sort vs in
        fold (Writer_String tag) sorted (Writer_Int (tag @ ''#'') (of_nat (length sorted)) w))"

definition Writer_Count :: "string \<Rightarrow> nat \<Rightarrow> Writer \<Rightarrow> Writer" where
  "Writer_Count tag n = Writer_Int (tag @ ''#'') (of_nat n)"

definition canonical_Digest :: "(bytes \<Rightarrow> bytes) \<Rightarrow> bytes \<Rightarrow> string" where
  "canonical_Digest sum256 raw = ''sha256:'' @ hex_encode (sum256 raw)"

definition Writer_Digest :: "(bytes \<Rightarrow> bytes) \<Rightarrow> Writer \<Rightarrow> canonical_error + string" where
  "Writer_Digest sum256 w = bind_res (Writer_Bytes w) (\<lambda>raw. Inr (canonical_Digest sum256 raw))"

subsection \<open>Sequences of calls and the fields they stand for\<close>

datatype canonical_call =
    CallField string bytes
  | CallString string string
  | CallBool string bool
  | CallInt string "64 word"
  | CallValue string "bytes option"
  | CallOptional string bool "bytes option"
  | CallNested string string "64 word" "canonical_call list"
  | CallSortedStrings string "string list"
  | CallCount string nat

fun run_write :: "canonical_call \<Rightarrow> Writer \<Rightarrow> Writer"
  and run_writes :: "canonical_call list \<Rightarrow> Writer \<Rightarrow> Writer" where
  "run_write (CallField tag payload) w = Writer_Field tag payload w"
| "run_write (CallString tag v) w = Writer_String tag v w"
| "run_write (CallBool tag v) w = Writer_Bool tag v w"
| "run_write (CallInt tag v) w = Writer_Int tag v w"
| "run_write (CallValue tag c) w = Writer_Value tag c w"
| "run_write (CallOptional tag present c) w = Writer_Optional tag present c w"
| "run_write (CallNested tag schema version calls) w =
     Writer_Nested tag (run_writes calls (Writer_New schema version)) w"
| "run_write (CallSortedStrings tag vs) w = Writer_SortedStrings tag vs w"
| "run_write (CallCount tag n) w = Writer_Count tag n w"
| "run_writes [] w = w"
| "run_writes (c # cs) w = run_writes cs (run_write c w)"

type_synonym canonical_fields = "(string \<times> bytes) list"

definition then_fields ::
    "canonical_error + canonical_fields \<Rightarrow> canonical_error + canonical_fields \<Rightarrow> canonical_error + canonical_fields" where
  "then_fields a b = bind_res a (\<lambda>fs. bind_res b (\<lambda>gs. Inr (fs @ gs)))"

definition one_field :: "string \<Rightarrow> bytes \<Rightarrow> canonical_error + canonical_fields" where
  "one_field tag payload = (if tag = [] then Inl ErrTagRequired else Inr [(tag, payload)])"

definition bool_bytes :: "bool \<Rightarrow> bytes" where
  "bool_bytes v = [if v then CHR 0x01 else CHR 0x00]"

definition int_bytes :: "64 word \<Rightarrow> bytes" where
  "int_bytes v = uvarint (unat (zigzag v))"

definition value_field :: "string \<Rightarrow> bytes option \<Rightarrow> canonical_error + canonical_fields" where
  "value_field tag c = (case c of None \<Rightarrow> Inl ErrUnencodable | Some b \<Rightarrow> one_field tag b)"

definition new_fields :: "string \<Rightarrow> 64 word \<Rightarrow> canonical_error + canonical_fields" where
  "new_fields schema version =
     (if schema = [] then Inl ErrSchemaRequired
      else Inr [(''$schema'', schema), (''$schema_version'', int_bytes version)])"

definition frames :: "canonical_fields \<Rightarrow> bytes" where
  "frames fs = concat (map (\<lambda>(tag, payload). frame tag payload) fs)"

fun call_fields :: "canonical_call \<Rightarrow> canonical_error + canonical_fields"
  and calls_fields :: "canonical_call list \<Rightarrow> canonical_error + canonical_fields" where
  "call_fields (CallField tag payload) = one_field tag payload"
| "call_fields (CallString tag v) = one_field tag v"
| "call_fields (CallBool tag v) = one_field tag (bool_bytes v)"
| "call_fields (CallInt tag v) = one_field tag (int_bytes v)"
| "call_fields (CallValue tag c) = value_field tag c"
| "call_fields (CallOptional tag present c) =
     then_fields (Inr [(tag @ ''?'', bool_bytes present)]) (if present then value_field tag c else Inr [])"
| "call_fields (CallNested tag schema version calls) =
     bind_res (then_fields (new_fields schema version) (calls_fields calls)) (\<lambda>fs. one_field tag (frames fs))"
| "call_fields (CallSortedStrings tag vs) =
     then_fields (Inr [(tag @ ''#'', int_bytes (of_nat (length vs)))])
       (if tag = [] \<and> vs \<noteq> [] then Inl ErrTagRequired else Inr (map (\<lambda>v. (tag, v)) (sort vs)))"
| "call_fields (CallCount tag n) = one_field (tag @ ''#'') (int_bytes (of_nat n))"
| "calls_fields [] = Inr []"
| "calls_fields (c # cs) = then_fields (call_fields c) (calls_fields cs)"

definition stream_fields :: "string \<Rightarrow> 64 word \<Rightarrow> canonical_call list \<Rightarrow> canonical_error + canonical_fields" where
  "stream_fields schema version calls = then_fields (new_fields schema version) (calls_fields calls)"

definition canonical_stream :: "string \<Rightarrow> 64 word \<Rightarrow> canonical_call list \<Rightarrow> canonical_error + bytes" where
  "canonical_stream schema version calls = Writer_Bytes (run_writes calls (Writer_New schema version))"

subsection \<open>The writer refines the list of fields\<close>

definition holds_fields :: "Writer \<Rightarrow> canonical_error + canonical_fields \<Rightarrow> bool" where
  "holds_fields w r \<longleftrightarrow>
     (case r of Inl e \<Rightarrow> w_err w = Some e | Inr fs \<Rightarrow> w_err w = None \<and> w_buf w = frames fs)"

lemma frames_append [simp]: "frames [] = []" "frames (fs @ gs) = frames fs @ frames gs"
    "frames [(t, p)] = frame t p" "frames ((t, p) # fs) = frame t p @ frames fs"
  by (simp_all add: frames_def)

lemma then_fields_simps [simp]:
  "then_fields (Inl e) b = Inl e" "then_fields (Inr fs) (Inl e) = Inl e"
  "then_fields (Inr fs) (Inr gs) = Inr (fs @ gs)" "then_fields a (Inr []) = a"
  by (simp_all add: then_fields_def) (cases a; simp)

lemma then_fields_assoc: "then_fields (then_fields a b) c = then_fields a (then_fields b c)"
  by (cases a; cases b; cases c) simp_all

lemma failed_writer_unchanged:
  assumes "w_err w = Some e"
  shows "Writer_Field t p w = w" "Writer_Value t c w = w" "Writer_Optional t b c w = w"
    "Writer_Nested t n w = w" "Writer_SortedStrings t vs w = w"
  using assms by (simp_all add: Writer_Field_def Writer_Value_def Writer_Optional_def Writer_Nested_def
      Writer_SortedStrings_def)

lemma sort_Nil_iff: "sort vs = [] \<longleftrightarrow> vs = ([] :: string list)"
  by (metis length_0_conv length_sort)

lemma holds_failed: "w_err w = Some e \<Longrightarrow> holds_fields w r \<Longrightarrow> holds_fields w (then_fields r b)"
  by (cases r) (simp_all add: holds_fields_def)

lemmas call_defs = Writer_String_def Writer_Bool_def Writer_Int_def Writer_Count_def bool_bytes_def int_bytes_def

lemma failed_run_write: "w_err w = Some e \<Longrightarrow> run_write c w = w"
  by (cases c) (simp_all add: failed_writer_unchanged call_defs)

lemma holds_field:
  "holds_fields w r \<Longrightarrow> holds_fields (Writer_Field t p w) (then_fields r (one_field t p))"
  by (cases r) (simp_all add: holds_fields_def failed_writer_unchanged Writer_Field_def one_field_def writer_fail_def)

lemma holds_value:
  "holds_fields w r \<Longrightarrow> holds_fields (Writer_Value t c w) (then_fields r (value_field t c))"
  using holds_field [of w r t]
  by (cases r; cases c)
    (simp_all add: holds_fields_def failed_writer_unchanged Writer_Value_def value_field_def writer_fail_def)

lemma holds_new: "holds_fields (Writer_New s v) (new_fields s v)"
  by (simp add: Writer_New_def new_fields_def holds_fields_def Writer_Field_def call_defs)

lemma Writer_Bytes_holds: "holds_fields w r \<Longrightarrow> Writer_Bytes w = map_sum id frames r"
  by (cases r) (simp_all add: holds_fields_def Writer_Bytes_def)

lemma holds_strings:
  "holds_fields w r \<Longrightarrow>
     holds_fields (fold (Writer_String t) vs w)
       (then_fields r (if t = [] \<and> vs \<noteq> [] then Inl ErrTagRequired else Inr (map (\<lambda>v. (t, v)) vs)))"
proof (induction vs arbitrary: w r)
  case (Cons v vs)
  from Cons.IH [OF holds_field [OF Cons.prems, of t v]] show ?case
    by (cases r) (auto simp: Writer_String_def then_fields_assoc one_field_def split: if_splits)
qed simp

lemma holds_call: "holds_fields w r \<Longrightarrow> holds_fields (run_write c w) (then_fields r (call_fields c))"
  and holds_calls: "holds_fields w r \<Longrightarrow> holds_fields (run_writes cs w) (then_fields r (calls_fields cs))"
proof (induction c and cs arbitrary: w r and w r rule: call_fields_calls_fields.induct)
  case (6 tag present c)
  have b: "holds_fields (Writer_Bool (tag @ ''?'') present w) (then_fields r (Inr [(tag @ ''?'', bool_bytes present)]))"
    using holds_field [OF 6, of "tag @ ''?''" "bool_bytes present"] by (simp add: call_defs one_field_def)
  show ?case
  proof (cases "w_err w")
    case None
    then show ?thesis
      using b holds_value [OF b, of tag c] by (cases present) (simp_all add: Writer_Optional_def then_fields_assoc)
  qed (use 6 in \<open>simp add: failed_writer_unchanged holds_failed\<close>)
next
  case (7 tag schema version calls)
  have "Writer_Bytes (run_writes calls (Writer_New schema version)) =
      map_sum id frames (then_fields (new_fields schema version) (calls_fields calls))"
    by (rule Writer_Bytes_holds) (rule "7.IH" [OF holds_new])
  then show ?case
    using "7.prems" holds_field [OF "7.prems", of tag]
    by (cases r; cases "then_fields (new_fields schema version) (calls_fields calls)")
      (simp_all add: Writer_Nested_def failed_writer_unchanged writer_fail_def holds_fields_def bind_res_def)
next
  case (8 tag vs)
  have b: "holds_fields (Writer_Int (tag @ ''#'') (of_nat (length vs)) w)
      (then_fields r (Inr [(tag @ ''#'', int_bytes (of_nat (length vs)))]))"
    using holds_field [OF 8, of "tag @ ''#''" "int_bytes (of_nat (length vs))"] by (simp add: call_defs one_field_def)
  show ?case
  proof (cases "w_err w")
    case None
    then show ?thesis
      using holds_strings [OF b, of tag "sort vs"] sort_Nil_iff [of vs]
      by (cases "tag = [] \<and> vs \<noteq> []") (auto simp: Writer_SortedStrings_def then_fields_assoc Let_def)
  qed (use 8 in \<open>simp add: failed_writer_unchanged holds_failed\<close>)
next
  case (11 c cs)
  show ?case using "11.IH"(2) [OF "11.IH"(1) [OF "11.prems"]] by (simp add: then_fields_assoc)
qed (auto simp: holds_field holds_value then_fields_assoc Writer_String_def simp flip: bool_bytes_def
    simp: Writer_Bool_def Writer_Int_def Writer_Count_def int_bytes_def)

lemma canonical_stream_refines:
  "canonical_stream schema version calls = map_sum id frames (stream_fields schema version calls)"
  unfolding canonical_stream_def stream_fields_def by (rule Writer_Bytes_holds) (rule holds_calls [OF holds_new])

subsection \<open>The framing is injective\<close>

lemma frame_inj: "frame t p @ xs = frame u q @ ys \<Longrightarrow> t = u \<and> p = q \<and> xs = ys"
  unfolding frame_def by (auto dest!: uvarint_append_inj)

lemma frame_not_Nil [simp]: "frame t p \<noteq> []"
  by (simp add: frame_def uvarint.simps [of "length t"])

lemma frames_inj: "frames fs = frames gs \<Longrightarrow> fs = gs"
proof (induction fs arbitrary: gs)
  case Nil
  then show ?case by (cases gs) (auto simp: frames_def)
next
  case (Cons f fs)
  obtain t p where f: "f = (t, p)" by fastforce
  with Cons.prems obtain u q gs' where g: "gs = (u, q) # gs'"
    by (cases gs) auto
  have "t = u \<and> p = q \<and> frames fs = frames gs'"
    using frame_inj [of t p "frames fs" u q "frames gs'"] Cons.prems f g by simp
  with Cons.IH f g show ?case by simp
qed

lemma zigzag_bits:
  "bit (zigzag v) 0 \<longleftrightarrow> bit v 63" "n < 63 \<Longrightarrow> bit (zigzag v) (Suc n) \<longleftrightarrow> bit v n \<noteq> bit v 63"
  unfolding zigzag_def bit_xor_iff bit_push_bit_iff bit_signed_drop_bit_iff by auto

lemma zigzag_inj: "zigzag v = zigzag w \<Longrightarrow> v = w"
proof (rule bit_word_eqI)
  fix n assume z: "zigzag v = zigzag w" and n: "n < LENGTH(64)"
  then have top: "bit v 63 = bit w 63" using zigzag_bits(1) by metis
  show "bit v n = bit w n"
  proof (cases "n = 63")
    case False
    with n have "n < 63" by simp
    with z top show ?thesis using zigzag_bits(2) by metis
  qed (simp add: top)
qed

lemma int_bytes_inj: "int_bytes v = int_bytes w \<longleftrightarrow> v = w"
  using uvarint_append_inj [of "unat (zigzag v)" "[]" "unat (zigzag w)" "[]"] zigzag_inj [of v w]
  by (auto simp: int_bytes_def simp flip: word_unat_eq_iff)

lemma new_then_inj:
  assumes "then_fields (new_fields s v) a = Inr fs" "then_fields (new_fields s' v') b = Inr fs"
  shows "s = s' \<and> v = v' \<and> a = b"
  using assms by (cases a; cases b) (auto simp: new_fields_def int_bytes_inj split: if_splits)

text \<open>
  Two writers that complete with the same bytes were opened with the same schema and the same version and
  were given the same list of tagged fields, whatever calls made them: a digest over the stream binds all three.
\<close>
lemma stream_determines_fields:
  assumes "canonical_stream schema version calls = Inr b" "canonical_stream schema' version' calls' = Inr b"
  shows "schema = schema' \<and> version = version' \<and> calls_fields calls = calls_fields calls'"
proof -
  from assms obtain fs gs where "stream_fields schema version calls = Inr fs" "stream_fields schema' version' calls' = Inr gs"
    and "frames fs = b" "frames gs = b"
    unfolding canonical_stream_refines
    by (cases "stream_fields schema version calls"; cases "stream_fields schema' version' calls'") auto
  with frames_inj [of fs gs] show ?thesis
    unfolding stream_fields_def using new_then_inj [of schema version _ fs schema' version'] by simp
qed

definition set_in_two_orders :: "canonical_call list list" where
  "set_in_two_orders = [[CallSortedStrings ''k'' [''b'', ''a'']], [CallSortedStrings ''k'' [''a'', ''b'']]]"

lemma stream_determines_fields_example:
  "calls_fields (set_in_two_orders ! 0) = calls_fields (set_in_two_orders ! 1)"
proof -
  have "\<exists>b. canonical_stream ''s'' 1 (set_in_two_orders ! 0) = Inr b \<and> canonical_stream ''s'' 1 (set_in_two_orders ! 1) = Inr b"
    by (simp add: set_in_two_orders_def canonical_stream_def Writer_New_def Writer_SortedStrings_def Writer_Field_def
        call_defs Writer_Bytes_def)
  then show ?thesis using stream_determines_fields [of "''s''" 1 "set_in_two_orders ! 0"] by blast
qed

end
