(* ===== verification/Spec2Isabelle.thy ===== *)
theory Spec2Isabelle
  imports Values_Money Values_Presence Values_Timer Lifecycle_Machine Conflict_Preflight Workflow_Properties
    Engine_Canonical
begin

text \<open>
  Verification library for the core of the Human Capital Management Suite, a Go program under \<open>src/\<close>.

  \<^bold>\<open>The program.\<close> The suite turns a person's request for a change (hire, promotion, pay change) into
  an \<^emph>\<open>intent\<close>, moves the intent through a governed lifecycle, and commits its writes to effective-dated
  records; a workflow drives the work in between. Five packages carry the rules that everything above them relies on,
  and this library models them completely:

  \<^item> \<open>internal/kernel/values\<close>: the values all records are made of. Decimals with a scale and a rounding mode,
    money, quantities and rates, identifiers and revision tokens, presence (why a property has no value),
    instants, civil dates and times, zoned times, half-open effective intervals, and the replay of timers.
  \<^item> \<open>internal/intent/lifecycle\<close>: five orthogonal state dimensions of an intent, the rules that say which tuples
    of states are legal, declared lifecycle profiles, and the machine that applies transitions and keeps their
    history.
  \<^item> \<open>internal/transaction/conflict\<close>: write footprints (resource, field, effective interval, revision), the
    classification of overlapping proposals, the registry of write intents with its commit fence, and the
    preflight that compares what was approved with what is current.
  \<^item> \<open>internal/workflow/frontier\<close>: the pure function that derives, from a compiled plan, the snapshot of a workflow
    instance and one node outcome, the next snapshot with its successors, join counters, skipped branches, terminal
    and scheduling intents.
  \<^item> \<open>internal/engines/canonicalbytes\<close>: the writer of tagged, length-prefixed streams over which the pure engines
    compute their digests.

  The packages interact by calls only: a footprint holds resource keys, revision tokens and effective
  intervals of the kernel values, so overlap of footprints rests on overlap of intervals (\<open>timeline\<close> in
  Values_Interval) and scope digests rest on the canonical texts of identifiers (\<open>canonical_text\<close> in
  Values_Identity). The terminal of a workflow records the five lifecycle dimensions by the names of
  Lifecycle_Rules. The breadth-first search of lifecycle profiles and the depth-first search of workflow plans are
  both instances of the locale \<open>worklist\<close> (theory Worklist).

  \<^bold>\<open>Theories and sources.\<close>

  \<^item> Prelude: the result type \<open>'e + 'a\<close> of a Go function returning \<open>(T, error)\<close>, early returns, and the locale
    \<open>command_system\<close> for a component driven by a sequence of commands.
  \<^item> Go_Std, Go_Codec, Go_Time: what the packages use of the Go language and standard library (\<open>strings\<close>,
    \<open>strconv\<close>, \<open>encoding/binary\<close>, \<open>utf8\<close>, \<open>base64\<close>, and the calendar and RFC 3339 text of \<open>time\<close>).
    Go_Search: binary search (\<open>sort.Search\<close>) and slices kept sorted by a key.
  \<^item> Values_Error, Values_Decimal, Values_Rounding: \<open>values/decimal.go\<close>. Values_Money: \<open>values/money.go\<close>.
    Values_Identity: \<open>values/identity.go\<close>. Values_Presence: \<open>values/presence.go\<close>. Values_Civil, Values_Zone,
    Values_Interval: the three parts of \<open>values/time.go\<close>. Values_Timer: \<open>values/timer.go\<close>.
  \<^item> Lifecycle_Rules: \<open>lifecycle/dimensions.go\<close> and \<open>rules.go\<close>. Lifecycle_Profile: \<open>profile.go\<close>.
    Lifecycle_Machine: \<open>machine.go\<close>.
  \<^item> Conflict_Footprint: \<open>conflict/errors.go\<close> and \<open>footprint.go\<close>. Conflict_Classify: \<open>classify.go\<close>.
    Conflict_Registry: \<open>intent.go\<close> and \<open>fence.go\<close>. Conflict_Preflight: \<open>reevaluate.go\<close>.
  \<^item> Workflow_State: \<open>frontier/errors.go\<close>, \<open>state.go\<close>, \<open>outcome.go\<close>, \<open>transition.go\<close> and \<open>workflow/steptype.go\<close>.
    Workflow_Digest: \<open>frontier/digest.go\<close> with the JSON text that \<open>encoding/json\<close> writes for a transition.
    Workflow_Advance: \<open>frontier/advance.go\<close>. Workflow_Frontier: the effect of each step on the map of node
    states and the invariant. Workflow_Properties: the statements.
  \<^item> Engine_Canonical: \<open>canonicalbytes/canonicalbytes.go\<close>.

  \<^bold>\<open>State and operations.\<close> A Go struct is a record with one field per Go field, an enumeration a datatype
  with the source's constructors, a sentinel error a constructor of the file's error datatype. A method
  \<open>T.M\<close> is the definition \<open>T_M\<close> and a function keeps its name. A method that mutates its receiver returns the
  new state: \<open>Apply\<close> returns the machine with the record appended, \<open>Register\<close>, \<open>ValidateAtCommit\<close> and
  \<open>Release\<close> return the registry. The registry guards each method with one mutex, so a concurrent run is a
  sequence of whole calls; \<open>reachable_registry\<close>, \<open>reachable_machine\<close> and \<open>reachable_instance\<close> are the states such sequences reach,
  and invariants are proved by induction over them. Slices are lists, maps are partial functions or, where
  their keys are enumerated, association lists; Go's unspecified order of a map iteration is an argument
  (\<open>visit_order\<close> in Conflict_Registry, \<open>scope_order\<close> in Conflict_Preflight) and the properties quantify over it.

  \<^bold>\<open>What is shown.\<close>

  \<^item> Decimals: every result validates; Add and Sub are exact, Mul and Div round the exact rational result once as
    the declared mode says; MarshalText and UnmarshalText are inverse. Money never mixes currencies and rates
    round once.
  \<^item> Identifiers, dates, instants and presences have exactly one text (the locale \<open>canonical_text\<close>, interpreted
    for each of them); revision tokens of one stream are ordered by their sequence numbers; a presence shown to an unauthorised
    reader discloses nothing.
  \<^item> Calendar: dates are exactly the real dates of years 1 to 9999 and AddDays is addition of day numbers;
    zoned times resolve gaps and ambiguities as the policy says; interval overlap is a shared point (the
    locale \<open>timeline\<close>, interpreted for dates and for instants) and canonical bytes determine an interval.
  \<^item> Lifecycle: the legality check reports exactly the broken rules; profile validation terminates and accepts
    exactly the publishable profiles; the history of a machine is one governed chain, replay rebuilds it and
    accepts only such chains; terminal states are final; a narrowed machine refines its base.
  \<^item> Conflicts: overlap of footprints is a shared write; alias resolution terminates on every table and is
    canonical; the decision of a classification is determined by the declarations; committed intents never overlap;
    a commit is decided by baseline and contention only; fences are fresh until their 64-bit counter wraps around; a release unblocks the contender; the preflight verdict is
    a function of the pinned and current sets.
  \<^item> Workflows: every reachable snapshot validates, and has an active node exactly until it completes (one, when the
    plan has no PARALLEL node); an outcome follows its declared edge and every other node keeps its state; exactly the
    dead ends are skipped; a settled node refuses further outcomes until it is re-entered; retries end in the failure
    route; the search for live branches is the closure of the edges.
  \<^item> Canonical streams: the writer refines the list of fields that its calls stand for, the first error included, and
    a completed stream determines its schema, its version and its fields.
  \<^item> Where the code departs from its comments a closed theorem exhibits the input: a narrowed profile that drops a
    governance requirement, a retry digest that confuses write sets, a preflight that misses an overlap and
    whose digest depends on the order of a map, rates with one canonical encoding, a PIN replay that moves a
    deadline, gap policies that record one offset, an AddDays that wraps around, a presence reason that is
    written and then refused, a PARALLEL node that opens one branch only, a failed branch that satisfies a join, a
    skipped node that a failure route activates.

  \<^bold>\<open>Parameters.\<close> Code outside the repository is an argument with its documented behaviour as a named hypothesis:
  the decimal library (\<open>apd_backend\<close>: parse, quantise, print), UUID parsing and Unicode normalisation (\<open>id_libs\<close> with
  \<open>id_law\<close>), the offsets of a time zone (\<open>location\<close>, with at most one transition near the requested time), the
  resolver of a timer, a codec of presence values (\<open>presence_law\<close>), SHA-256 (a function on bytes; the properties of the
  commit fence, that is commit safety, the commit decision, the status machine of intents, fences and release, assume
  that it separates the scopes that were registered), and the proofs that merge rules carry.
  Each property that has such a hypothesis comes with a witness at a concrete function.

  \<^bold>\<open>Bounds and termination.\<close> There is no fuel. Loops that are not structural have a measure: the breadth-first
  search of Profile.Validate (states not yet reached, then queue), the depth-first search of plans (likewise), alias resolution (aliases not yet seen),
  the bisection that finds a gap transition, the trimming of white space. Machine integers wrap where the code can make them wrap
  (the seconds of time.Date, the big-endian integers of encodings, 32-bit conversions); revision sequences, on which
  the code does no arithmetic, are natural numbers below \<open>2 ^ 64\<close>. The fence counter is a word of 64 bits; what holds
  until it wraps around is stated for fewer than \<open>2 ^ 64\<close> commits. The counters of workflow snapshots are words of 32
  and 64 bits.

  \<^bold>\<open>Not modelled.\<close> Detail texts wrapped around sentinel errors, display strings and plain field accessors;
  Unicode helpers of \<open>values\<close> that only call \<open>golang.org/x/text\<close>; the indented JSON of a transition and the
  digest of a bare workflow snapshot, whose text depends on which empty slices are nil. The rest of the repository is outside this
  core: stores that are SQL statements (\<open>internal/data\<close>, \<open>migrations\<close>), transports, servers and composition
  (\<open>internal/transport\<close>, \<open>internal/application\<close>, \<open>cmd\<close>), rendering (\<open>internal/humanwork\<close>,
  \<open>internal/experience\<close>, \<open>tools/uxqual\<close>), generated code (\<open>gen\<close>), and the packages that use the core: the durable
  workflow runtime, domains, agents, trust and governance. Their decisions rest on storage, clocks or cryptography behind
  interfaces, and none of the modelled packages calls them.
\<close>

end
